(* ===== verification/Prelude.thy ===== *)
theory Prelude
  imports Main "HOL-Library.Word" "HOL-Library.Char_ord" "HOL-Library.List_Lexorder"
    "HOL-Library.Multiset" "HOL-Library.Sublist"
begin

text \<open>
  What every component of the model shares: Rust's \<open>Result\<close> and the combinators the code
  calls on it, the checked and saturating integer operations, and the parts of Rust's
  \<open>str\<close>, \<open>Path\<close> and \<open>slice\<close> that the sources use. A Rust string is its UTF-8
  bytes: \<open>string\<close> is a list of bytes, so \<open>length\<close> is \<open>str::len\<close>.
\<close>

named_theorems result_simps \<open>unfolding of the combinators on results\<close>
named_theorems word_arith_simps \<open>checked and saturating integer operations on words\<close>

section \<open>Machine integers\<close>

text \<open>The target is a 64-bit platform, so \<open>usize\<close> has the width of \<open>u64\<close>.\<close>

type_synonym u32 = "32 word"
type_synonym u64 = "64 word"
type_synonym usize = "64 word"
type_synonym u128 = "128 word"
type_synonym i32 = "32 word"
type_synonym i64 = "64 word"
type_synonym bytes = string

abbreviation u_max :: "'a::len word" where
  "u_max \<equiv> - 1"

definition checked_add :: "'a::len word \<Rightarrow> 'a word \<Rightarrow> 'a word option" where
  "checked_add a b = (if unat a + unat b < 2 ^ LENGTH('a) then Some (a + b) else None)"

definition saturating_add :: "'a::len word \<Rightarrow> 'a word \<Rightarrow> 'a word" where
  "saturating_add a b = (if unat a + unat b < 2 ^ LENGTH('a) then a + b else u_max)"

text \<open>\<open>div_ceil\<close> panics on a zero divisor (\<open>None\<close>).\<close>

definition div_ceil :: "'a::len word \<Rightarrow> 'a word \<Rightarrow> 'a word option" where
  "div_ceil a b = (if b = 0 then None
     else Some (if a mod b > 0 then a div b + 1 else a div b))"

lemma unat_max: "unat (u_max :: 'a::len word) = 2 ^ LENGTH('a) - 1"
  by (simp add: unsigned_minus_1_eq_mask mask_eq_exp_minus_1)

lemma unat_add_no_overflow:
  "unat (a :: 'a::len word) + unat b < 2 ^ LENGTH('a) \<Longrightarrow> unat (a + b) = unat a + unat b"
  by (simp add: unat_word_ariths)

lemma checked_add_Some [word_arith_simps]:
  "checked_add a b = Some c \<longleftrightarrow> unat a + unat b < 2 ^ LENGTH('a) \<and> c = (a + b :: 'a::len word)"
  by (auto simp: checked_add_def)

lemma checked_add_None [word_arith_simps]:
  "checked_add (a :: 'a::len word) b = None \<longleftrightarrow> 2 ^ LENGTH('a) \<le> unat a + unat b"
  by (auto simp: checked_add_def)

lemma unat_saturating_add [word_arith_simps]:
  "unat (saturating_add a b :: 'a::len word) = min (unat a + unat b) (2 ^ LENGTH('a) - 1)"
  by (auto simp: saturating_add_def unat_max unat_add_no_overflow)

lemma div_ceil_step_no_overflow:
  fixes a b :: "'a::len word"
  assumes "0 < unat b" "0 < unat a mod unat b"
  shows "unat a div unat b + 1 < 2 ^ LENGTH('a)"
proof -
  have "unat b \<noteq> 1" using assms(2) by (auto intro: Nat.gr0I)
  with assms(1) have "2 \<le> unat b" by linarith
  then have "unat a div unat b \<le> unat a div 2" by (simp add: div_le_mono2)
  moreover have "unat a < 2 ^ LENGTH('a)" "unat b < 2 ^ LENGTH('a)" by (rule unsigned_less)+
  ultimately show ?thesis using \<open>2 \<le> unat b\<close> by linarith
qed

lemma unat_div_ceil:
  fixes a b :: "'a::len word"
  assumes "div_ceil a b = Some q"
  shows "unat q = (unat a + unat b - 1) div unat b"
proof -
  from assms have b: "0 < unat b" and q: "q = (if a mod b > 0 then a div b + 1 else a div b)"
    by (auto simp: div_ceil_def unat_gt_0 split: if_splits)
  define n m where "n = unat a" and "m = unat b"
  have pos: "a mod b > 0 \<longleftrightarrow> 0 < n mod m"
    by (simp add: n_def m_def word_less_nat_alt unat_mod)
  have "(n + m - 1) div m = n div m + (if 0 < n mod m then 1 else 0)"
  proof (cases "n mod m = 0")
    case True
    then obtain k where k: "n = m * k" by auto
    have "n + m - 1 = (m - 1) + k * m" using b k by (simp add: m_def mult.commute)
    moreover have "((m - 1) + k * m) div m = k"
      using b by (subst div_mult_self1) (simp_all add: m_def)
    ultimately show ?thesis using b k True by (simp add: m_def)
  next
    case False
    have "m * (n div m + 1) = m * (n div m) + m" by simp
    moreover have "m * (n div m) + n mod m = n" by simp
    ultimately have eq: "n + m - 1 = (n mod m - 1) + m * (n div m + 1)"
      using False by linarith
    have "m \<noteq> 0" "n mod m - 1 < m"
      using b mod_less_divisor [of m n] by (simp_all add: m_def less_imp_diff_less)
    then have "((n mod m - 1) + m * (n div m + 1)) div m = n div m + 1"
      by (subst div_mult_self2) simp_all
    with eq False show ?thesis by simp
  qed
  moreover have "unat q = n div m + (if 0 < n mod m then 1 else 0)"
  proof (cases "0 < n mod m")
    case True
    then show ?thesis
      using div_ceil_step_no_overflow [of b a] b q pos
      by (simp add: n_def m_def unat_add_no_overflow unat_div)
  next
    case False
    then show ?thesis using q pos by (simp add: n_def m_def unat_div)
  qed
  ultimately show ?thesis by (simp add: n_def m_def)
qed

lemma div_round_up_ge: "0 < m \<Longrightarrow> n \<le> (n + m - 1) div m * m" for n m :: nat
proof -
  assume "0 < m"
  then have "(n + m - 1) mod m < m" by simp
  moreover have "(n + m - 1) div m * m + (n + m - 1) mod m = n + m - 1" by simp
  ultimately show ?thesis using \<open>0 < m\<close> by linarith
qed

section \<open>Results\<close>

text \<open>Rust's \<open>Result<T, E>\<close>, and \<open>?\<close> as \<open>and_then\<close>.\<close>

datatype ('a, 'e) result = Ok 'a | Err 'e

fun and_then :: "('a, 'e) result \<Rightarrow> ('a \<Rightarrow> ('b, 'e) result) \<Rightarrow> ('b, 'e) result" where
  "and_then (Ok x) f = f x"
| "and_then (Err e) f = Err e"

fun map_err :: "('e \<Rightarrow> 'f) \<Rightarrow> ('a, 'e) result \<Rightarrow> ('a, 'f) result" where
  "map_err f (Ok x) = Ok x"
| "map_err f (Err e) = Err (f e)"

fun map_ok :: "('a \<Rightarrow> 'b) \<Rightarrow> ('a, 'e) result \<Rightarrow> ('b, 'e) result" where
  "map_ok f (Ok x) = Ok (f x)"
| "map_ok f (Err e) = Err e"

fun ok_or :: "'a option \<Rightarrow> 'e \<Rightarrow> ('a, 'e) result" where
  "ok_or (Some x) e = Ok x"
| "ok_or None e = Err e"

fun is_ok :: "('a, 'e) result \<Rightarrow> bool" where
  "is_ok (Ok x) = True"
| "is_ok (Err e) = False"

text \<open>\<open>iter.map(f).collect::<Result<Vec<_>>>()\<close>: stops at the first error.\<close>

fun try_map :: "('a \<Rightarrow> ('b, 'e) result) \<Rightarrow> 'a list \<Rightarrow> ('b list, 'e) result" where
  "try_map f [] = Ok []"
| "try_map f (x # xs) = and_then (f x) (\<lambda>y. and_then (try_map f xs) (\<lambda>ys. Ok (y # ys)))"

fun try_fold :: "('s \<Rightarrow> 'a \<Rightarrow> ('s, 'e) result) \<Rightarrow> 's \<Rightarrow> 'a list \<Rightarrow> ('s, 'e) result" where
  "try_fold f s [] = Ok s"
| "try_fold f s (x # xs) = and_then (f s x) (\<lambda>s'. try_fold f s' xs)"

text \<open>A loop \<open>for x in xs { f(x)?; }\<close>.\<close>

fun try_each :: "('a \<Rightarrow> (unit, 'e) result) \<Rightarrow> 'a list \<Rightarrow> (unit, 'e) result" where
  "try_each f [] = Ok ()"
| "try_each f (x # xs) = and_then (f x) (\<lambda>_. try_each f xs)"

lemma and_then_Ok [result_simps]: "and_then r f = Ok y \<longleftrightarrow> (\<exists>x. r = Ok x \<and> f x = Ok y)"
  by (cases r) auto

lemma and_then_Err [result_simps]:
  "and_then r f = Err e \<longleftrightarrow> r = Err e \<or> (\<exists>x. r = Ok x \<and> f x = Err e)"
  by (cases r) auto

lemma map_err_Ok [result_simps]: "map_err f r = Ok x \<longleftrightarrow> r = Ok x"
  by (cases r) auto

lemma map_err_Err [result_simps]: "map_err f r = Err e \<longleftrightarrow> (\<exists>e'. r = Err e' \<and> e = f e')"
  by (cases r) auto

lemma map_ok_Ok [result_simps]: "map_ok f r = Ok y \<longleftrightarrow> (\<exists>x. r = Ok x \<and> y = f x)"
  by (cases r) auto

lemma map_ok_Err [result_simps]: "map_ok f r = Err e \<longleftrightarrow> r = Err e"
  by (cases r) auto

lemma ok_or_Ok [result_simps]: "ok_or o' e = Ok x \<longleftrightarrow> o' = Some x"
  by (cases o') auto

lemma ok_or_Err [result_simps]: "ok_or o' e = Err e' \<longleftrightarrow> o' = None \<and> e' = e"
  by (cases o') auto

lemma is_ok_iff: "is_ok r \<longleftrightarrow> (\<exists>x. r = Ok x)"
  by (cases r) auto

lemma and_then_Ok_id [simp]: "and_then r Ok = r"
  by (cases r) auto

lemma and_then_assoc: "and_then (and_then r f) g = and_then r (\<lambda>x. and_then (f x) g)"
  by (cases r) auto

lemma and_then_cong [fundef_cong]:
  "r = r' \<Longrightarrow> (\<And>x. r' = Ok x \<Longrightarrow> f x = g x) \<Longrightarrow> and_then r f = and_then r' g"
  by (cases r') auto

lemma try_map_cong [fundef_cong]:
  "xs = ys \<Longrightarrow> (\<And>x. x \<in> set ys \<Longrightarrow> f x = g x) \<Longrightarrow> try_map f xs = try_map g ys"
  by (induction ys arbitrary: xs) auto

lemma try_each_cong [fundef_cong]:
  "xs = ys \<Longrightarrow> (\<And>x. x \<in> set ys \<Longrightarrow> f x = g x) \<Longrightarrow> try_each f xs = try_each g ys"
  by (induction ys arbitrary: xs) auto

lemma try_each_Ok: "try_each f xs = Ok () \<longleftrightarrow> (\<forall>x\<in>set xs. f x = Ok ())"
  by (induction xs) (auto simp: result_simps)

lemma try_each_append:
  "try_each f (xs @ ys) = and_then (try_each f xs) (\<lambda>_. try_each f ys)"
  by (induction xs) (auto simp: and_then_assoc)

lemma try_each_concat: "try_each (\<lambda>xs. try_each f (h xs)) xss = try_each f (concat (map h xss))"
  by (induction xss) (auto simp: try_each_append)

text \<open>A loop whose body only tests: the first element that fails decides.\<close>

lemma try_each_find:
  "try_each (\<lambda>x. if p x then Ok () else Err (e x)) xs =
     (case find (\<lambda>x. \<not> p x) xs of None \<Rightarrow> Ok () | Some x \<Rightarrow> Err (e x))"
  by (induction xs) auto

lemma try_map_Ok: "try_map f xs = Ok ys \<longleftrightarrow> list_all2 (\<lambda>x y. f x = Ok y) xs ys"
  by (induction xs arbitrary: ys) (auto simp: result_simps list_all2_Cons1)

lemma try_map_length: "try_map f xs = Ok ys \<Longrightarrow> length ys = length xs"
  by (auto simp: try_map_Ok dest: list_all2_lengthD)

lemma try_map_nth: "try_map f xs = Ok ys \<Longrightarrow> i < length xs \<Longrightarrow> f (xs ! i) = Ok (ys ! i)"
  by (auto simp: try_map_Ok dest: list_all2_nthD)

lemma try_map_in: "try_map f xs = Ok ys \<Longrightarrow> y \<in> set ys \<Longrightarrow> \<exists>x\<in>set xs. f x = Ok y"
  by (induction xs arbitrary: ys) (auto simp: result_simps)

lemma try_map_ex_Ok: "(\<exists>ys. try_map f xs = Ok ys) \<longleftrightarrow> (\<forall>x\<in>set xs. \<exists>y. f x = Ok y)"
  by (induction xs) (auto simp: result_simps)

lemma first_such_Cons: "(\<exists>us x vs. a # xs = us @ x # vs \<and> (\<forall>u\<in>set us. P u) \<and> Q x)
    \<longleftrightarrow> Q a \<or> P a \<and> (\<exists>us x vs. xs = us @ x # vs \<and> (\<forall>u\<in>set us. P u) \<and> Q x)"
proof -
  have list: "(\<exists>us. R us) \<longleftrightarrow> R [] \<or> (\<exists>u us. R (u # us))" for R :: "'a list \<Rightarrow> bool"
    by (metis list.exhaust)
  show ?thesis by (subst list) auto
qed

lemma try_map_Err: "try_map f xs = Err e \<longleftrightarrow>
  (\<exists>us x vs. xs = us @ x # vs \<and> (\<forall>u\<in>set us. is_ok (f u)) \<and> f x = Err e)"
proof (induction xs)
  case (Cons a xs)
  then show ?case unfolding first_such_Cons by (cases "f a") (auto simp: result_simps)
qed simp

lemma try_map_pure: "(\<And>x. x \<in> set xs \<Longrightarrow> f x = Ok (g x)) \<Longrightarrow> try_map f xs = Ok (map g xs)"
  by (induction xs) auto

lemma try_map_preserves:
  assumes "try_map f xs = Ok ys" "\<And>x y. x \<in> set xs \<Longrightarrow> f x = Ok y \<Longrightarrow> h y = g x"
  shows "map h ys = map g xs"
  using assms by (induction xs arbitrary: ys) (auto simp: result_simps)

lemma try_fold_append:
  "try_fold f s (xs @ ys) = and_then (try_fold f s xs) (\<lambda>s'. try_fold f s' ys)"
  by (induction xs arbitrary: s) (auto simp: and_then_assoc)

lemma try_fold_invariant:
  assumes "try_fold f s xs = Ok s'" "I s"
    "\<And>s x s'. I s \<Longrightarrow> x \<in> set xs \<Longrightarrow> f s x = Ok s' \<Longrightarrow> I s'"
  shows "I s'"
  using assms
proof (induction xs arbitrary: s)
  case (Cons x xs)
  from Cons.prems(1) obtain t where t: "f s x = Ok t" "try_fold f t xs = Ok s'"
    by (auto simp: result_simps)
  show ?case
  proof (rule Cons.IH)
    show "try_fold f t xs = Ok s'" by (fact t(2))
    show "I t" using Cons.prems(2) t(1) by (intro Cons.prems(3) [of s x t]) simp_all
    show "I v" if "I u" "y \<in> set xs" "f u y = Ok v" for u y v
      using that by (intro Cons.prems(3) [of u y v]) simp_all
  qed
qed simp

section \<open>Pairwise relations on lists\<close>

text \<open>A symmetric relation holds between all pairs of a list whatever the list's order.\<close>

lemma sorted_wrt_symmetric_mset:
  assumes "\<And>a b. R a b \<Longrightarrow> R b a"
  shows "sorted_wrt R xs \<longleftrightarrow> (\<forall>a\<in>#mset xs. \<forall>b\<in>#mset xs - {#a#}. R a b)"
proof (induction xs)
  case (Cons x xs)
  have "(\<forall>a\<in>#mset (x # xs). \<forall>b\<in>#mset (x # xs) - {#a#}. R a b) \<longleftrightarrow>
      (\<forall>b\<in>set xs. R x b) \<and> (\<forall>a\<in>#mset xs. \<forall>b\<in>#add_mset x (mset xs - {#a#}). R a b)"
    by (auto simp: multi_drop_mem_not_eq)
  also have "\<dots> \<longleftrightarrow> (\<forall>b\<in>set xs. R x b) \<and> (\<forall>a\<in>#mset xs. \<forall>b\<in>#mset xs - {#a#}. R a b)"
    using assms by auto
  finally show ?case using Cons by simp
qed simp

lemma sorted_wrt_symmetric_perm:
  assumes "\<And>a b. R a b \<Longrightarrow> R b a" "mset xs = mset ys"
  shows "sorted_wrt R xs \<longleftrightarrow> sorted_wrt R ys"
  using sorted_wrt_symmetric_mset [of R xs] sorted_wrt_symmetric_mset [of R ys] assms by simp

lemma mset_sorted_by_key_unique:
  assumes "mset xs = mset ys" "sorted (map f xs)" "sorted (map f ys)" "distinct (map f xs)"
  shows "xs = ys"
proof -
  have "distinct (map f ys)"
    using assms(1,4) by (metis mset_eq_imp_distinct_iff mset_map)
  moreover have "inj_on f (set xs \<union> set ys)"
    using assms(1,4) by (metis distinct_map mset_eq_setD sup.idem)
  ultimately show ?thesis
    using assms by (intro map_sorted_distinct_set_unique) (auto dest: mset_eq_setD)
qed

lemma sum_list_map_concat: "sum_list (map f (concat xss)) = sum_list (map (\<lambda>xs. sum_list (map f xs)) xss)"
  for f :: "'a \<Rightarrow> nat"
  by (induction xss) auto

lemma successively_mono_set:
  assumes "successively P xs" "\<And>x y. x \<in> set xs \<Longrightarrow> y \<in> set xs \<Longrightarrow> P x y \<Longrightarrow> Q x y"
  shows "successively Q xs"
  using assms by (induction xs rule: induct_list012) auto

end
