(* ===== verification/RustStr.thy ===== *)
theory RustStr
  imports Prelude
begin

text \<open>
  The operations of Rust's \<open>str\<close>, \<open>u64::from_str\<close>, \<open>io::BufRead::lines\<close> and
  \<open>std::path::Path\<close> (on Unix) that the sources call, on UTF-8 bytes, with the lemmas the
  components share: splitting and joining, decimal numbers read back, trimming.
\<close>

section \<open>Bytes and characters\<close>

abbreviation byte :: "char \<Rightarrow> nat" where
  "byte c \<equiv> of_char c"

definition ascii_lower :: "char \<Rightarrow> char" where
  "ascii_lower c = (if 65 \<le> byte c \<and> byte c \<le> 90 then char_of (byte c + 32) else c)"

definition to_ascii_lowercase :: "string \<Rightarrow> string" where
  "to_ascii_lowercase s = map ascii_lower s"

definition eq_ignore_ascii_case :: "string \<Rightarrow> string \<Rightarrow> bool" where
  "eq_ignore_ascii_case a b \<longleftrightarrow> to_ascii_lowercase a = to_ascii_lowercase b"

definition is_continuation :: "char \<Rightarrow> bool" where
  "is_continuation c \<longleftrightarrow> 0x80 \<le> byte c \<and> byte c \<le> 0xBF"

definition is_char_boundary :: "string \<Rightarrow> nat \<Rightarrow> bool" where
  "is_char_boundary s n \<longleftrightarrow>
     n = 0 \<or> n = length s \<or> (n < length s \<and> \<not> is_continuation (s ! n))"

text \<open>\<open>s.get(..n)\<close>\<close>

definition str_get_to :: "nat \<Rightarrow> string \<Rightarrow> string option" where
  "str_get_to n s = (if is_char_boundary s n then Some (take n s) else None)"

text \<open>\<open>str::from_utf8\<close> succeeds: the byte ranges of the Unicode standard, table 3-7.\<close>

fun utf8_valid :: "string \<Rightarrow> bool" where
  "utf8_valid [] = True"
| "utf8_valid (a # s) =
    (if byte a < 0x80 then utf8_valid s
     else case s of [] \<Rightarrow> False | b # s2 \<Rightarrow>
       (if 0xC2 \<le> byte a \<and> byte a \<le> 0xDF then is_continuation b \<and> utf8_valid s2
        else case s2 of [] \<Rightarrow> False | c # s3 \<Rightarrow>
          (if 0xE0 \<le> byte a \<and> byte a \<le> 0xEF then
             is_continuation b \<and> (byte a = 0xE0 \<longrightarrow> 0xA0 \<le> byte b)
             \<and> (byte a = 0xED \<longrightarrow> byte b \<le> 0x9F) \<and> is_continuation c \<and> utf8_valid s3
           else case s3 of [] \<Rightarrow> False | d # s4 \<Rightarrow>
             0xF0 \<le> byte a \<and> byte a \<le> 0xF4 \<and> is_continuation b
             \<and> (byte a = 0xF0 \<longrightarrow> 0x90 \<le> byte b) \<and> (byte a = 0xF4 \<longrightarrow> byte b \<le> 0x8F)
             \<and> is_continuation c \<and> is_continuation d \<and> utf8_valid s4)))"

lemma utf8_valid_ascii: "\<forall>c\<in>set s. byte c < 0x80 \<Longrightarrow> utf8_valid s"
  by (induction s) auto

section \<open>Splitting\<close>

text \<open>\<open>s.split(c)\<close>: every separator ends a piece, so there is always at least one piece.\<close>

fun split_on :: "char \<Rightarrow> string \<Rightarrow> string list" where
  "split_on c [] = [[]]"
| "split_on c (x # xs) =
    (if x = c then [] # split_on c xs
     else (let ps = split_on c xs in (x # hd ps) # tl ps))"

fun join_with :: "char \<Rightarrow> string list \<Rightarrow> string" where
  "join_with c [] = []"
| "join_with c [p] = p"
| "join_with c (p # q # ps) = p @ c # join_with c (q # ps)"

lemma split_on_nonempty [simp]: "split_on c s \<noteq> []"
  by (induction s) (auto simp: Let_def)

lemma split_on_pieces: "p \<in> set (split_on c s) \<Longrightarrow> c \<notin> set p"
proof (induction s arbitrary: p)
  case (Cons x xs)
  have "hd (split_on c xs) \<in> set (split_on c xs)" by simp
  moreover have "set (tl (split_on c xs)) \<subseteq> set (split_on c xs)"
    by (meson list.set_sel(2) split_on_nonempty subsetI)
  ultimately show ?case using Cons by (auto simp: Let_def split: if_splits)
qed simp

lemma join_split: "join_with c (split_on c s) = s"
proof (induction s)
  case (Cons x xs)
  obtain p ps where "split_on c xs = p # ps" by (meson neq_Nil_conv split_on_nonempty)
  with Cons show ?case by (cases ps) auto
qed simp

lemma split_on_no_sep: "c \<notin> set p \<Longrightarrow> split_on c p = [p]"
  by (induction p) auto

lemma split_on_append: "c \<notin> set p \<Longrightarrow> split_on c (p @ c # s) = p # split_on c s"
  by (induction p) (auto simp: Let_def)

lemma split_join: "ps \<noteq> [] \<Longrightarrow> \<forall>p\<in>set ps. c \<notin> set p \<Longrightarrow> split_on c (join_with c ps) = ps"
  by (induction c ps rule: join_with.induct) (auto simp: split_on_no_sep split_on_append)

lemma split_on_append_gen:
  "split_on c (s @ c # t) = split_on c s @ split_on c t"
  by (induction s) (auto simp: Let_def)

lemma join_append: "ps \<noteq> [] \<Longrightarrow> qs \<noteq> [] \<Longrightarrow> join_with c (ps @ qs) = join_with c ps @ c # join_with c qs"
  by (induction c ps rule: join_with.induct) (auto simp: neq_Nil_conv)

text \<open>\<open>s.split_once(c)\<close>\<close>

definition split_once :: "char \<Rightarrow> string \<Rightarrow> (string \<times> string) option" where
  "split_once c s = (if c \<in> set s
     then Some (takeWhile (\<lambda>x. x \<noteq> c) s, tl (dropWhile (\<lambda>x. x \<noteq> c) s)) else None)"

text \<open>A string between single quotes, as error messages show it.\<close>

definition quoted :: "string \<Rightarrow> string" where
  "quoted s = CHR 0x27 # s @ [CHR 0x27]"

section \<open>Trimming\<close>

text \<open>The UTF-8 encodings of the characters with the property \<open>White_Space\<close>.\<close>

definition ws_encodings :: "string list" where
  "ws_encodings = [
     [CHR 0x09], [CHR 0x0A], [CHR 0x0B],
     [CHR 0x0C], [CHR 0x0D], [CHR 0x20],
     [CHR 0xC2, CHR 0x85], [CHR 0xC2, CHR 0xA0], [CHR 0xE1, CHR 0x9A, CHR 0x80],
     [CHR 0xE2, CHR 0x80, CHR 0x80], [CHR 0xE2, CHR 0x80, CHR 0x81], [CHR 0xE2, CHR 0x80, CHR 0x82],
     [CHR 0xE2, CHR 0x80, CHR 0x83], [CHR 0xE2, CHR 0x80, CHR 0x84], [CHR 0xE2, CHR 0x80, CHR 0x85],
     [CHR 0xE2, CHR 0x80, CHR 0x86], [CHR 0xE2, CHR 0x80, CHR 0x87], [CHR 0xE2, CHR 0x80, CHR 0x88],
     [CHR 0xE2, CHR 0x80, CHR 0x89], [CHR 0xE2, CHR 0x80, CHR 0x8A], [CHR 0xE2, CHR 0x80, CHR 0xA8],
     [CHR 0xE2, CHR 0x80, CHR 0xA9], [CHR 0xE2, CHR 0x80, CHR 0xAF], [CHR 0xE2, CHR 0x81, CHR 0x9F],
     [CHR 0xE3, CHR 0x80, CHR 0x80]]"

lemma ws_encodings_nonempty: "w \<in> set ws_encodings \<Longrightarrow> w \<noteq> []"
  by (auto simp: ws_encodings_def)

fun drop_ws :: "string list \<Rightarrow> string \<Rightarrow> string" where
  "drop_ws ws s = (case find (\<lambda>w. w \<noteq> [] \<and> prefix w s) ws of
     None \<Rightarrow> s
   | Some w \<Rightarrow> (if length w = 0 \<or> s = [] then s else drop_ws ws (drop (length w) s)))"

declare drop_ws.simps [simp del]

definition trim_start :: "string \<Rightarrow> string" where
  "trim_start s = drop_ws ws_encodings s"

definition trim_end :: "string \<Rightarrow> string" where
  "trim_end s = rev (drop_ws (map rev ws_encodings) (rev s))"

definition trim :: "string \<Rightarrow> string" where
  "trim s = trim_end (trim_start s)"

lemma drop_ws_suffix: "suffix (drop_ws ws s) s"
proof (induction ws s rule: drop_ws.induct)
  case (1 ws s)
  show ?case
    by (subst drop_ws.simps)
      (auto split: option.split intro: suffix_order.trans [OF "1.IH"] suffix_drop)
qed

lemma trim_sublist: "\<exists>us vs. s = us @ trim s @ vs"
proof -
  obtain us where us: "s = us @ trim_start s"
    using drop_ws_suffix [of ws_encodings s] by (auto simp: trim_start_def suffix_def)
  obtain vs where "rev (trim_start s) = vs @ drop_ws (map rev ws_encodings) (rev (trim_start s))"
    using drop_ws_suffix by (auto simp: suffix_def)
  then have "trim_start s = trim s @ rev vs"
    by (metis rev_append rev_rev_ident trim_def trim_end_def)
  with us show ?thesis by metis
qed

section \<open>Lines\<close>

text \<open>
  \<open>split_lines s\<close> gives the lines of \<open>s\<close> that end in a newline, without it, and
  what follows the last newline. A carriage return before the newline is part of the terminator.
\<close>

fun strip_cr :: "string \<Rightarrow> string" where
  "strip_cr s = (if s \<noteq> [] \<and> last s = CHR 0x0D then butlast s else s)"

definition split_lines :: "string \<Rightarrow> string list \<times> string" where
  "split_lines s = (let ps = split_on (CHR 0x0A) s in (map strip_cr (butlast ps), last ps))"

text \<open>\<open>str::lines\<close>\<close>

definition str_lines :: "string \<Rightarrow> string list" where
  "str_lines s = (case split_lines s of (ls, r) \<Rightarrow> ls @ (if r = [] then [] else [r]))"

text \<open>
  \<open>BufRead::lines\<close> on a reader that delivers \<open>content\<close> and then ends or fails with an I/O
  error: a line that is not UTF-8 is an error, and an unfinished line before a failed read
  is dropped.
\<close>

definition utf8_line :: "bytes \<Rightarrow> (string, string) result" where
  "utf8_line l = (if utf8_valid l then Ok l else Err ''stream did not contain valid UTF-8'')"

definition buf_lines :: "bytes \<times> string option \<Rightarrow> (string, string) result list" where
  "buf_lines r = (case r of (content, failure) \<Rightarrow> (case split_lines content of (ls, rest) \<Rightarrow>
     map utf8_line ls @ (case failure of
       Some e \<Rightarrow> [Err e]
     | None \<Rightarrow> if rest = [] then [] else [utf8_line rest])))"

section \<open>Decimal numbers\<close>

definition digit_char :: "nat \<Rightarrow> char" where
  "digit_char d = char_of (48 + d)"

fun show_nat :: "nat \<Rightarrow> string" where
  "show_nat n = (if n < 10 then [digit_char n]
     else show_nat (n div 10) @ [digit_char (n mod 10)])"

declare show_nat.simps [simp del]

definition show_int :: "int \<Rightarrow> string" where
  "show_int i = (if i < 0 then CHR ''-'' # show_nat (nat (- i)) else show_nat (nat i))"

definition is_digit :: "char \<Rightarrow> bool" where
  "is_digit c \<longleftrightarrow> 48 \<le> byte c \<and> byte c \<le> 57"

definition decimal_value :: "string \<Rightarrow> nat" where
  "decimal_value ds = foldl (\<lambda>n c. 10 * n + (byte c - 48)) 0 ds"

text \<open>
  \<open>str::parse::<u64>()\<close>: an optional plus sign, at least one digit, and no overflow.
\<close>

definition parse_u64 :: "string \<Rightarrow> u64 option" where
  "parse_u64 s = (let ds = (if s \<noteq> [] \<and> hd s = CHR ''+'' then tl s else s) in
     if ds = [] \<or> \<not> list_all is_digit ds \<or> 2 ^ 64 \<le> decimal_value ds then None
     else Some (word_of_nat (decimal_value ds)))"

lemma byte_digit_char: "d < 10 \<Longrightarrow> byte (digit_char d) = 48 + d"
  by (simp add: digit_char_def)

lemma show_nat_digits: "list_all is_digit (show_nat n)"
proof (induction n rule: show_nat.induct)
  case (1 n)
  have "is_digit (digit_char d)" if "d < 10" for d
    using that by (simp add: is_digit_def byte_digit_char)
  with 1 show ?case by (subst show_nat.simps) auto
qed

lemma show_nat_nonempty [simp]: "show_nat n \<noteq> []"
  by (subst show_nat.simps) simp

lemma decimal_value_snoc: "decimal_value (ds @ [c]) = 10 * decimal_value ds + (byte c - 48)"
  by (simp add: decimal_value_def)

lemma decimal_value_show: "decimal_value (show_nat n) = n"
proof (induction n rule: show_nat.induct)
  case (1 n)
  show ?case
  proof (cases "n < 10")
    case True
    then show ?thesis
      by (subst show_nat.simps) (simp add: decimal_value_def byte_digit_char)
  next
    case False
    then show ?thesis
      using 1 by (subst show_nat.simps) (simp add: decimal_value_snoc byte_digit_char)
  qed
qed

lemma parse_show_u64: "parse_u64 (show_nat (unat w)) = Some w"
proof -
  have "\<not> is_digit (CHR ''+'')" by (simp add: is_digit_def)
  moreover have "is_digit (hd (show_nat (unat w)))"
    using show_nat_digits [of "unat w"] by (cases "show_nat (unat w)") auto
  ultimately have "hd (show_nat (unat w)) \<noteq> CHR ''+''" by metis
  moreover have "unat w < 2 ^ 64" using unsigned_less [of w, where ?'a = nat] by simp
  ultimately show ?thesis
    by (simp add: parse_u64_def Let_def show_nat_digits decimal_value_show)
qed

lemma parse_u64_value: "parse_u64 s = Some w \<Longrightarrow>
  \<exists>ds. (s = ds \<or> s = CHR ''+'' # ds) \<and> ds \<noteq> [] \<and> list_all is_digit ds \<and> unat w = decimal_value ds"
  by (cases s)
    (auto simp: parse_u64_def Let_def unat_of_nat split: if_splits)

section \<open>Paths\<close>

text \<open>
  \<open>Path::components\<close> on Unix: empty pieces and, except at the start of a relative path,
  \<open>.\<close> pieces are skipped.
\<close>

datatype path_component = RootDir | CurDir | ParentDir | Normal string

definition path_component :: "string \<Rightarrow> path_component" where
  "path_component p = (if p = ''.'' then CurDir else if p = ''..'' then ParentDir else Normal p)"

definition path_is_absolute :: "string \<Rightarrow> bool" where
  "path_is_absolute p \<longleftrightarrow> prefix ''/'' p"

definition path_components :: "string \<Rightarrow> path_component list" where
  "path_components p =
     (let ps = split_on (CHR ''/'') p;
          rest = map path_component (filter (\<lambda>q. q \<noteq> [] \<and> q \<noteq> ''.'') (tl ps))
      in if path_is_absolute p then RootDir # rest
         else if hd ps = [] then rest else path_component (hd ps) # rest)"

definition path_file_name :: "string \<Rightarrow> string option" where
  "path_file_name p = (case rev (path_components p) of Normal f # _ \<Rightarrow> Some f | _ \<Rightarrow> None)"

text \<open>\<open>rsplit_file_at_dot\<close> of \<open>std::path\<close>: the parts before and after the last dot.\<close>

definition rsplit_file_at_dot :: "string \<Rightarrow> string option \<times> string option" where
  "rsplit_file_at_dot f =
     (if f = ''..'' then (Some f, None)
      else if CHR ''.'' \<notin> set f then (None, Some f)
      else let after = rev (takeWhile (\<lambda>c. c \<noteq> CHR ''.'') (rev f));
               before = rev (tl (dropWhile (\<lambda>c. c \<noteq> CHR ''.'') (rev f)))
           in if before = [] then (Some f, None) else (Some before, Some after))"

definition path_file_stem :: "string \<Rightarrow> string option" where
  "path_file_stem p = Option.bind (path_file_name p)
     (\<lambda>f. case rsplit_file_at_dot f of (before, after) \<Rightarrow>
        (case before of Some b \<Rightarrow> Some b | None \<Rightarrow> after))"

definition path_extension :: "string \<Rightarrow> string option" where
  "path_extension p = Option.bind (path_file_name p)
     (\<lambda>f. case rsplit_file_at_dot f of (before, after) \<Rightarrow>
        (case before of Some b \<Rightarrow> after | None \<Rightarrow> None))"

end
