(* ===== verification/Errors.thy ===== *)
theory Errors
  imports RustStr
begin

text \<open>
  \<open>rust/src/error.rs\<close>: the one error type of the crate, its two statuses, the conversions
  from foreign errors that \<open>?\<close> applies, and \<open>ResultExt::context\<close>. A foreign error is
  the text it displays; the source location that \<open>track_caller\<close> records is a compile-time
  constant of each call site and an argument of the rendering only.
\<close>

datatype error_status = Temporary | Permanent

fun error_status_display :: "error_status \<Rightarrow> string" where
  "error_status_display Temporary = ''temporary''"
| "error_status_display Permanent = ''permanent''"

record error =
  err_message :: string
  err_status :: error_status
  err_source :: "string option"

type_synonym 'a res = "('a, error) result"

definition error_new :: "string \<Rightarrow> error_status \<Rightarrow> error" where
  "error_new m st = \<lparr>err_message = m, err_status = st, err_source = None\<rparr>"

definition error_from_source :: "string \<Rightarrow> bool \<Rightarrow> string \<Rightarrow> error" where
  "error_from_source m temporary src =
     (let status = (if temporary then Temporary else Permanent)
      in (error_new m status)\<lparr>err_source := Some src\<rparr>)"

definition error_message :: "string \<Rightarrow> error" where
  "error_message m = error_new m Permanent"

definition with_context :: "string \<Rightarrow> error \<Rightarrow> error" where
  "with_context ctx e = e\<lparr>err_message := ctx @ '': '' @ err_message e\<rparr>"

definition context_of :: "string \<Rightarrow> ('a, 'e) result \<Rightarrow> ('e \<Rightarrow> error) \<Rightarrow> 'a res" where
  "context_of ctx r into = map_err (\<lambda>source. with_context ctx (into source)) r"

definition error_display :: "string \<Rightarrow> error \<Rightarrow> string" where
  "error_display location e =
     err_message e @ '' ('' @ error_status_display (err_status e) @ '') at '' @ location
     @ (case err_source e of Some s \<Rightarrow> '', caused by: '' @ s | None \<Rightarrow> [])"

text \<open>
  The conversions: Arrow, Lance, Parquet, task, URL and UTF-8 errors are permanent; an I/O
  error is temporary for three kinds; an OpenDAL error carries its own flag.
\<close>

definition arrow_error :: "string \<Rightarrow> error" where
  "arrow_error = error_from_source ''Arrow error'' False"

definition lance_error :: "string \<Rightarrow> error" where
  "lance_error = error_from_source ''Lance error'' False"

definition parquet_error :: "string \<Rightarrow> error" where
  "parquet_error = error_from_source ''Parquet error'' False"

definition join_error :: "string \<Rightarrow> error" where
  "join_error = error_from_source ''async task error'' False"

definition url_error :: "string \<Rightarrow> error" where
  "url_error = error_from_source ''URL parse error'' False"

definition utf8_error :: "string \<Rightarrow> error" where
  "utf8_error = error_from_source ''UTF-8 decode error'' False"

datatype io_error_kind = Interrupted | WouldBlock | TimedOut | OtherKind

definition io_error :: "io_error_kind \<Rightarrow> string \<Rightarrow> error" where
  "io_error kind = error_from_source ''I/O error''
     (case kind of Interrupted \<Rightarrow> True | WouldBlock \<Rightarrow> True | TimedOut \<Rightarrow> True | OtherKind \<Rightarrow> False)"

record opendal_error =
  od_is_temporary :: bool
  od_display :: string

definition opendal_into :: "opendal_error \<Rightarrow> error" where
  "opendal_into e = error_from_source ''OpenDAL error'' (od_is_temporary e) (od_display e)"

lemmas error_ctor_defs =
  error_new_def error_from_source_def error_message_def with_context_def

lemma status_error_message [simp]: "err_status (error_message m) = Permanent"
  by (simp add: error_ctor_defs)

lemma message_error_message [simp]: "err_message (error_message m) = m"
  by (simp add: error_ctor_defs)

lemma error_message_eq_iff [simp]: "error_message m = error_message m' \<longleftrightarrow> m = m'"
  by (auto simp: error_ctor_defs)

lemma status_with_context [simp]: "err_status (with_context c e) = err_status e"
  by (simp add: with_context_def)

lemma source_with_context [simp]: "err_source (with_context c e) = err_source e"
  by (simp add: with_context_def)

lemma context_of_Ok [result_simps]: "context_of c r f = Ok x \<longleftrightarrow> r = Ok x"
  by (simp add: context_of_def result_simps)

lemma context_of_Err [result_simps]:
  "context_of c r f = Err e \<longleftrightarrow> (\<exists>e'. r = Err e' \<and> e = with_context c (f e'))"
  by (simp add: context_of_def result_simps)

end
