(* ===== verification/StrMap.thy ===== *)
theory StrMap
  imports Prelude
begin

text \<open>
  Rust's \<open>HashMap\<close> and \<open>BTreeMap\<close> keyed by strings, as association lists kept in strict
  key order. The order is the one in which the sources iterate a \<open>BTreeMap\<close>; for a
  \<open>HashMap\<close> it makes equality of contents equality of values. The locale \<open>finite_dict\<close>
  is the interface the components use, with the laws of lookup after insertion; it is
  interpreted on the ordered lists below.
\<close>

locale finite_dict =
  fixes empty :: "'m"
    and get :: "'m \<Rightarrow> 'k \<Rightarrow> 'v option"
    and insert :: "'k \<Rightarrow> 'v \<Rightarrow> 'm \<Rightarrow> 'm"
    and keys :: "'m \<Rightarrow> 'k list"
    and invar :: "'m \<Rightarrow> bool"
  assumes get_empty: "get empty = (\<lambda>_. None)"
    and get_insert: "invar m \<Longrightarrow> get (insert k v m) = (get m)(k := Some v)"
    and keys_get: "invar m \<Longrightarrow> set (keys m) = dom (get m)"
    and keys_distinct: "invar m \<Longrightarrow> distinct (keys m)"
    and get_ext: "invar m \<Longrightarrow> invar m' \<Longrightarrow> get m = get m' \<Longrightarrow> m = m'"
    and invar_empty: "invar empty"
    and invar_insert: "invar m \<Longrightarrow> invar (insert k v m)"
begin

definition extend :: "'m \<Rightarrow> ('k \<times> 'v) list \<Rightarrow> 'm" where
  "extend m kvs = foldl (\<lambda>m kv. insert (fst kv) (snd kv) m) m kvs"

lemma invar_extend: "invar m \<Longrightarrow> invar (extend m kvs)"
  by (induction kvs arbitrary: m) (auto simp: extend_def invar_insert)

lemma get_extend: "invar m \<Longrightarrow> get (extend m kvs) = get m ++ map_of (rev kvs)"
proof (induction kvs arbitrary: m)
  case (Cons kv kvs)
  have "get (extend m (kv # kvs)) = get (extend (insert (fst kv) (snd kv) m) kvs)"
    by (simp add: extend_def)
  also have "\<dots> = (get m)(fst kv := Some (snd kv)) ++ map_of (rev kvs)"
    by (simp add: Cons.IH Cons.prems invar_insert get_insert fun_upd_def)
  also have "\<dots> = get m ++ map_of (rev (kv # kvs))"
    by simp
  finally show ?case .
qed (simp add: extend_def)

lemma insert_same: "invar m \<Longrightarrow> get m k = Some v \<Longrightarrow> insert k v m = m"
  by (rule get_ext) (auto simp: invar_insert get_insert)

lemma extend_same:
  assumes "invar m" "\<forall>(k, v)\<in>set kvs. get m k = Some v"
  shows "extend m kvs = m"
  using assms by (induction kvs) (auto simp: extend_def insert_same)

lemma extend_twice:
  assumes "invar m" "distinct (map fst kvs)"
  shows "extend (extend m kvs) kvs = extend m kvs"
proof (rule extend_same)
  have "map_of (rev kvs) k = Some v" if "(k, v) \<in> set kvs" for k v
    using that assms(2) by (intro map_of_is_SomeI) (simp_all add: rev_map [symmetric])
  then show "\<forall>(k, v)\<in>set kvs. get (extend m kvs) k = Some v"
    using assms(1) by (auto simp: get_extend)
qed (simp add: assms invar_extend)

end

section \<open>Ordered association lists\<close>

type_synonym ('k, 'v) smap = "('k \<times> 'v) list"

fun sm_insert :: "'k::linorder \<Rightarrow> 'v \<Rightarrow> ('k, 'v) smap \<Rightarrow> ('k, 'v) smap" where
  "sm_insert k v [] = [(k, v)]"
| "sm_insert k v ((k', v') # m) =
    (if k < k' then (k, v) # (k', v') # m
     else if k = k' then (k, v) # m
     else (k', v') # sm_insert k v m)"

definition sm_wf :: "('k::linorder, 'v) smap \<Rightarrow> bool" where
  "sm_wf m \<longleftrightarrow> sorted_wrt (<) (map fst m)"

definition sm_keys :: "('k, 'v) smap \<Rightarrow> 'k list" where
  "sm_keys m = map fst m"

text \<open>\<open>HashMap::extend\<close>, and \<open>entry(k).or_insert(v)\<close>.\<close>

fun sm_extend :: "('k::linorder, 'v) smap \<Rightarrow> ('k \<times> 'v) list \<Rightarrow> ('k, 'v) smap" where
  "sm_extend m [] = m"
| "sm_extend m (kv # kvs) = sm_extend (sm_insert (fst kv) (snd kv) m) kvs"

definition sm_or_insert :: "'k::linorder \<Rightarrow> 'v \<Rightarrow> ('k, 'v) smap \<Rightarrow> ('k, 'v) smap" where
  "sm_or_insert k v m = (case map_of m k of Some _ \<Rightarrow> m | None \<Rightarrow> sm_insert k v m)"

lemma sm_wf_Nil [simp]: "sm_wf []"
  by (simp add: sm_wf_def)

lemma sm_insert_keys: "set (map fst (sm_insert k v m)) = insert k (set (map fst m))"
  by (induction k v m rule: sm_insert.induct) auto

lemma sm_wf_insert: "sm_wf m \<Longrightarrow> sm_wf (sm_insert k v m)"
  unfolding sm_wf_def
proof (induction k v m rule: sm_insert.induct)
  case (2 k v k' v' m)
  have "set (map fst (sm_insert k v m)) = insert k (set (map fst m))" by (rule sm_insert_keys)
  with 2 show ?case by (auto simp: not_less dest!: order.not_eq_order_implies_strict)
qed simp

lemma sm_get_insert: "sm_wf m \<Longrightarrow> map_of (sm_insert k v m) = (map_of m)(k := Some v)"
  by (induction k v m rule: sm_insert.induct) (auto simp: sm_wf_def fun_eq_iff)

lemma sm_wf_distinct: "sm_wf m \<Longrightarrow> distinct (map fst m)"
  by (simp add: sm_wf_def strict_sorted_iff)

lemma sm_get_ext:
  assumes "sm_wf m" "sm_wf m'" "map_of m = map_of m'"
  shows "m = m'"
proof -
  have eq: "set m = set m'"
    using assms by (metis map_of_inject_set sm_wf_distinct)
  have "inj_on fst (set m)"
    using assms(1) by (simp add: sm_wf_distinct distinct_map [THEN iffD1, THEN conjunct2])
  then show ?thesis
    using assms(1,2) eq
    by (intro map_sorted_distinct_set_unique [of fst m m'])
      (simp_all add: sm_wf_def strict_sorted_iff)
qed

interpretation sm: finite_dict "[]" map_of sm_insert sm_keys sm_wf
proof unfold_locales
  fix m m' :: "('k::linorder, 'v) smap"
  show "sm_wf m \<Longrightarrow> set (sm_keys m) = dom (map_of m)"
    by (simp add: sm_keys_def dom_map_of_conv_image_fst)
qed (auto simp: sm_get_insert sm_wf_insert sm_get_ext sm_wf_distinct sm_keys_def)

lemma sm_extend_eq: "sm_extend m kvs = sm.extend m kvs"
  by (induction kvs arbitrary: m) (simp_all add: sm.extend_def)

lemmas sm_get_extend = sm.get_extend [folded sm_extend_eq]
lemmas sm_wf_extend = sm.invar_extend [folded sm_extend_eq]
lemmas sm_extend_twice = sm.extend_twice [folded sm_extend_eq]

lemma sm_get_or_insert:
  "sm_wf m \<Longrightarrow> map_of (sm_or_insert k v m) j =
     (case map_of m j of Some w \<Rightarrow> Some w | None \<Rightarrow> if j = k then Some v else None)"
  by (auto simp: sm_or_insert_def sm_get_insert split: option.split)

lemma sm_wf_or_insert: "sm_wf m \<Longrightarrow> sm_wf (sm_or_insert k v m)"
  by (auto simp: sm_or_insert_def sm_wf_insert split: option.split)

end
