(* ===== verification/Arrow.thy ===== *)
theory Arrow
  imports Errors StrMap
begin

text \<open>
  The vocabulary of the \<open>arrow_schema\<close> crate that the sources match on: data types, fields
  with their metadata, schemas. The crate itself is not in the repository: the constructors
  are the ones the sources name (\<open>OtherType\<close> stands for every type they only reach through a
  wildcard), a field is its documented four attributes, and each crate function whose result
  matters is a member of the record \<open>arrow_api\<close>, an argument of the definitions that call it.
  \<open>arrow_ok\<close> collects the documented behaviour the sources rely on; \<open>arrow_ref\<close> is a concrete
  instance of it, used for evaluation on examples.
\<close>

datatype time_unit = Second | Millisecond | Microsecond | Nanosecond

type_synonym metadata = "(string, string) smap"

datatype data_type =
    Boolean | Int8 | Int16 | Int32 | Int64 | UInt8 | UInt16 | UInt32 | UInt64
  | Float16 | Float32 | Float64
  | Utf8 | LargeUtf8 | Utf8View | Binary | LargeBinary | BinaryView
  | FixedSizeBinary i32 | Decimal128 nat int | Date32 | Date64
  | Time32 time_unit | Time64 time_unit | Timestamp time_unit "string option"
  | List field | LargeList field | FixedSizeList field i32 | Map field bool
  | Dictionary data_type data_type | Struct "field list" | OtherType string
and field = Field (field_name: string) (field_type: data_type)
    (field_nullable: bool) (field_metadata: metadata)

record schema =
  schema_fields :: "field list"
  schema_metadata :: metadata

lemma size_field_type [termination_simp]: "size (field_type f) < size f"
  by (cases f) simp

lemma size_field_type_list [termination_simp]:
  "f \<in> set fs \<Longrightarrow> size (field_type f) < Suc (size_list size fs)"
  by (rule less_trans [OF size_field_type]) (simp add: less_Suc_eq_le size_list_estimation')

definition with_data_type :: "field \<Rightarrow> data_type \<Rightarrow> field" where
  "with_data_type f t = Field (field_name f) t (field_nullable f) (field_metadata f)"

definition with_metadata :: "field \<Rightarrow> metadata \<Rightarrow> field" where
  "with_metadata f m = Field (field_name f) (field_type f) (field_nullable f) m"

lemma with_data_type_sel [simp]:
  "field_name (with_data_type f t) = field_name f"
  "field_type (with_data_type f t) = t"
  "field_nullable (with_data_type f t) = field_nullable f"
  "field_metadata (with_data_type f t) = field_metadata f"
  by (simp_all add: with_data_type_def)

lemma with_metadata_sel [simp]:
  "field_name (with_metadata f m) = field_name f"
  "field_type (with_metadata f m) = field_type f"
  "field_nullable (with_metadata f m) = field_nullable f"
  "field_metadata (with_metadata f m) = m"
  by (simp_all add: with_metadata_def)

lemma with_data_type_same [simp]: "with_data_type f (field_type f) = f"
  by (cases f) (simp add: with_data_type_def)

lemma with_metadata_same [simp]: "with_metadata f (field_metadata f) = f"
  by (cases f) (simp add: with_metadata_def)

text \<open>A schema whose fields are replaced, keeping its own metadata.\<close>

definition new_with_metadata :: "field list \<Rightarrow> metadata \<Rightarrow> schema" where
  "new_with_metadata fs m = \<lparr>schema_fields = fs, schema_metadata = m\<rparr>"

section \<open>The crate functions the sources call\<close>

record arrow_api =
  aa_show_type :: "data_type \<Rightarrow> string"
  aa_is_dictionary_key_type :: "data_type \<Rightarrow> bool"
  aa_index_of :: "schema \<Rightarrow> string \<Rightarrow> (nat, string) result"
  aa_field_with_name :: "schema \<Rightarrow> string \<Rightarrow> (field, string) result"
  aa_project :: "schema \<Rightarrow> nat list \<Rightarrow> (schema, string) result"

definition index_of_ok :: "(schema \<Rightarrow> string \<Rightarrow> (nat, string) result) \<Rightarrow> bool" where
  "index_of_ok f \<longleftrightarrow> (\<forall>s n. (case f s n of
     Ok i \<Rightarrow> i < length (schema_fields s) \<and> field_name (schema_fields s ! i) = n
   | Err _ \<Rightarrow> n \<notin> set (map field_name (schema_fields s))))"

definition field_with_name_ok :: "(schema \<Rightarrow> string \<Rightarrow> (field, string) result) \<Rightarrow> bool" where
  "field_with_name_ok f \<longleftrightarrow> (\<forall>s n. (case f s n of
     Ok fld \<Rightarrow> fld \<in> set (schema_fields s) \<and> field_name fld = n
   | Err _ \<Rightarrow> n \<notin> set (map field_name (schema_fields s))))"

definition project_ok :: "(schema \<Rightarrow> nat list \<Rightarrow> (schema, string) result) \<Rightarrow> bool" where
  "project_ok f \<longleftrightarrow> (\<forall>s is. (case f s is of
     Ok s' \<Rightarrow> list_all (\<lambda>i. i < length (schema_fields s)) is
       \<and> schema_fields s' = map (nth (schema_fields s)) is
       \<and> schema_metadata s' = schema_metadata s
   | Err _ \<Rightarrow> \<not> list_all (\<lambda>i. i < length (schema_fields s)) is))"

definition arrow_ok :: "arrow_api \<Rightarrow> bool" where
  "arrow_ok A \<longleftrightarrow> index_of_ok (aa_index_of A) \<and> field_with_name_ok (aa_field_with_name A)
     \<and> project_ok (aa_project A)"

lemma index_of_Ok: "arrow_ok A \<Longrightarrow> aa_index_of A s n = Ok i \<Longrightarrow>
    i < length (schema_fields s) \<and> field_name (schema_fields s ! i) = n"
  by (auto simp: arrow_ok_def index_of_ok_def split: result.splits)

lemma index_of_Err: "arrow_ok A \<Longrightarrow> aa_index_of A s n = Err e \<Longrightarrow>
    n \<notin> set (map field_name (schema_fields s))"
  by (auto simp: arrow_ok_def index_of_ok_def split: result.splits)

lemma index_of_total: "arrow_ok A \<Longrightarrow> n \<in> set (map field_name (schema_fields s)) \<Longrightarrow>
    \<exists>i. aa_index_of A s n = Ok i"
  by (cases "aa_index_of A s n") (auto dest: index_of_Err)

lemma field_with_name_Ok: "arrow_ok A \<Longrightarrow> aa_field_with_name A s n = Ok f \<Longrightarrow>
    f \<in> set (schema_fields s) \<and> field_name f = n"
  by (auto simp: arrow_ok_def field_with_name_ok_def split: result.splits)

lemma field_with_name_Err: "arrow_ok A \<Longrightarrow> aa_field_with_name A s n = Err e \<Longrightarrow>
    n \<notin> set (map field_name (schema_fields s))"
  by (auto simp: arrow_ok_def field_with_name_ok_def split: result.splits)

lemma project_Ok: "arrow_ok A \<Longrightarrow> aa_project A s is = Ok s' \<Longrightarrow>
    list_all (\<lambda>i. i < length (schema_fields s)) is
    \<and> schema_fields s' = map (nth (schema_fields s)) is \<and> schema_metadata s' = schema_metadata s"
  by (auto simp: arrow_ok_def project_ok_def split: result.splits)

lemma project_Err: "arrow_ok A \<Longrightarrow> aa_project A s is = Err e \<Longrightarrow>
    \<not> list_all (\<lambda>i. i < length (schema_fields s)) is"
  by (auto simp: arrow_ok_def project_ok_def split: result.splits)

section \<open>A concrete instance\<close>

fun find_index :: "('a \<Rightarrow> bool) \<Rightarrow> 'a list \<Rightarrow> nat option" where
  "find_index p [] = None"
| "find_index p (x # xs) = (if p x then Some 0 else map_option Suc (find_index p xs))"

lemma find_index_Some: "find_index p xs = Some i \<Longrightarrow>
    i < length xs \<and> p (xs ! i) \<and> (\<forall>j<i. \<not> p (xs ! j))"
  by (induction xs arbitrary: i) (auto simp: nth_Cons split: if_splits nat.splits)

lemma find_index_None: "find_index p xs = None \<longleftrightarrow> (\<forall>x\<in>set xs. \<not> p x)"
  by (induction xs) auto

definition arrow_ref :: arrow_api where
  "arrow_ref = \<lparr>aa_show_type = (\<lambda>t. case t of OtherType s \<Rightarrow> s | _ \<Rightarrow> ''type''),
     aa_is_dictionary_key_type = (\<lambda>t. t \<in> {Int8, Int16, Int32, Int64, UInt8, UInt16, UInt32, UInt64}),
     aa_index_of = (\<lambda>s n. ok_or (find_index (\<lambda>f. field_name f = n) (schema_fields s)) n),
     aa_field_with_name = (\<lambda>s n. ok_or (find (\<lambda>f. field_name f = n) (schema_fields s)) n),
     aa_project = (\<lambda>s is. if list_all (\<lambda>i. i < length (schema_fields s)) is
       then Ok (s\<lparr>schema_fields := map (nth (schema_fields s)) is\<rparr>)
       else Err ''project index out of bounds'')\<rparr>"

lemma arrow_ref_ok [simp]: "arrow_ok arrow_ref"
  by (auto simp: arrow_ok_def arrow_ref_def index_of_ok_def field_with_name_ok_def project_ok_def
      result_simps find_index_None find_None_iff find_Some_iff image_iff split: result.splits
      dest!: find_index_Some)

end
