(* ===== verification/SchemaCheck.thy ===== *)
theory SchemaCheck
  imports Arrow
begin

text \<open>
  \<open>rust/src/schema.rs\<close>: the validation of the schema a dataset is created with. A type is
  accepted when every type below it is one Lance stores; the first offending type, in
  reading order, is the one reported.
\<close>

definition unsupported_type :: "arrow_api \<Rightarrow> data_type \<Rightarrow> error" where
  "unsupported_type A t =
     error_message (''unsupported Arrow type '' @ aa_show_type A t @ ''; cast it explicitly'')"

fun validate_type :: "arrow_api \<Rightarrow> data_type \<Rightarrow> unit res" where
  "validate_type A t = (case t of
     Boolean \<Rightarrow> Ok () | Int8 \<Rightarrow> Ok () | Int16 \<Rightarrow> Ok () | Int32 \<Rightarrow> Ok () | Int64 \<Rightarrow> Ok ()
   | UInt8 \<Rightarrow> Ok () | UInt16 \<Rightarrow> Ok () | UInt32 \<Rightarrow> Ok () | UInt64 \<Rightarrow> Ok ()
   | Float16 \<Rightarrow> Ok () | Float32 \<Rightarrow> Ok () | Float64 \<Rightarrow> Ok ()
   | Utf8 \<Rightarrow> Ok () | LargeUtf8 \<Rightarrow> Ok () | Binary \<Rightarrow> Ok () | LargeBinary \<Rightarrow> Ok ()
   | FixedSizeBinary _ \<Rightarrow> Ok () | Decimal128 _ _ \<Rightarrow> Ok () | Date32 \<Rightarrow> Ok () | Date64 \<Rightarrow> Ok ()
   | Time32 _ \<Rightarrow> Ok () | Time64 _ \<Rightarrow> Ok () | Timestamp _ _ \<Rightarrow> Ok ()
   | List f \<Rightarrow> validate_type A (field_type f)
   | LargeList f \<Rightarrow> validate_type A (field_type f)
   | FixedSizeList f _ \<Rightarrow> validate_type A (field_type f)
   | Map f _ \<Rightarrow> validate_type A (field_type f)
   | Dictionary key value \<Rightarrow>
       (if aa_is_dictionary_key_type A key then validate_type A value
        else Err (unsupported_type A t))
   | Struct fs \<Rightarrow> try_each (\<lambda>f. validate_type A (field_type f)) fs
   | _ \<Rightarrow> Err (unsupported_type A t))"

declare validate_type.simps [simp del]

definition validate_schema :: "arrow_api \<Rightarrow> schema \<Rightarrow> unit res" where
  "validate_schema A s =
     (if schema_fields s = [] then Err (error_message ''Lance requires at least one column'')
      else try_each (\<lambda>f. validate_type A (field_type f)) (schema_fields s))"

section \<open>Specification: a scan of the types in reading order\<close>

fun subtypes :: "data_type \<Rightarrow> data_type list" where
  "subtypes t = t # (case t of
     List f \<Rightarrow> subtypes (field_type f)
   | LargeList f \<Rightarrow> subtypes (field_type f)
   | FixedSizeList f _ \<Rightarrow> subtypes (field_type f)
   | Map f _ \<Rightarrow> subtypes (field_type f)
   | Dictionary key value \<Rightarrow> subtypes value
   | Struct fs \<Rightarrow> concat (map (\<lambda>f. subtypes (field_type f)) fs)
   | _ \<Rightarrow> [])"

declare subtypes.simps [simp del]

text \<open>Whether a type is storable, leaving aside the types below it.\<close>

fun storable_kind :: "arrow_api \<Rightarrow> data_type \<Rightarrow> bool" where
  "storable_kind A Utf8View = False"
| "storable_kind A BinaryView = False"
| "storable_kind A (OtherType _) = False"
| "storable_kind A (Dictionary key _) = aa_is_dictionary_key_type A key"
| "storable_kind A _ = True"

definition first_unsupported :: "arrow_api \<Rightarrow> data_type list \<Rightarrow> unit res" where
  "first_unsupported A ts = (case find (\<lambda>t. \<not> storable_kind A t) ts of
     None \<Rightarrow> Ok () | Some t \<Rightarrow> Err (unsupported_type A t))"

lemma first_unsupported_try_each:
  "first_unsupported A ts =
     try_each (\<lambda>t. if storable_kind A t then Ok () else Err (unsupported_type A t)) ts"
  by (simp add: first_unsupported_def try_each_find)

lemma first_unsupported_Cons:
  "first_unsupported A (t # ts) =
     (if storable_kind A t then first_unsupported A ts else Err (unsupported_type A t))"
  by (simp add: first_unsupported_def)

lemma first_unsupported_Nil [simp]: "first_unsupported A [] = Ok ()"
  by (simp add: first_unsupported_def)

lemma validate_type_scan: "validate_type A t = first_unsupported A (subtypes t)"
proof (induction A t rule: validate_type.induct)
  case (1 A t)
  have fields: "try_each (\<lambda>f. validate_type A (field_type f)) fs
      = first_unsupported A (concat (map (\<lambda>f. subtypes (field_type f)) fs))" if "t = Struct fs" for fs
  proof -
    have "try_each (\<lambda>f. validate_type A (field_type f)) fs
        = try_each (\<lambda>f. first_unsupported A (subtypes (field_type f))) fs"
      using that 1 by (intro try_each_cong) auto
    then show ?thesis by (simp add: first_unsupported_try_each try_each_concat)
  qed
  show ?case
    by (subst validate_type.simps, subst subtypes.simps)
      (cases t; simp add: 1 fields first_unsupported_Cons)
qed

lemma validate_schema_scan: "schema_fields s \<noteq> [] \<Longrightarrow>
  validate_schema A s
    = first_unsupported A (concat (map (\<lambda>f. subtypes (field_type f)) (schema_fields s)))"
  by (simp add: validate_schema_def validate_type_scan first_unsupported_try_each try_each_concat)

text \<open>
  C26: A schema is accepted exactly when it has a column and no type in it, at any depth, is of
  a kind Lance cannot store; a rejection names the first such type in reading order, the
  columns from left to right and each type before the types below it.
\<close>

theorem validate_schema_outcome:
  "validate_schema A s =
     (if schema_fields s = [] then Err (error_message ''Lance requires at least one column'')
      else case filter (\<lambda>t. \<not> storable_kind A t) (concat (map (\<lambda>f. subtypes (field_type f)) (schema_fields s))) of
        [] \<Rightarrow> Ok () | t # _ \<Rightarrow> Err (unsupported_type A t))"
proof -
  have find: "find P xs = (case filter P xs of [] \<Rightarrow> None | x # _ \<Rightarrow> Some x)" for P and xs :: "data_type list"
    by (induction xs) auto
  show ?thesis
  proof (cases "schema_fields s = []")
    case True
    then show ?thesis by (simp add: validate_schema_def)
  next
    case False
    then show ?thesis
      by (simp add: validate_schema_scan first_unsupported_def find split: list.splits)
  qed
qed

end
