(* ===== verification/Metrics.thy ===== *)
theory Metrics
  imports Errors
begin

text \<open>
  \<open>rust/src/source/metrics.rs\<close>: the counters a scan reports its progress with. Each atomic is a
  word of its width and each atomic operation one step on the record; the mutex around
  \<open>opened\<close> makes \<open>add_object\<close> one step too. \<open>None\<close> is the panic of the counter's increment
  (overflow, or the division by the wrapped zero).
\<close>

record read_metrics =
  rm_bytes_read :: u64
  rm_total_bytes :: u64
  rm_opened :: "u64 \<times> u64"

record read_metrics_snapshot =
  snap_bytes_read :: u64
  snap_total_bytes :: u64

definition read_metrics_default :: read_metrics where
  "read_metrics_default = \<lparr>rm_bytes_read = 0, rm_total_bytes = 0, rm_opened = (0, 0)\<rparr>"

definition set_total_bytes :: "u64 \<Rightarrow> read_metrics \<Rightarrow> read_metrics" where
  "set_total_bytes b m = m\<lparr>rm_total_bytes := b\<rparr>"

definition u64_of_u128_or_max :: "u128 \<Rightarrow> u64" where
  "u64_of_u128_or_max t = (if unat t < 2 ^ 64 then ucast t else u_max)"

definition add_object :: "u64 \<Rightarrow> u64 \<Rightarrow> read_metrics \<Rightarrow> read_metrics option" where
  "add_object sz objects m =
     (if fst (rm_opened m) = u_max then None
      else let count = fst (rm_opened m) + 1;
               bytes = saturating_add (snd (rm_opened m)) sz;
               total = (ucast bytes :: u128) * ucast objects div ucast count
           in Some (set_total_bytes (u64_of_u128_or_max total) (m\<lparr>rm_opened := (count, bytes)\<rparr>)))"

definition add_bytes_read :: "usize \<Rightarrow> read_metrics \<Rightarrow> read_metrics" where
  "add_bytes_read b m = m\<lparr>rm_bytes_read := rm_bytes_read m + b\<rparr>"

definition add_total_bytes :: "u64 \<Rightarrow> read_metrics \<Rightarrow> read_metrics" where
  "add_total_bytes b m = m\<lparr>rm_total_bytes := saturating_add (rm_total_bytes m) b\<rparr>"

definition snapshot :: "read_metrics \<Rightarrow> read_metrics_snapshot" where
  "snapshot m = \<lparr>snap_bytes_read = rm_bytes_read m, snap_total_bytes = rm_total_bytes m\<rparr>"

text \<open>
  \<open>read_object\<close>: opening the reader and its byte stream are arguments, a stream is the list of its
  chunks, and what its consumer reads of them are the bytes before the first failure. Reading
  counts each chunk as it is received.
\<close>

fun drain :: "(bytes, 'e) result list \<Rightarrow> read_metrics \<Rightarrow> (bytes \<times> 'e option) \<times> read_metrics" where
  "drain [] m = (([], None), m)"
| "drain (Err e # rest) m = (([], Some e), m)"
| "drain (Ok chunk # rest) m =
     (case drain rest (add_bytes_read (of_nat (length chunk)) m) of ((content, failure), m') \<Rightarrow>
        ((chunk @ content, failure), m'))"

definition read_object ::
  "('r, opendal_error) result \<Rightarrow> ('r \<Rightarrow> ((bytes, 'e) result list, opendal_error) result) \<Rightarrow>
   (read_metrics \<Rightarrow> (bytes \<times> 'e option) \<times> read_metrics) res" where
  "read_object reader bytes_stream =
     and_then (map_err opendal_into reader) (\<lambda>r.
     and_then (map_err opendal_into (bytes_stream r)) (\<lambda>chunks. Ok (drain chunks)))"

text \<open>The sources count the length of what they have read of an object: it is what its chunks added.\<close>

lemma add_bytes_read_add: "add_bytes_read a (add_bytes_read b m) = add_bytes_read (b + a) m"
  by (simp add: add_bytes_read_def add.assoc)

lemma drain_counts:
  "drain chunks m = ((content, failure), m') \<Longrightarrow> m' = add_bytes_read (of_nat (length content)) m"
proof (induction chunks arbitrary: m content m')
  case Nil
  then show ?case by (simp add: add_bytes_read_def)
next
  case (Cons chunk rest)
  show ?case
  proof (cases chunk)
    case (Ok b)
    obtain tail where tail: "drain rest (add_bytes_read (of_nat (length b)) m) = ((tail, failure), m')" "content = b @ tail"
      using Cons.prems Ok by (auto split: prod.splits)
    from Cons.IH [OF tail(1)] show ?thesis by (simp add: tail(2) add_bytes_read_add)
  next
    case (Err e)
    with Cons.prems show ?thesis by (simp add: add_bytes_read_def)
  qed
qed

lemma read_object_counts:
  assumes "read_object reader bytes_stream = Ok read" "read m = ((content, failure), m')"
  shows "m' = add_bytes_read (of_nat (length content)) m"
proof -
  obtain chunks where "read = drain chunks" using assms(1) by (auto simp: read_object_def and_then_Ok)
  with assms(2) drain_counts show ?thesis by simp
qed

section \<open>Arithmetic of the estimate\<close>

lemma unat_ucast_u128: "unat (ucast (w :: u64) :: u128) = unat w"
proof -
  have "unat w < 2 ^ 64" using unsigned_less [of w, where ?'a = nat] by simp
  then have "unat w < 2 ^ 128" by simp
  then show ?thesis by (simp add: unsigned_ucast_eq take_bit_nat_eq_self)
qed

lemma unat_mult_u128: "unat (ucast (a :: u64) * ucast (b :: u64) :: u128) = unat a * unat b"
proof -
  have "unat a < 2 ^ 64" "unat b < 2 ^ 64"
    using unsigned_less [of a, where ?'a = nat] unsigned_less [of b, where ?'a = nat] by simp_all
  then have "unat a * unat b < 2 ^ 64 * 2 ^ 64" by (intro mult_strict_mono) simp_all
  then show ?thesis by (simp add: unat_word_ariths unat_ucast_u128)
qed

lemma unat_u64_of_u128_or_max: "unat (u64_of_u128_or_max t) = min (unat t) (2 ^ 64 - 1)"
  by (auto simp: u64_of_u128_or_max_def unsigned_ucast_eq take_bit_nat_eq_self unat_max)

lemma unat_Suc_count: "c \<noteq> u_max \<Longrightarrow> unat (c + 1 :: u64) = Suc (unat c)"
  by (metis add.inverse_inverse add_eq_0_iff unatSuc add.commute)

lemma add_object_Some:
  assumes "fst (rm_opened m) \<noteq> u_max"
  obtains m' where "add_object sz objects m = Some m'"
    "unat (fst (rm_opened m')) = Suc (unat (fst (rm_opened m)))"
    "unat (snd (rm_opened m')) = min (unat (snd (rm_opened m)) + unat sz) (2 ^ 64 - 1)"
    "unat (rm_total_bytes m')
       = min (unat (snd (rm_opened m')) * unat objects div unat (fst (rm_opened m'))) (2 ^ 64 - 1)"
    "rm_bytes_read m' = rm_bytes_read m"
proof -
  obtain m' where m': "add_object sz objects m = Some m'"
    using assms by (simp add: add_object_def Let_def)
  then have eq: "m' = (let count = fst (rm_opened m) + 1;
        bytes = saturating_add (snd (rm_opened m)) sz
      in set_total_bytes (u64_of_u128_or_max ((ucast bytes :: u128) * ucast objects div ucast count))
           (m\<lparr>rm_opened := (count, bytes)\<rparr>))"
    using assms by (simp add: add_object_def Let_def)
  show thesis
    by (rule that [OF m'])
      (use assms in \<open>simp_all add: eq Let_def set_total_bytes_def unat_u64_of_u128_or_max unat_div
        unat_mult_u128 unat_ucast_u128 unat_Suc_count unat_saturating_add\<close>)
qed

section \<open>Opening the objects of a scan\<close>

fun add_objects :: "u64 \<Rightarrow> u64 list \<Rightarrow> read_metrics \<Rightarrow> read_metrics option" where
  "add_objects objects [] m = Some m"
| "add_objects objects (s # ss) m = Option.bind (add_object s objects m) (add_objects objects ss)"

lemma add_objects_state:
  assumes "unat (fst (rm_opened m)) + length sizes < 2 ^ 64"
  shows "\<exists>m'. add_objects objects sizes m = Some m'
    \<and> unat (fst (rm_opened m')) = unat (fst (rm_opened m)) + length sizes
    \<and> unat (snd (rm_opened m'))
        = min (unat (snd (rm_opened m)) + sum_list (map unat sizes)) (2 ^ 64 - 1)
    \<and> (sizes \<noteq> [] \<longrightarrow> unat (rm_total_bytes m')
        = min (unat (snd (rm_opened m')) * unat objects div unat (fst (rm_opened m'))) (2 ^ 64 - 1))
    \<and> rm_bytes_read m' = rm_bytes_read m"
  using assms
proof (induction sizes arbitrary: m)
  case Nil
  have "unat (snd (rm_opened m)) < 2 ^ 64"
    using unsigned_less [of "snd (rm_opened m)", where ?'a = nat] by simp
  then show ?case by simp
next
  case (Cons s ss)
  have "fst (rm_opened m) \<noteq> u_max"
    using Cons.prems by (auto simp: unat_max)
  then obtain n where n: "add_object s objects m = Some n"
    "unat (fst (rm_opened n)) = Suc (unat (fst (rm_opened m)))"
    "unat (snd (rm_opened n)) = min (unat (snd (rm_opened m)) + unat s) (2 ^ 64 - 1)"
    "unat (rm_total_bytes n)
       = min (unat (snd (rm_opened n)) * unat objects div unat (fst (rm_opened n))) (2 ^ 64 - 1)"
    "rm_bytes_read n = rm_bytes_read m"
    by (rule add_object_Some)
  with Cons.prems obtain m' where "add_objects objects ss n = Some m'
    \<and> unat (fst (rm_opened m')) = unat (fst (rm_opened n)) + length ss
    \<and> unat (snd (rm_opened m')) = min (unat (snd (rm_opened n)) + sum_list (map unat ss)) (2 ^ 64 - 1)
    \<and> (ss \<noteq> [] \<longrightarrow> unat (rm_total_bytes m')
        = min (unat (snd (rm_opened m')) * unat objects div unat (fst (rm_opened m'))) (2 ^ 64 - 1))
    \<and> rm_bytes_read m' = rm_bytes_read n"
    using Cons.IH [of n] by auto
  with n show ?case by (cases ss) (auto simp: min_def)
qed

text \<open>
  What the threads of a scan do to the counters: open an object, receive a chunk of one. A
  schedule is any interleaving of these steps.
\<close>

datatype metric_event = Opened u64 | Received usize

fun metric_step :: "u64 \<Rightarrow> metric_event \<Rightarrow> read_metrics \<Rightarrow> read_metrics option" where
  "metric_step objects (Opened sz) m = add_object sz objects m"
| "metric_step objects (Received n) m = Some (add_bytes_read n m)"

fun metric_run :: "u64 \<Rightarrow> metric_event list \<Rightarrow> read_metrics \<Rightarrow> read_metrics option" where
  "metric_run objects [] m = Some m"
| "metric_run objects (e # es) m = Option.bind (metric_step objects e m) (metric_run objects es)"

definition opened_sizes :: "metric_event list \<Rightarrow> u64 list" where
  "opened_sizes es = [s. Opened s \<leftarrow> es]"

definition received_chunks :: "metric_event list \<Rightarrow> usize list" where
  "received_chunks es = [n. Received n \<leftarrow> es]"

lemma add_object_bytes_read:
  "add_object s objects (m\<lparr>rm_bytes_read := b\<rparr>)
     = map_option (\<lambda>m'. m'\<lparr>rm_bytes_read := b\<rparr>) (add_object s objects m)"
  by (simp add: add_object_def Let_def set_total_bytes_def)

lemma add_objects_bytes_read:
  "add_objects objects ss (m\<lparr>rm_bytes_read := b\<rparr>)
     = map_option (\<lambda>m'. m'\<lparr>rm_bytes_read := b\<rparr>) (add_objects objects ss m)"
proof (induction ss arbitrary: m)
  case (Cons s ss)
  then show ?case
    by (cases "add_object s objects m") (simp_all add: add_object_bytes_read)
qed simp

lemma metric_run_split:
  "metric_run objects es m =
     map_option (\<lambda>m'. m'\<lparr>rm_bytes_read := rm_bytes_read m + sum_list (received_chunks es)\<rparr>)
       (add_objects objects (opened_sizes es) m)"
proof (induction es arbitrary: m)
  case Nil
  show ?case by (simp add: opened_sizes_def received_chunks_def)
next
  case (Cons e es)
  show ?case
  proof (cases e)
    case (Opened s)
    show ?thesis
    proof (cases "add_object s objects m")
      case None
      with Opened show ?thesis by (simp add: opened_sizes_def)
    next
      case (Some n)
      then have "rm_bytes_read n = rm_bytes_read m"
        by (auto simp: add_object_def Let_def set_total_bytes_def split: if_splits)
      with Opened Some Cons show ?thesis
        by (simp add: opened_sizes_def received_chunks_def)
    qed
  next
    case (Received n)
    have "metric_run objects (e # es) m = metric_run objects es (add_bytes_read n m)"
      using Received by simp
    also have "\<dots> = map_option (\<lambda>m'. m'\<lparr>rm_bytes_read := rm_bytes_read m + n + sum_list (received_chunks es)\<rparr>)
        (add_objects objects (opened_sizes es) (m\<lparr>rm_bytes_read := rm_bytes_read m + n\<rparr>))"
      unfolding Cons by (simp add: add_bytes_read_def)
    finally show ?thesis
      using Received by (simp add: add_objects_bytes_read opened_sizes_def received_chunks_def
        option.map_comp comp_def add.assoc)
  qed
qed

lemma unat_sum_list: "sum_list (map unat ws) < 2 ^ LENGTH('a::len)
  \<Longrightarrow> unat (sum_list ws :: 'a word) = sum_list (map unat ws)"
proof (induction ws)
  case (Cons w ws)
  then show ?case by (simp add: unat_add_no_overflow)
qed simp

lemma metric_run_exact:
  assumes "length (opened_sizes es) = unat objects" "objects \<noteq> 0"
  shows "\<exists>m'. metric_run objects es read_metrics_default = Some m'
    \<and> unat (snap_total_bytes (snapshot m'))
        = min (sum_list (map unat (opened_sizes es))) (2 ^ 64 - 1)
    \<and> (sum_list (map unat (received_chunks es)) = sum_list (map unat (opened_sizes es))
       \<and> sum_list (map unat (opened_sizes es)) < 2 ^ 64
       \<longrightarrow> snap_bytes_read (snapshot m') = snap_total_bytes (snapshot m'))"
proof -
  let ?sz = "opened_sizes es"
  have ne: "?sz \<noteq> []" using assms by (auto simp: unat_eq_0)
  have "unat (fst (rm_opened read_metrics_default)) + length ?sz < 2 ^ 64"
    using assms(1) unsigned_less [of objects, where ?'a = nat] by (simp add: read_metrics_default_def)
  from add_objects_state [OF this, of objects] obtain n where n:
    "add_objects objects ?sz read_metrics_default = Some n"
    "unat (snd (rm_opened n)) = min (sum_list (map unat ?sz)) (2 ^ 64 - 1)"
    "unat (rm_total_bytes n) = min (unat (snd (rm_opened n)) * unat objects div unat objects) (2 ^ 64 - 1)"
    using ne assms(1) by (auto simp: read_metrics_default_def)
  then have total: "unat (rm_total_bytes n) = min (sum_list (map unat ?sz)) (2 ^ 64 - 1)"
    using assms(2) by (simp add: unat_eq_0)
  let ?m = "n\<lparr>rm_bytes_read := 0 + sum_list (received_chunks es)\<rparr>"
  have run: "metric_run objects es read_metrics_default = Some ?m"
    using n(1) by (simp add: metric_run_split) (simp add: read_metrics_default_def)
  have "rm_bytes_read ?m = rm_total_bytes ?m"
    if "sum_list (map unat (received_chunks es)) = sum_list (map unat ?sz)"
      "sum_list (map unat ?sz) < 2 ^ 64"
    using that total unat_sum_list [of "received_chunks es"]
    by (simp add: word_unat_eq_iff)
  with run total show ?thesis by (auto simp: snapshot_def)
qed

text \<open>
  C38: Whatever the order in which the threads of a scan open its objects and receive their
  chunks, once every object of the declared count is open the expected total is exactly the
  sum of the sizes (saturated at the width of the counter), and once the chunks received add
  up to the sizes the bytes read equal that total: progress ends at one hundred percent.
\<close>

theorem metrics_exact_once_all_opened:
  assumes "length (opened_sizes es) = unat objects" "objects \<noteq> 0"
  shows "\<exists>m'. metric_run objects es read_metrics_default = Some m'
    \<and> unat (snap_total_bytes (snapshot m'))
        = min (sum_list (map unat (opened_sizes es))) (2 ^ 64 - 1)
    \<and> (sum_list (map unat (received_chunks es)) = sum_list (map unat (opened_sizes es))
       \<and> sum_list (map unat (opened_sizes es)) < 2 ^ 64
       \<longrightarrow> snap_bytes_read (snapshot m') = snap_total_bytes (snapshot m'))"
  by (rule metric_run_exact [OF assms])

theorem metrics_exact_once_all_opened_witness:
  "\<exists>m'. metric_run 2 [Opened 5, Received 3, Opened 7, Received 9] read_metrics_default = Some m'
    \<and> unat (snap_total_bytes (snapshot m')) = 12
    \<and> snap_bytes_read (snapshot m') = snap_total_bytes (snapshot m')"
  using metrics_exact_once_all_opened
    [of "[Opened 5, Received 3, Opened 7, Received 9]" 2]
  by (simp add: opened_sizes_def received_chunks_def)

end
