(* ===== verification/Source.thy ===== *)
theory Source
  imports Errors
begin

text \<open>
  \<open>rust/src/source.rs\<close>: what the sources share. A reader is the bytes it delivers and the
  I/O error it then fails with, if any; the multi-member gzip decoder is a library, an
  argument of \<open>decompressed_input\<close>.
\<close>

type_synonym reader = "bytes \<times> string option"

definition DEFAULT_MAX_READ_PARALLELISM :: usize where
  "DEFAULT_MAX_READ_PARALLELISM = 8"

record source_read_options =
  max_read_parallelism :: usize

definition source_read_options_default :: source_read_options where
  "source_read_options_default = \<lparr>max_read_parallelism = DEFAULT_MAX_READ_PARALLELISM\<rparr>"

definition source_read_options_validate :: "source_read_options \<Rightarrow> source_read_options res" where
  "source_read_options_validate opts =
     (if max_read_parallelism opts = 0
      then Err (error_message ''max_read_parallelism must be positive'')
      else Ok opts)"

definition is_gzipped :: "string \<Rightarrow> bool" where
  "is_gzipped path \<longleftrightarrow> suffix ''.gz'' (to_ascii_lowercase path)"

definition decompressed_input :: "(reader \<Rightarrow> reader) \<Rightarrow> reader \<Rightarrow> bool \<Rightarrow> reader" where
  "decompressed_input gunzip r gzipped = (if gzipped then gunzip r else r)"

end
