(* ===== verification/WarcSegment.thy ===== *)
theory WarcSegment
  imports Source
begin

text \<open>
  \<open>rust/src/source/warc_segment.rs\<close>: Common Crawl segments, addressed by path, and the files
  their manifest lists. The object store and the gzip decoder are arguments of \<open>files\<close>.
\<close>

record warc_segment =
  seg_root :: string
  seg_crawl :: string
  seg_segment :: "string option"

text \<open>The slice patterns of \<open>parse\<close>, on the reversed list of path parts.\<close>

definition root_string :: "string list \<Rightarrow> string" where
  "root_string root = concat (map (\<lambda>part. part @ ''/'') root)"

definition strip_warc :: "string list \<Rightarrow> string list" where
  "strip_warc parts = (if suffix [''warc''] parts then butlast parts else parts)"

definition match_crawl :: "string list \<Rightarrow> warc_segment option" where
  "match_crawl parts = (case rev parts of
     file # crawl # cd # root \<Rightarrow>
       (if file = ''warc.paths.gz'' \<and> cd = ''crawl-data''
        then Some \<lparr>seg_root = root_string (rev root), seg_crawl = crawl, seg_segment = None\<rparr>
        else None)
   | _ \<Rightarrow> None)"

definition match_segment :: "string list \<Rightarrow> warc_segment option" where
  "match_segment parts = (case rev parts of
     segment # segments # crawl # cd # root \<Rightarrow>
       (if segments = ''segments'' \<and> cd = ''crawl-data''
           \<and> \<not> suffix ''.warc'' segment \<and> \<not> suffix ''.warc.gz'' segment
        then Some \<lparr>seg_root = root_string (rev root), seg_crawl = crawl, seg_segment = Some segment\<rparr>
        else None)
   | _ \<Rightarrow> None)"

definition segment_parse :: "string \<Rightarrow> warc_segment option" where
  "segment_parse path =
     (let parts = strip_warc (filter (\<lambda>part. part \<noteq> []) (split_on (CHR ''/'') path))
      in case match_crawl parts of Some s \<Rightarrow> Some s | None \<Rightarrow> match_segment parts)"

definition manifest_path :: "warc_segment \<Rightarrow> string" where
  "manifest_path s = seg_root s @ ''crawl-data/'' @ seg_crawl s @ ''/warc.paths.gz''"

definition entry_prefix :: "warc_segment \<Rightarrow> string" where
  "entry_prefix s = (case seg_segment s of
     Some segment \<Rightarrow> ''crawl-data/'' @ seg_crawl s @ ''/segments/'' @ segment @ ''/warc/''
   | None \<Rightarrow> ''crawl-data/'' @ seg_crawl s @ ''/'')"

definition decode_manifest :: "(bytes \<Rightarrow> reader) \<Rightarrow> bytes \<Rightarrow> string res" where
  "decode_manifest gunzip manifest = (case gunzip manifest of
     (text, None) \<Rightarrow> (if utf8_valid text then Ok text
        else Err (error_message ''decoding WARC manifest: stream did not contain valid UTF-8''))
   | (_, Some e) \<Rightarrow> Err (error_message (''decoding WARC manifest: '' @ e)))"

definition select_entries :: "warc_segment \<Rightarrow> string \<Rightarrow> string list" where
  "select_entries s text =
     (let pre = entry_prefix s
      in map (\<lambda>entry. seg_root s @ entry)
           (filter (\<lambda>entry. length entry > length pre \<and> prefix pre entry)
             (map trim (str_lines text))))"

definition segment_files ::
  "(string \<Rightarrow> (bytes, opendal_error) result) \<Rightarrow> (bytes \<Rightarrow> reader) \<Rightarrow> warc_segment \<Rightarrow> string list res" where
  "segment_files read gunzip s =
     and_then (context_of (''reading WARC manifest '' @ manifest_path s)
                 (read (manifest_path s)) opendal_into) (\<lambda>manifest.
     and_then (decode_manifest gunzip manifest) (\<lambda>text.
       let files = select_entries s text
       in if files = []
          then Err (error_message (''WARC manifest has no files under '' @ entry_prefix s))
          else Ok files))"

section \<open>Parsing a path that addresses a segment\<close>

abbreviation slash :: char where
  "slash \<equiv> CHR ''/''"

definition path_part :: "string \<Rightarrow> bool" where
  "path_part p \<longleftrightarrow> p \<noteq> [] \<and> slash \<notin> set p"

definition segment_dir :: "string list \<Rightarrow> string \<Rightarrow> string \<Rightarrow> string" where
  "segment_dir root crawl segment =
     join_with slash (root @ [''crawl-data'', crawl, ''segments'', segment])"

lemma parts_of_join:
  "ps \<noteq> [] \<Longrightarrow> \<forall>p\<in>set ps. path_part p \<Longrightarrow>
   filter (\<lambda>part. part \<noteq> []) (split_on slash (join_with slash ps)) = ps"
  by (subst split_join) (auto simp: path_part_def filter_id_conv)

lemma parts_of_join_slash:
  "ps \<noteq> [] \<Longrightarrow> \<forall>p\<in>set ps. path_part p \<Longrightarrow>
   filter (\<lambda>part. part \<noteq> []) (split_on slash (join_with slash ps @ ''/'' @ q))
     = ps @ filter (\<lambda>part. part \<noteq> []) (split_on slash q)"
  using parts_of_join [of ps] by (simp add: split_on_append_gen)

lemma strip_warc_snoc [simp]: "strip_warc (ps @ [''warc'']) = ps"
  by (simp add: strip_warc_def)

lemma strip_warc_other: "p \<noteq> ''warc'' \<Longrightarrow> strip_warc (ps @ [p]) = ps @ [p]"
  by (auto simp: strip_warc_def suffix_def)

lemma match_segment_parts:
  assumes "\<not> suffix ''.warc'' segment" "\<not> suffix ''.warc.gz'' segment"
    "\<not> (segment = ''warc.paths.gz'' \<and> crawl = ''crawl-data'')"
  shows "match_crawl (root @ [''crawl-data'', crawl, ''segments'', segment]) = None"
    "match_segment (root @ [''crawl-data'', crawl, ''segments'', segment]) =
       Some \<lparr>seg_root = root_string root, seg_crawl = crawl, seg_segment = Some segment\<rparr>"
  using assms by (auto simp: match_crawl_def match_segment_def)

text \<open>
  C40: A segment's directory, written with or without a trailing slash and with or without its
  \<open>warc\<close> subdirectory, parses to that segment: the crawl, the segment name, and the root the
  manifest entries are relative to.
\<close>

theorem segment_parse_segment_dir:
  assumes "\<forall>p\<in>set root. path_part p" "path_part crawl" "path_part segment"
    "segment \<noteq> ''warc''" "\<not> suffix ''.warc'' segment" "\<not> suffix ''.warc.gz'' segment"
    "\<not> (segment = ''warc.paths.gz'' \<and> crawl = ''crawl-data'')"
    "tail \<in> {'''', ''/'', ''/warc'', ''/warc/''}"
  shows "segment_parse (segment_dir root crawl segment @ tail) =
    Some \<lparr>seg_root = root_string root, seg_crawl = crawl, seg_segment = Some segment\<rparr>"
proof -
  let ?ps = "root @ [''crawl-data'', crawl, ''segments'', segment]"
  have parts: "?ps \<noteq> []" "\<forall>p\<in>set ?ps. path_part p"
    using assms(1-3) by (auto simp: path_part_def)
  have "strip_warc (filter (\<lambda>part. part \<noteq> []) (split_on slash (segment_dir root crawl segment @ tail))) = ?ps"
    using assms(8) parts_of_join [OF parts] parts_of_join_slash [OF parts, of "''''"]
      parts_of_join_slash [OF parts, of "''warc''"] parts_of_join_slash [OF parts, of "''warc/''"]
      strip_warc_other [OF assms(4), of "root @ [''crawl-data'', crawl, ''segments'']"]
      strip_warc_snoc [of ?ps]
    by (auto simp: segment_dir_def)
  then show ?thesis
    using match_segment_parts [OF assms(5-7), of root] by (simp add: segment_parse_def Let_def)
qed

theorem segment_parse_segment_dir_witness:
  "segment_parse ''data/cc/crawl-data/c/segments/1/warc/'' =
    Some \<lparr>seg_root = ''data/cc/'', seg_crawl = ''c'', seg_segment = Some ''1''\<rparr>"
  using segment_parse_segment_dir [of "[''data'', ''cc'']" "''c''" "''1''" "''/warc/''"]
  by (simp add: path_part_def segment_dir_def root_string_def suffix_def)

section \<open>The files of a segment\<close>

text \<open>
  The directory a segment (or crawl) stands for, as the components of its path, and the entries
  that lie under it: those whose own components go on after the directory's.
\<close>

definition segment_components :: "warc_segment \<Rightarrow> string list" where
  "segment_components s = ''crawl-data'' # seg_crawl s #
     (case seg_segment s of Some segment \<Rightarrow> [''segments'', segment, ''warc''] | None \<Rightarrow> [])"

definition lies_under :: "string list \<Rightarrow> string \<Rightarrow> bool" where
  "lies_under dir entry \<longleftrightarrow> (let parts = split_on slash entry in
     take (length dir) parts = dir \<and> drop (length dir) parts \<noteq> [] \<and> drop (length dir) parts \<noteq> [[]])"

lemma lies_under_iff:
  assumes "dir \<noteq> []" "\<forall>p\<in>set dir. slash \<notin> set p"
  shows "lies_under dir entry \<longleftrightarrow>
    length entry > length (join_with slash dir @ ''/'') \<and> prefix (join_with slash dir @ ''/'') entry"
proof
  assume "lies_under dir entry"
  then obtain rest where rest: "split_on slash entry = dir @ rest" "rest \<noteq> []" "rest \<noteq> [[]]"
    unfolding lies_under_def Let_def by (metis append_take_drop_id)
  have "\<forall>p\<in>set rest. slash \<notin> set p" using split_on_pieces [of _ slash entry] rest(1) by auto
  then have "split_on slash (join_with slash rest) = rest" using rest(2) by (intro split_join) auto
  then have "join_with slash rest \<noteq> []" using rest(3) by (metis split_on.simps(1))
  moreover have "entry = (join_with slash dir @ ''/'') @ join_with slash rest"
    using join_split [of slash entry] join_append [OF assms(1) rest(2)] rest(1) by simp
  ultimately show "length entry > length (join_with slash dir @ ''/'') \<and> prefix (join_with slash dir @ ''/'') entry"
    by (auto simp: prefix_def)
next
  assume "length entry > length (join_with slash dir @ ''/'') \<and> prefix (join_with slash dir @ ''/'') entry"
  then obtain q where q: "entry = join_with slash dir @ slash # q" "q \<noteq> []" by (auto simp: prefix_def)
  then have "split_on slash entry = dir @ split_on slash q"
    using split_join [OF assms] by (simp add: split_on_append_gen)
  moreover have "split_on slash q \<noteq> [[]]" using q(2) join_split [of slash q] by auto
  ultimately show "lies_under dir entry" by (simp add: lies_under_def)
qed

text \<open>The names of a segment that was parsed are single components.\<close>

lemma match_crawl_names: "match_crawl (rev ps) = Some s \<Longrightarrow> seg_crawl s \<in> set ps \<and> seg_segment s = None"
  by (auto simp: match_crawl_def split: list.splits if_splits)

lemma match_segment_names: "match_segment (rev ps) = Some s \<Longrightarrow> seg_crawl s \<in> set ps \<and> seg_segment s \<in> Some ` set ps"
  by (auto simp: match_segment_def split: list.splits if_splits)

lemma segment_parse_names:
  assumes "segment_parse path = Some s"
  shows "\<forall>p\<in>set (segment_components s). slash \<notin> set p"
proof -
  let ?parts = "strip_warc (filter (\<lambda>part. part \<noteq> []) (split_on slash path))"
  have "set (strip_warc ps) \<subseteq> set ps" for ps by (auto simp: strip_warc_def dest: in_set_butlastD)
  then have "slash \<notin> set p" if "p \<in> set ?parts" for p
    using that split_on_pieces [of p slash path] by fastforce
  moreover have "seg_crawl s \<in> set ?parts \<and> (seg_segment s = None \<or> seg_segment s \<in> Some ` set ?parts)"
    using assms match_crawl_names [of "rev ?parts" s] match_segment_names [of "rev ?parts" s]
    by (auto simp: segment_parse_def Let_def split: option.splits)
  ultimately show ?thesis by (auto simp: segment_components_def split: option.splits)
qed

lemma entry_prefix_components: "entry_prefix s = join_with slash (segment_components s) @ ''/''"
  by (simp add: entry_prefix_def segment_components_def split: option.split)

definition listed_entries :: "warc_segment \<Rightarrow> string \<Rightarrow> string list" where
  "listed_entries s manifest = filter (lies_under (segment_components s)) (map trim (str_lines manifest))"

lemma select_entries_listed:
  assumes "segment_parse path = Some s"
  shows "select_entries s manifest = map ((@) (seg_root s)) (listed_entries s manifest)"
  using lies_under_iff [OF _ segment_parse_names [OF assms]]
  by (simp add: select_entries_def listed_entries_def Let_def entry_prefix_components segment_components_def [of s]
      cong: filter_cong)

text \<open>
  C39: For a segment that was parsed from a path, \<open>files\<close> returns exactly the manifest's entries
  whose path components begin with those of the segment's \<open>warc\<close> directory (or of the crawl) and
  go on below it, in the manifest's order and relative to the same root: none of a segment whose
  name only starts the same, and not the directory itself. It never returns an empty list: a
  manifest without such an entry is an error that names the directory.
\<close>

theorem segment_files_exact:
  assumes "segment_parse path = Some s" "read (manifest_path s) = Ok m" "gunzip m = (manifest, None)" "utf8_valid manifest"
  shows "segment_files read gunzip s =
    (if listed_entries s manifest = []
     then Err (error_message (''WARC manifest has no files under '' @ join_with slash (segment_components s) @ ''/''))
     else Ok (map ((@) (seg_root s)) (listed_entries s manifest)))"
  using assms(2-4)
  by (simp add: segment_files_def context_of_def decode_manifest_def select_entries_listed [OF assms(1)]
      entry_prefix_components Let_def)

theorem segment_files_exact_witness:
  "segment_files (\<lambda>_. Ok ''x'')
     (\<lambda>_. (''crawl-data/c/segments/10/warc/b.warc'' @ [CHR 0x0A]
        @ ''crawl-data/c/segments/1/warc/a.warc '', None))
     \<lparr>seg_root = ''r/'', seg_crawl = ''c'', seg_segment = Some ''1''\<rparr>
   = Ok [''r/crawl-data/c/segments/1/warc/a.warc'']"
proof -
  let ?body = "''crawl-data/c/segments/10/warc/b.warc'' @ [CHR 0x0A]
    @ ''crawl-data/c/segments/1/warc/a.warc ''"
  let ?s = "\<lparr>seg_root = ''r/'', seg_crawl = ''c'', seg_segment = Some ''1''\<rparr>"
  have "segment_parse ''r/crawl-data/c/segments/1'' = Some ?s" by code_simp
  moreover have "utf8_valid ?body" by code_simp
  moreover have "listed_entries ?s ?body = [''crawl-data/c/segments/1/warc/a.warc'']" by code_simp
  ultimately show ?thesis
    using segment_files_exact [of _ ?s "\<lambda>_. Ok ''x''" "''x''" "\<lambda>_. (?body, None)" ?body] by simp
qed

end
