(* ===== verification/WarcIndex.thy ===== *)
theory WarcIndex
  imports Source Metrics
begin

text \<open>
  \<open>rust/src/source/warc_index.rs\<close>: reading an external JSON or CDXJ index of a WARC file, and
  planning the range reads that cover its entries. \<open>serde_json\<close> is the record \<open>json_api\<close>
  over an abstract type of values, the gzip decoder an argument. A \<open>Range<u64>\<close> is the pair of
  its bounds. Lemmas: the planner is a fold that refines a partition of the sorted entries
  into runs, from which coverage, order, balance and the number of units follow.
\<close>

type_synonym range64 = "u64 \<times> u64"

section \<open>Reading the index\<close>

record 'j json_api =
  js_from_str :: "string \<Rightarrow> ('j, string) result"
  js_get :: "'j \<Rightarrow> string \<Rightarrow> 'j option"
  js_as_u64 :: "'j \<Rightarrow> u64 option"
  js_as_str :: "'j \<Rightarrow> string option"

definition index_error :: "nat \<Rightarrow> string \<Rightarrow> error" where
  "index_error line_number what =
     error_message (''WARC index line '' @ show_nat line_number @ what)"

definition json_u64 :: "'j json_api \<Rightarrow> 'j \<Rightarrow> string \<Rightarrow> nat \<Rightarrow> u64 res" where
  "json_u64 J object name line_number =
     and_then (ok_or (js_get J object name) (index_error line_number ('' has no '' @ name))) (\<lambda>value.
       ok_or (case js_as_u64 J value of
                Some v \<Rightarrow> Some v
              | None \<Rightarrow> Option.bind (js_as_str J value) parse_u64)
         (index_error line_number ('' has invalid '' @ name)))"

definition index_filename_matches :: "string \<Rightarrow> string \<Rightarrow> bool" where
  "index_filename_matches source_path filename \<longleftrightarrow>
     suffix filename source_path \<or> path_file_name source_path = path_file_name filename"

definition index_entry :: "'j json_api \<Rightarrow> 'j \<Rightarrow> nat \<Rightarrow> range64 res" where
  "index_entry J object line_number =
     and_then (json_u64 J object ''offset'' line_number) (\<lambda>offset.
     and_then (json_u64 J object ''length'' line_number) (\<lambda>len.
       if len = 0 then Err (index_error line_number '' has zero length'')
       else and_then (ok_or (checked_add offset len)
                  (error_message ''WARC index offset plus length overflows u64''))
              (\<lambda>stop. Ok (offset, stop))))"

text \<open>One turn of the loop over the lines: \<open>None\<close> when the line adds no entry.\<close>

definition index_line ::
  "'j json_api \<Rightarrow> string \<Rightarrow> nat \<times> (string, string) result \<Rightarrow> range64 option res" where
  "index_line J source_path il = (case il of (index, line_result) \<Rightarrow>
     let line_number = index + 1 in
     and_then (map_err (\<lambda>e. error_message
                 (''reading WARC index line '' @ show_nat line_number @ '': '' @ e)) line_result) (\<lambda>raw.
     let line = trim raw in
     if line = [] \<or> prefix ''#'' line then Ok None
     else and_then (if CHR ''{'' \<in> set line then Ok (dropWhile (\<lambda>c. c \<noteq> CHR ''{'') line)
                    else Err (index_error line_number '' is not JSON or CDXJ'')) (\<lambda>json.
     and_then (map_err (\<lambda>e. error_message
                 (''invalid WARC index line '' @ show_nat line_number @ '': '' @ e))
                 (js_from_str J json)) (\<lambda>object.
     case Option.bind (js_get J object ''filename'') (js_as_str J) of
       Some filename \<Rightarrow> (if index_filename_matches source_path filename
         then map_ok Some (index_entry J object line_number) else Ok None)
     | None \<Rightarrow> map_ok Some (index_entry J object line_number)))))"

definition parse_warc_index ::
  "'j json_api \<Rightarrow> (bytes \<Rightarrow> reader) \<Rightarrow> bytes \<Rightarrow> bool \<Rightarrow> string \<Rightarrow> range64 list res" where
  "parse_warc_index J gunzip index gzipped source_path =
     (let rd = (if gzipped then gunzip index else (index, None)) in
      and_then (try_map (index_line J source_path) (enumerate 0 (buf_lines rd))) (\<lambda>entries.
        let entries = List.map_filter id entries in
        if entries = []
        then Err (error_message ''WARC index contains no entries for the source file'')
        else Ok entries))"

text \<open>An entry the reader accepts is a non-empty range whose end did not overflow.\<close>

definition valid_range :: "range64 \<Rightarrow> bool" where
  "valid_range r \<longleftrightarrow> fst r < snd r"

lemma index_entry_valid: "index_entry J obj n = Ok r \<Longrightarrow> valid_range r"
proof -
  assume "index_entry J obj n = Ok r"
  then obtain offset len where "len \<noteq> 0" "r = (offset, offset + len)"
    "unat offset + unat len < 2 ^ 64"
    by (auto simp: index_entry_def result_simps checked_add_Some split: if_splits)
  then show ?thesis
    by (simp add: valid_range_def word_less_nat_alt unat_add_no_overflow unat_gt_0)
qed

lemma index_line_valid: "index_line J p il = Ok (Some r) \<Longrightarrow> valid_range r"
  by (cases il) (auto simp: index_line_def Let_def result_simps
    dest: index_entry_valid split: if_splits option.splits)

lemma map_filter_id_set: "x \<in> set (List.map_filter id ys) \<longleftrightarrow> Some x \<in> set ys"
  by (induction ys) (auto simp: map_filter_simps split: option.splits)

lemma parse_warc_index_valid:
  assumes "parse_warc_index J gunzip index gz p = Ok entries"
  shows "entries \<noteq> []" "\<forall>r\<in>set entries. valid_range r"
proof -
  from assms obtain opts where opts: "try_map (index_line J p)
      (enumerate 0 (buf_lines (if gz then gunzip index else (index, None)))) = Ok opts"
    "entries = List.map_filter id opts" "entries \<noteq> []"
    by (auto simp: parse_warc_index_def Let_def result_simps split: if_splits)
  show "entries \<noteq> []" by (fact opts(3))
  show "\<forall>r\<in>set entries. valid_range r"
  proof
    fix r assume "r \<in> set entries"
    then have "Some r \<in> set opts" by (simp add: opts(2) map_filter_id_set)
    with opts(1) obtain il where "index_line J p il = Ok (Some r)"
      using try_map_in [OF opts(1)] by blast
    then show "valid_range r" by (rule index_line_valid)
  qed
qed

section \<open>Planning the range reads\<close>

definition range_len :: "range64 \<Rightarrow> u64" where
  "range_len r = snd r - fst r"

definition total_length :: "range64 list \<Rightarrow> u64 res" where
  "total_length entries = try_fold (\<lambda>acc entry.
     ok_or (checked_add acc (range_len entry))
       (error_message ''WARC index total length overflows u64'')) 0 entries"

definition overlap_error :: error where
  "overlap_error = error_message ''WARC index entries overlap''"

definition merge_step :: "u64 \<Rightarrow> range64 list \<Rightarrow> range64 \<Rightarrow> range64 list res" where
  "merge_step target units entry =
     (if units = [] then Ok [entry]
      else let unit = last units in
        if fst entry < snd unit then Err overlap_error
        else if fst entry = snd unit \<and> range_len unit < target
          then Ok (butlast units @ [(fst unit, snd entry)])
        else Ok (units @ [entry]))"

definition merge_entries :: "u64 \<Rightarrow> range64 list \<Rightarrow> range64 list res" where
  "merge_entries target entries = try_fold (merge_step target) [] entries"

text \<open>\<open>None\<close> is the panic of the division by a zero parallelism.\<close>

definition build_index_work_units :: "range64 list \<Rightarrow> usize \<Rightarrow> range64 list res option" where
  "build_index_work_units entries max_par =
     (case total_length entries of
        Err e \<Rightarrow> Some (Err e)
      | Ok len \<Rightarrow> (case div_ceil len max_par of
          None \<Rightarrow> None
        | Some target \<Rightarrow> Some (merge_entries target (sort_key fst entries))))"

section \<open>The planner refines a partition into runs\<close>

text \<open>
  The runs of entries behind the units: the same loop, keeping the entries of a unit instead
  of only its bounds. \<open>unit_of\<close> is the abstraction to the code's units.
\<close>

definition unit_of :: "range64 list \<Rightarrow> range64" where
  "unit_of g = (fst (hd g), snd (last g))"

definition run_step :: "u64 \<Rightarrow> range64 list list \<Rightarrow> range64 \<Rightarrow> range64 list list" where
  "run_step target gs entry =
     (if gs \<noteq> [] \<and> fst entry = snd (unit_of (last gs)) \<and> range_len (unit_of (last gs)) < target
      then butlast gs @ [last gs @ [entry]] else gs @ [[entry]])"

definition runs_of :: "u64 \<Rightarrow> range64 list \<Rightarrow> range64 list list" where
  "runs_of target entries = foldl (run_step target) [] entries"

definition disjoint_sorted :: "range64 list \<Rightarrow> bool" where
  "disjoint_sorted xs \<longleftrightarrow> sorted_wrt (\<lambda>a b. snd a \<le> fst b) xs"

lemma runs_of_snoc: "runs_of target (xs @ [x]) = run_step target (runs_of target xs) x"
  by (simp add: runs_of_def)

lemma merge_entries_snoc: "merge_entries target (xs @ [x])
    = and_then (merge_entries target xs) (\<lambda>units. merge_step target units x)"
  by (simp add: merge_entries_def try_fold_append)

lemma unit_of_snoc: "g \<noteq> [] \<Longrightarrow> unit_of (g @ [e]) = (fst (unit_of g), snd e)"
  by (simp add: unit_of_def)

lemma runs_of_nonempty: "[] \<notin> set (runs_of target xs)"
  by (induction xs rule: rev_induct)
    (auto simp: runs_of_snoc run_step_def runs_of_def dest: in_set_butlastD)

lemma concat_runs_of: "concat (runs_of target xs) = xs"
proof (induction xs rule: rev_induct)
  case (snoc x xs)
  let ?gs = "runs_of target xs"
  have "concat (butlast ?gs @ [last ?gs @ [x]]) = concat ?gs @ [x]" if "?gs \<noteq> []"
    using that append_butlast_last_id [of ?gs]
    by (metis append.assoc append_Nil2 concat.simps concat_append)
  with snoc show ?case by (simp add: runs_of_snoc run_step_def)
qed (simp add: runs_of_def)

lemma runs_of_Nil_iff: "runs_of target xs = [] \<longleftrightarrow> xs = []"
  using concat_runs_of [of target xs] runs_of_nonempty [of target xs]
  by (cases "runs_of target xs") (auto simp: runs_of_def)

lemma last_unit_of_runs: "xs \<noteq> [] \<Longrightarrow> snd (unit_of (last (runs_of target xs))) = snd (last xs)"
  by (induction xs rule: rev_induct)
    (auto simp: runs_of_snoc run_step_def unit_of_def)

text \<open>The simulation: without an overlap the code's units are those of the runs.\<close>

lemma merge_step_refines:
  assumes "[] \<notin> set gs" "gs \<noteq> [] \<longrightarrow> snd (unit_of (last gs)) \<le> fst x"
  shows "merge_step target (map unit_of gs) x = Ok (map unit_of (run_step target gs x))"
proof (cases "gs = []")
  case True
  then show ?thesis by (simp add: merge_step_def run_step_def unit_of_def)
next
  case False
  then have "last gs \<noteq> []" using assms(1) by (metis last_in_set)
  with False assms(2) show ?thesis
    by (auto simp: merge_step_def run_step_def Let_def last_map map_butlast unit_of_snoc
      unit_of_def [of "[x]"])
qed

lemma disjoint_sorted_snoc:
  "disjoint_sorted (xs @ [x]) \<longleftrightarrow> disjoint_sorted xs \<and> (\<forall>a\<in>set xs. snd a \<le> fst x)"
  by (auto simp: disjoint_sorted_def sorted_wrt_append)

lemma merge_entries_refines:
  "disjoint_sorted xs \<Longrightarrow> merge_entries target xs = Ok (map unit_of (runs_of target xs))"
proof (induction xs rule: rev_induct)
  case (snoc x xs)
  then have "merge_step target (map unit_of (runs_of target xs)) x
      = Ok (map unit_of (run_step target (runs_of target xs) x))"
    by (intro merge_step_refines)
      (auto simp: runs_of_nonempty runs_of_Nil_iff last_unit_of_runs disjoint_sorted_snoc)
  with snoc show ?case
    by (simp add: merge_entries_snoc runs_of_snoc disjoint_sorted_snoc)
qed (simp add: merge_entries_def runs_of_def)

text \<open>On entries sorted by their start, the loop fails exactly when two of them overlap.\<close>

lemma disjoint_sorted_last:
  assumes "\<forall>r\<in>set xs. valid_range r" "disjoint_sorted xs" "xs \<noteq> []" "a \<in> set xs"
  shows "snd a \<le> snd (last xs)"
proof -
  obtain ys y where ys: "xs = ys @ [y]" using assms(3) by (metis rev_exhaust)
  then have "snd a \<le> fst y \<or> a = y" "fst y < snd y"
    using assms by (auto simp: disjoint_sorted_snoc valid_range_def)
  with ys show ?thesis by auto
qed

lemma merge_entries_overlap:
  assumes "\<forall>r\<in>set xs. valid_range r" "\<not> disjoint_sorted xs"
  shows "merge_entries target xs = Err overlap_error"
  using assms
proof (induction xs rule: rev_induct)
  case (snoc x xs)
  show ?case
  proof (cases "disjoint_sorted xs")
    case False
    with snoc show ?thesis by (simp add: merge_entries_snoc)
  next
    case True
    with snoc.prems obtain a where a: "a \<in> set xs" "fst x < snd a"
      by (auto simp: disjoint_sorted_snoc not_le)
    then have "xs \<noteq> []" by auto
    moreover have "fst x < snd (last xs)"
      using disjoint_sorted_last [of xs a] a True snoc.prems(1) \<open>xs \<noteq> []\<close> by auto
    ultimately show ?thesis
      using True by (simp add: merge_entries_snoc merge_entries_refines merge_step_def Let_def
        runs_of_Nil_iff last_map last_unit_of_runs)
  qed
qed (simp add: disjoint_sorted_def)

section \<open>Overlap, whatever the order of the entries\<close>

definition apart :: "range64 \<Rightarrow> range64 \<Rightarrow> bool" where
  "apart a b \<longleftrightarrow> snd a \<le> fst b \<or> snd b \<le> fst a"

definition pairwise_apart :: "range64 list \<Rightarrow> bool" where
  "pairwise_apart xs \<longleftrightarrow> sorted_wrt apart xs"

lemma apart_sym: "apart a b \<Longrightarrow> apart b a"
  by (auto simp: apart_def)

lemma pairwise_apart_perm: "mset xs = mset ys \<Longrightarrow> pairwise_apart xs \<longleftrightarrow> pairwise_apart ys"
  unfolding pairwise_apart_def by (rule sorted_wrt_symmetric_perm) (rule apart_sym)

lemma disjoint_sorted_iff:
  assumes "\<forall>r\<in>set xs. valid_range r" "sorted (map fst xs)"
  shows "disjoint_sorted xs \<longleftrightarrow> pairwise_apart xs"
proof -
  have "snd a \<le> fst b \<longleftrightarrow> apart a b" if "fst a \<le> fst b" "fst b < snd b" for a b :: range64
    using that by (auto simp: apart_def)
  then show ?thesis
    using assms by (induction xs) (auto simp: disjoint_sorted_def pairwise_apart_def valid_range_def)
qed

lemma valid_range_sort: "\<forall>r\<in>set xs. valid_range r \<Longrightarrow> \<forall>r\<in>set (sort_key fst xs). valid_range r"
  by simp

lemma merge_entries_decides:
  assumes "\<forall>r\<in>set xs. valid_range r" "mset ys = mset xs" "sorted (map fst ys)"
  shows "merge_entries target ys =
    (if pairwise_apart xs then Ok (map unit_of (runs_of target ys)) else Err overlap_error)"
proof -
  have "\<forall>r\<in>set ys. valid_range r" using assms(1,2) by (metis mset_eq_setD)
  then show ?thesis
    using assms merge_entries_refines merge_entries_overlap disjoint_sorted_iff
      pairwise_apart_perm [of ys xs] by presburger
qed

lemma pairwise_apart_distinct_starts:
  assumes "\<forall>r\<in>set xs. valid_range r" "pairwise_apart xs"
  shows "distinct (map fst xs)"
  using assms
proof (induction xs)
  case (Cons x xs)
  have "fst x \<notin> set (map fst xs)"
    using Cons.prems by (fastforce simp: pairwise_apart_def apart_def valid_range_def)
  with Cons show ?case by (simp add: pairwise_apart_def)
qed simp

text \<open>
  The planner's result does not depend on how the unstable sort arranges entries with
  equal starts, nor on the order of the index: any arrangement of the same entries that is
  sorted by start gives the same outcome as the one the model uses.
\<close>

lemma merge_entries_sort_independent:
  assumes "\<forall>r\<in>set entries. valid_range r" "mset ys = mset entries" "sorted (map fst ys)"
  shows "merge_entries target ys = merge_entries target (sort_key fst entries)"
proof (cases "pairwise_apart entries")
  case True
  have "distinct (map fst ys)"
    using pairwise_apart_distinct_starts [of entries] True assms(1,2)
    by (metis mset_eq_imp_distinct_iff mset_map)
  with assms(2,3) have "ys = sort_key fst entries"
    by (intro mset_sorted_by_key_unique [of _ _ fst]) simp_all
  then show ?thesis by simp
next
  case False
  with assms show ?thesis
    using merge_entries_decides [of entries ys] merge_entries_decides [of entries "sort_key fst entries"]
    by simp
qed

lemma merge_entries_sort_independent_example:
  "merge_entries 9 [(0, 8), (8, 12), (20, 25)] = merge_entries 9 (sort_key fst [(20, 25), (0, 8), (8, 12)])"
  by (rule merge_entries_sort_independent) (simp_all add: valid_range_def add_mset_commute)

section \<open>What the plan guarantees\<close>

definition range_bytes :: "range64 \<Rightarrow> nat set" where
  "range_bytes r = {unat (fst r)..<unat (snd r)}"

definition nat_len :: "range64 \<Rightarrow> nat" where
  "nat_len r = unat (snd r) - unat (fst r)"

lemma unat_range_len: "fst r \<le> snd r \<Longrightarrow> unat (range_len r) = nat_len r"
  by (simp add: range_len_def nat_len_def unat_sub)

lemma total_length_Ok:
  assumes "\<forall>r\<in>set xs. valid_range r" "total_length xs = Ok w"
  shows "unat w = sum_list (map nat_len xs)"
proof -
  have "unat w = unat a + sum_list (map nat_len xs)"
    if "try_fold (\<lambda>acc entry. ok_or (checked_add acc (range_len entry)) e) a xs = Ok w" for a e
    using that assms(1)
  proof (induction xs arbitrary: a)
    case (Cons x xs)
    from Cons.prems have "fst x < snd x" by (simp add: valid_range_def)
    then have "fst x \<le> snd x" by simp
    with Cons show ?case
      by (auto simp: result_simps checked_add_Some unat_add_no_overflow unat_range_len)
  qed simp
  from this [where a = 0] assms(2) show ?thesis by (auto simp: total_length_def)
qed

text \<open>Entries that follow each other without a gap, as in one run.\<close>

definition contiguous :: "range64 list \<Rightarrow> bool" where
  "contiguous g \<longleftrightarrow> successively (\<lambda>a b. snd a = fst b) g"

lemma runs_of_contiguous: "g \<in> set (runs_of target xs) \<Longrightarrow> contiguous g"
proof (induction xs arbitrary: g rule: rev_induct)
  case (snoc x xs)
  let ?gs = "runs_of target xs"
  have "contiguous (last ?gs @ [x])" if "?gs \<noteq> []" "fst x = snd (unit_of (last ?gs))"
    using snoc.IH [of "last ?gs"] that
    by (auto simp: contiguous_def successively_append_iff unit_of_def)
  with snoc show ?case
    by (auto simp: runs_of_snoc run_step_def contiguous_def dest: in_set_butlastD split: if_splits)
qed (simp add: runs_of_def)

lemma contiguous_unit:
  assumes "contiguous g" "g \<noteq> []" "\<forall>r\<in>set g. valid_range r"
  shows "range_bytes (unit_of g) = (\<Union>r\<in>set g. range_bytes r)"
    "nat_len (unit_of g) = sum_list (map nat_len g)" "valid_range (unit_of g)"
proof -
  have "range_bytes (unit_of g) = (\<Union>r\<in>set g. range_bytes r)
    \<and> nat_len (unit_of g) = sum_list (map nat_len g) \<and> valid_range (unit_of g)"
    using assms
  proof (induction g)
    case (Cons a g)
    show ?case
    proof (cases "g = []")
      case True
      with Cons.prems show ?thesis by (simp add: unit_of_def)
    next
      case False
      then have a: "unat (fst a) < unat (snd a)" "snd a = fst (hd g)" "contiguous g"
        using Cons.prems by (auto simp: contiguous_def successively_Cons valid_range_def word_less_nat_alt)
      with Cons False have IH: "range_bytes (unit_of g) = (\<Union>r\<in>set g. range_bytes r)"
        "nat_len (unit_of g) = sum_list (map nat_len g)" "valid_range (unit_of g)" by auto
      have u: "unit_of (a # g) = (fst a, snd (unit_of g))" "fst (unit_of g) = snd a"
        using False a(2) by (simp_all add: unit_of_def)
      have "unat (snd a) < unat (snd (unit_of g))"
        using IH(3) u(2) by (simp add: valid_range_def word_less_nat_alt)
      then have mono: "unat (fst a) \<le> unat (snd a)" "unat (snd a) \<le> unat (snd (unit_of g))"
        using a(1) by simp_all
      have "range_bytes (unit_of (a # g)) = range_bytes a \<union> range_bytes (unit_of g)"
        using mono by (simp add: range_bytes_def u ivl_disj_un_two(3))
      moreover have "nat_len (unit_of (a # g)) = nat_len a + nat_len (unit_of g)"
        using mono by (simp add: nat_len_def u)
      moreover have "valid_range (unit_of (a # g))"
        using mono a(1) by (simp add: valid_range_def word_less_nat_alt u)
      ultimately show ?thesis using IH by simp
    qed
  qed simp
  then show "range_bytes (unit_of g) = (\<Union>r\<in>set g. range_bytes r)"
    "nat_len (unit_of g) = sum_list (map nat_len g)" "valid_range (unit_of g)" by auto
qed

lemma runs_of_valid:
  assumes "\<forall>r\<in>set xs. valid_range r" "g \<in> set (runs_of target xs)"
  shows "g \<noteq> []" "\<forall>r\<in>set g. valid_range r" "contiguous g"
proof -
  show "g \<noteq> []" using assms(2) runs_of_nonempty by metis
  have "set g \<subseteq> set (concat (runs_of target xs))" using assms(2) by auto
  then show "\<forall>r\<in>set g. valid_range r" using assms(1) by (auto simp: concat_runs_of)
  show "contiguous g" using assms(2) by (rule runs_of_contiguous)
qed

lemma build_Ok:
  assumes "build_index_work_units entries max_par = Some (Ok units)"
    "\<forall>r\<in>set entries. valid_range r"
  obtains w target where "total_length entries = Ok w" "div_ceil w max_par = Some target"
    "pairwise_apart entries" "units = map unit_of (runs_of target (sort_key fst entries))"
proof -
  from assms(1) obtain w target where w: "total_length entries = Ok w"
    "div_ceil w max_par = Some target" "merge_entries target (sort_key fst entries) = Ok units"
    by (auto simp: build_index_work_units_def split: result.splits option.splits)
  with merge_entries_decides [of entries "sort_key fst entries" target] assms(2) show thesis
    by (intro that [OF w(1,2)]) (auto split: if_splits)
qed

lemma disjoint_sorted_runs:
  assumes "disjoint_sorted xs" "\<forall>r\<in>set xs. valid_range r"
  shows "disjoint_sorted (map unit_of (runs_of target xs))"
  using assms
proof (induction xs rule: rev_induct)
  case (snoc x xs)
  let ?gs = "runs_of target xs"
  have IH: "disjoint_sorted (map unit_of ?gs)" using snoc by (simp add: disjoint_sorted_snoc)
  have before: "snd (unit_of g) \<le> fst x" if "g \<in> set ?gs" for g
  proof -
    have "last g \<in> set g" using runs_of_nonempty that by (metis last_in_set)
    then have "last g \<in> set (concat ?gs)" using that by auto
    then show ?thesis using snoc.prems(1) by (auto simp: disjoint_sorted_snoc concat_runs_of unit_of_def)
  qed
  show ?case
  proof (cases "run_step target ?gs x = ?gs @ [[x]]")
    case True
    then show ?thesis using IH before
      by (simp add: runs_of_snoc disjoint_sorted_snoc unit_of_def [of "[x]"])
  next
    case False
    then have gs: "?gs \<noteq> []" "run_step target ?gs x = butlast ?gs @ [last ?gs @ [x]]"
      by (auto simp: run_step_def split: if_splits)
    then have "last ?gs \<noteq> []" using runs_of_nonempty by (metis last_in_set)
    moreover have "disjoint_sorted (map unit_of (butlast ?gs) @ [unit_of (last ?gs)])"
      using IH gs(1) by (metis append_butlast_last_id list.simps(8,9) map_append)
    ultimately show ?thesis
      by (simp add: runs_of_snoc gs(2) disjoint_sorted_snoc unit_of_snoc)
  qed
qed (simp add: runs_of_def disjoint_sorted_def)

lemma units_cover:
  assumes "\<forall>r\<in>set entries. valid_range r"
    and "build_index_work_units entries max_par = Some (Ok units)"
  shows "(\<Union>u\<in>set units. range_bytes u) = (\<Union>r\<in>set entries. range_bytes r)
    \<and> disjoint_sorted units \<and> (\<forall>u\<in>set units. valid_range u)
    \<and> sum_list (map nat_len units) = sum_list (map nat_len entries)"
proof -
  from assms(2,1) obtain w target where
    ap: "pairwise_apart entries" and units: "units = map unit_of (runs_of target (sort_key fst entries))"
    by (rule build_Ok)
  let ?xs = "sort_key fst entries" let ?gs = "runs_of target ?xs"
  have valid: "\<forall>r\<in>set ?xs. valid_range r" using assms(1) by simp
  note run = runs_of_valid [OF valid]
  have "disjoint_sorted ?xs"
    using ap disjoint_sorted_iff [OF valid] by (simp add: pairwise_apart_perm [of "sort_key fst entries" entries])
  then have "disjoint_sorted units" using valid by (simp add: units disjoint_sorted_runs)
  moreover have "\<forall>u\<in>set units. valid_range u" using run by (auto simp: units contiguous_unit)
  moreover have "(\<Union>u\<in>set units. range_bytes u) = (\<Union>r\<in>set (concat ?gs). range_bytes r)"
    using run by (auto simp: units contiguous_unit)
  moreover have "map nat_len units = map (\<lambda>g. sum_list (map nat_len g)) ?gs"
    using run by (auto simp: units contiguous_unit)
  then have "sum_list (map nat_len units) = sum_list (map nat_len (concat ?gs))"
    by (simp add: sum_list_map_concat)
  moreover have "sum_list (map nat_len ?xs) = sum_list (map nat_len entries)"
    by (metis mset_map mset_sort sum_mset_sum_list)
  ultimately show ?thesis by (simp add: concat_runs_of)
qed

text \<open>Runs are closed only at a gap or once they have reached the target.\<close>

lemma runs_of_closed:
  assumes "\<forall>r\<in>set xs. valid_range r"
  shows "successively (\<lambda>u v. snd u \<noteq> fst v \<or> unat target \<le> nat_len u) (map unit_of (runs_of target xs))"
  using assms
proof (induction xs rule: rev_induct)
  case (snoc x xs)
  let ?gs = "runs_of target xs"
  have IH: "successively (\<lambda>u v. snd u \<noteq> fst v \<or> unat target \<le> nat_len u) (map unit_of ?gs)"
    using snoc by simp
  show ?case
  proof (cases "?gs = []")
    case True
    then show ?thesis by (simp add: runs_of_snoc run_step_def)
  next
    case False
    obtain hs g where gs: "?gs = hs @ [g]" using False by (metis rev_exhaust)
    have "\<forall>r\<in>set xs. valid_range r" using snoc.prems by simp
    then have g: "g \<noteq> []" "valid_range (unit_of g)"
      using runs_of_valid [of xs g target] contiguous_unit(3) [of g] gs by auto
    then have len: "unat (range_len (unit_of g)) = nat_len (unit_of g)"
      by (intro unat_range_len) (simp add: valid_range_def)
    show ?thesis
      using IH g(1) len by (auto simp: runs_of_snoc run_step_def gs successively_append_iff unit_of_snoc
        unit_of_def [of "[x]"] last_map word_less_nat_alt)
  qed
qed (simp add: runs_of_def)

text \<open>A run stops growing at the target: without its last entry it is shorter.\<close>

lemma runs_of_greedy:
  assumes "\<forall>r\<in>set xs. valid_range r" "g \<in> set (runs_of target xs)" "butlast g \<noteq> []"
  shows "nat_len (unit_of (butlast g)) < unat target"
  using assms
proof (induction xs arbitrary: g rule: rev_induct)
  case (snoc x xs)
  let ?gs = "runs_of target xs"
  have valid: "\<forall>r\<in>set xs. valid_range r" using snoc.prems by simp
  show ?case
  proof (cases "g \<in> set ?gs")
    case True
    then show ?thesis using snoc.IH valid snoc.prems(3) by blast
  next
    case False
    with snoc.prems(2,3) have g: "g = last ?gs @ [x]" "?gs \<noteq> []" "range_len (unit_of (last ?gs)) < target"
      by (auto simp: runs_of_snoc run_step_def dest: in_set_butlastD split: if_splits)
    then have "last ?gs \<in> set ?gs" by simp
    then have "valid_range (unit_of (last ?gs))"
      using runs_of_valid [OF valid] contiguous_unit(3) by blast
    with g show ?thesis
      using unat_range_len [of "unit_of (last ?gs)"]
      by (simp add: valid_range_def word_less_nat_alt word_le_nat_alt)
  qed
qed (simp add: runs_of_def)

fun gap_count :: "range64 list \<Rightarrow> nat" where
  "gap_count (a # b # xs) = (if snd a = fst b then 0 else 1) + gap_count (b # xs)"
| "gap_count [a] = 0"
| "gap_count [] = 0"

lemma gap_count_append: "xs \<noteq> [] \<Longrightarrow> ys \<noteq> [] \<Longrightarrow> gap_count (xs @ ys) =
    gap_count xs + (if snd (last xs) = fst (hd ys) then 0 else 1) + gap_count ys"
proof (induction xs rule: gap_count.induct)
  case (2 a)
  then show ?case by (cases ys) auto
qed auto

lemma gap_count_contiguous: "contiguous g \<Longrightarrow> gap_count g = 0"
  by (induction g rule: gap_count.induct) (auto simp: contiguous_def)

lemma gap_count_concat:
  "[] \<notin> set gs \<Longrightarrow> \<forall>g\<in>set gs. contiguous g \<Longrightarrow> gap_count (concat gs) = gap_count (map unit_of gs)"
proof (induction gs)
  case (Cons g gs)
  then show ?case
  proof (cases gs)
    case (Cons h hs)
    then have ne: "g \<noteq> []" "h \<noteq> []" "contiguous g" using Cons.prems by auto
    then have "gap_count (g @ concat gs) =
        (if snd (last g) = fst (hd h) then 0 else 1) + gap_count (concat gs)"
      using Cons by (simp add: gap_count_append gap_count_contiguous)
    with Cons.IH Cons.prems show ?thesis by (simp add: \<open>gs = h # hs\<close> unit_of_def)
  qed (simp add: gap_count_contiguous)
qed simp

lemma closed_units_bound:
  "successively (\<lambda>u v. snd u \<noteq> fst v \<or> t \<le> nat_len u) us \<Longrightarrow>
   t * (length us - 1) \<le> t * gap_count us + sum_list (map nat_len (butlast us))"
  by (induction us rule: gap_count.induct) (auto simp: algebra_simps)

lemma example_sorted:
  "sort_key fst [(20, 25), (0, 8), (8, 12)] = [(0, 8), (8, 12), (20::u64, 25::u64)]"
  by (simp add: sort_key_def)

lemma example_plan:
  "build_index_work_units [(20, 25), (0, 8), (8, 12)] 2 = Some (Ok [(0, 12), (20, 25)])"
  by (simp add: build_index_work_units_def total_length_def range_len_def checked_add_def
    div_ceil_def merge_entries_def merge_step_def example_sorted)

text \<open>
  The number of range reads is at most the requested parallelism plus the number of gaps
  between the entries in archive order: an index without gaps never needs more reads than
  the parallelism it is split for.
\<close>

lemma work_units_bounds:
  assumes "\<forall>r\<in>set entries. valid_range r" "entries \<noteq> []"
    and "build_index_work_units entries max_par = Some (Ok units)"
  shows "length units \<le> unat max_par + gap_count (sort_key fst entries)"
proof -
  from assms(3,1) obtain w target where w: "total_length entries = Ok w" "div_ceil w max_par = Some target"
    and units: "units = map unit_of (runs_of target (sort_key fst entries))"
    by (rule build_Ok)
  let ?xs = "sort_key fst entries" let ?gs = "runs_of target ?xs"
  have valid: "\<forall>r\<in>set ?xs. valid_range r" using assms(1) by simp
  have gaps: "gap_count ?xs = gap_count units"
    using gap_count_concat [of ?gs] runs_of_nonempty runs_of_contiguous
    by (simp add: concat_runs_of units)
  have ne: "units \<noteq> []"
    using assms(2) units by (metis length_0_conv length_sort map_is_Nil_conv runs_of_Nil_iff)
  have "max_par \<noteq> 0" using w(2) by (auto simp: div_ceil_def)
  then have target: "unat w \<le> unat target * unat max_par"
    using unat_div_ceil [OF w(2)] div_round_up_ge [of "unat max_par" "unat w"]
    by (simp add: unat_gt_0)
  have total: "sum_list (map nat_len units) = unat w"
    using units_cover [OF assms(1,3)] total_length_Ok [OF assms(1) w(1)] by simp
  have "valid_range (last units)"
    using units_cover [OF assms(1,3)] ne by simp
  then have "0 < nat_len (last units)" by (simp add: nat_len_def valid_range_def word_less_nat_alt)
  moreover have "sum_list (map nat_len units) = sum_list (map nat_len (butlast units)) + nat_len (last units)"
    using ne by (cases units rule: rev_cases) simp_all
  moreover have "unat target * (length units - 1)
      \<le> unat target * gap_count units + sum_list (map nat_len (butlast units))"
    using runs_of_closed [OF valid] by (intro closed_units_bound) (simp add: units)
  ultimately have "unat target * (length units - 1) < unat target * (gap_count units + unat max_par)"
    using target total by (simp add: distrib_left)
  then show ?thesis using gaps by auto
qed

lemma work_units_bounds_example:
  "length [(0::u64, 12::u64), (20, 25)] \<le> unat (2::usize) + gap_count [(0, 8), (8, 12), (20, 25)]"
  using work_units_bounds [of "[(20, 25), (0, 8), (8, 12)]" 2 "[(0, 12), (20, 25)]"]
  by (simp add: valid_range_def example_plan example_sorted)

lemma work_units_count:
  assumes "\<forall>r\<in>set entries. valid_range r"
    and "build_index_work_units entries max_par = Some (Ok units)"
  shows "length units \<le> unat max_par + gap_count (sort_key fst entries)"
proof (cases "entries = []")
  case True
  with assms(2) have "units = []"
    by (auto simp: build_index_work_units_def total_length_def merge_entries_def split: option.splits result.splits)
  then show ?thesis by simp
next
  case False
  from work_units_bounds [OF assms(1) False assms(2)] show ?thesis .
qed

text \<open>
  C37: When the planner succeeds, the units cover exactly the bytes of the index's entries, are
  non-empty, follow each other in archive order without overlapping, and have the same total
  length, so that no byte is fetched twice and none is missed; and there are at most as many of
  them as the parallelism and the gaps between the entries together.
\<close>

theorem work_units_cover_entries:
  assumes "\<forall>r\<in>set entries. valid_range r"
    and "build_index_work_units entries max_par = Some (Ok units)"
  shows "(\<Union>u\<in>set units. range_bytes u) = (\<Union>r\<in>set entries. range_bytes r)
    \<and> disjoint_sorted units \<and> (\<forall>u\<in>set units. valid_range u)
    \<and> sum_list (map nat_len units) = sum_list (map nat_len entries)
    \<and> length units \<le> unat max_par + gap_count (sort_key fst entries)"
  using units_cover [OF assms] work_units_count [OF assms] by blast

theorem work_units_cover_entries_witness:
  "build_index_work_units [(20, 25), (0, 8), (8, 12)] 2 = Some (Ok [(0, 12), (20, 25)])
    \<and> (\<Union>u\<in>set [(0, 12), (20, 25)]. range_bytes u) = (\<Union>r\<in>set [(20, 25), (0, 8), (8, 12)]. range_bytes r)
    \<and> disjoint_sorted [(0, 12), (20, 25)] \<and> list_all valid_range [(0, 12), (20, 25)]
    \<and> sum_list (map nat_len [(0, 12), (20, 25)]) = sum_list (map nat_len [(20, 25), (0, 8), (8, 12)])
    \<and> 2 \<le> unat (2 :: usize) + gap_count [(0, 8), (8, 12), (20, 25)]"
proof -
  have "\<forall>r\<in>set [(20, 25), (0, 8), (8, 12)]. valid_range r" by (simp add: valid_range_def)
  from work_units_cover_entries [OF this example_plan] example_plan show ?thesis
    unfolding example_sorted list_all_iff by simp
qed

text \<open>
  The plan is balanced: every unit is a run of adjacent entries of the index which, without
  its last entry, is shorter than the target length (the total divided by the parallelism,
  rounded up), and a unit is followed by another one only across a gap or when it has reached
  that target.
\<close>

lemma work_units_balanced:
  assumes "\<forall>r\<in>set entries. valid_range r"
    and "build_index_work_units entries max_par = Some (Ok units)"
  shows "\<exists>runs. concat runs = sort_key fst entries \<and> units = map unit_of runs
    \<and> (\<forall>g\<in>set runs. g \<noteq> [] \<and> contiguous g
        \<and> (butlast g \<noteq> [] \<longrightarrow> nat_len (unit_of (butlast g))
             < (sum_list (map nat_len entries) + unat max_par - 1) div unat max_par))
    \<and> successively (\<lambda>u v. snd u \<noteq> fst v
         \<or> (sum_list (map nat_len entries) + unat max_par - 1) div unat max_par \<le> nat_len u) units"
proof -
  from assms(2,1) obtain w target where w: "total_length entries = Ok w" "div_ceil w max_par = Some target"
    and units: "units = map unit_of (runs_of target (sort_key fst entries))"
    by (rule build_Ok)
  have valid: "\<forall>r\<in>set (sort_key fst entries). valid_range r" using assms(1) by simp
  have target: "unat target = (sum_list (map nat_len entries) + unat max_par - 1) div unat max_par"
    using unat_div_ceil [OF w(2)] total_length_Ok [OF assms(1) w(1)] by simp
  let ?runs = "runs_of target (sort_key fst entries)"
  have greedy: "\<forall>g\<in>set ?runs. g \<noteq> [] \<and> contiguous g
      \<and> (butlast g \<noteq> [] \<longrightarrow> nat_len (unit_of (butlast g)) < unat target)"
    using runs_of_valid(1,3) [OF valid] runs_of_greedy [OF valid] by simp
  have closed: "successively (\<lambda>u v. snd u \<noteq> fst v \<or> unat target \<le> nat_len u) units"
    unfolding units by (rule runs_of_closed [OF valid])
  show ?thesis
    by (rule exI [of _ ?runs]) (use greedy closed units in \<open>simp only: target concat_runs_of simp_thms\<close>)
qed

lemma work_units_balanced_example:
  "\<exists>runs. concat runs = [(0, 8), (8, 12), (20, 25)] \<and> [(0, 12), (20, 25)] = map unit_of runs"
proof -
  have valid: "\<forall>r\<in>set [(20, 25), (0, 8), (8, 12)]. valid_range r" by (simp add: valid_range_def)
  obtain runs where "concat runs = [(0, 8), (8, 12), (20, 25)]" "[(0, 12), (20, 25)] = map unit_of runs"
    using work_units_balanced [OF valid example_plan, unfolded example_sorted] by (elim exE conjE)
  then show ?thesis by (intro exI conjI)
qed

section \<open>The outcome of planning an index\<close>

lemma total_length_decides:
  assumes "\<forall>r\<in>set xs. valid_range r"
  shows "total_length xs = (if sum_list (map nat_len xs) < 2 ^ 64
      then Ok (word_of_nat (sum_list (map nat_len xs)))
      else Err (error_message ''WARC index total length overflows u64''))"
proof -
  have "try_fold (\<lambda>acc entry. ok_or (checked_add acc (range_len entry)) e) a xs
      = (if unat a + sum_list (map nat_len xs) < 2 ^ 64
         then Ok (word_of_nat (unat a + sum_list (map nat_len xs))) else Err e)" for a :: u64 and e :: error
    using assms
  proof (induction xs arbitrary: a)
    case Nil
    then show ?case using unsigned_less [of a, where ?'a = nat] by simp
  next
    case (Cons x xs)
    then have "unat (range_len x) = nat_len x"
      by (intro unat_range_len less_imp_le) (simp add: valid_range_def)
    with Cons show ?case
      by (auto simp: checked_add_def unat_add_no_overflow add.assoc)
  qed
  then show ?thesis by (simp add: total_length_def)
qed

lemma build_decides:
  assumes "\<forall>r\<in>set entries. valid_range r" "max_par \<noteq> 0"
  shows "build_index_work_units entries max_par = Some
    (let total = sum_list (map nat_len entries);
         target = word_of_nat ((total + unat max_par - 1) div unat max_par)
     in if 2 ^ 64 \<le> total then Err (error_message ''WARC index total length overflows u64'')
        else if \<not> pairwise_apart entries then Err overlap_error
        else Ok (map unit_of (runs_of target (sort_key fst entries))))"
proof (cases "sum_list (map nat_len entries) < 2 ^ 64")
  case True
  let ?total = "sum_list (map nat_len entries)"
  have len: "total_length entries = Ok (word_of_nat ?total)" using True by (simp add: total_length_decides [OF assms(1)])
  obtain target where target: "div_ceil (word_of_nat ?total) max_par = Some target" using assms(2) by (auto simp: div_ceil_def)
  have "unat (word_of_nat ?total :: u64) = ?total" using True by (simp add: unat_of_nat)
  then have "unat target = (?total + unat max_par - 1) div unat max_par" using unat_div_ceil [OF target] by simp
  moreover have "word_of_nat (unat target) = target" by simp
  ultimately have "target = word_of_nat ((?total + unat max_par - 1) div unat max_par)" by simp
  then show ?thesis
    using True merge_entries_decides [OF assms(1), of "sort_key fst entries" target]
    by (simp add: build_index_work_units_def len target Let_def)
qed (simp add: build_index_work_units_def total_length_decides [OF assms(1)] Let_def)

text \<open>
  C36: For the entries of any index the reader accepts, and a positive parallelism, planning
  never panics and its outcome is decided by two tests: an error when the entries' lengths
  add up past the width of a u64, an error when two entries overlap (whatever their order in
  the index), and otherwise the units of the runs in archive order, cut once they reach the
  total length divided by the parallelism, rounded up.
\<close>

theorem index_plan_outcome:
  assumes "parse_warc_index J gunzip index gz path = Ok entries" "max_par \<noteq> 0"
  shows "build_index_work_units entries max_par = Some
    (let total = sum_list (map nat_len entries);
         target = word_of_nat ((total + unat max_par - 1) div unat max_par)
     in if 2 ^ 64 \<le> total then Err (error_message ''WARC index total length overflows u64'')
        else if \<not> pairwise_apart entries then Err overlap_error
        else Ok (map unit_of (runs_of target (sort_key fst entries))))"
  by (rule build_decides [OF parse_warc_index_valid(2) [OF assms(1)] assms(2)])

definition json_ref :: "nat json_api" where
  "json_ref = \<lparr>js_from_str = (\<lambda>s. Ok (length s)),
     js_get = (\<lambda>n name. if name = ''filename'' then None else Some n),
     js_as_u64 = (\<lambda>n. Some (word_of_nat n)), js_as_str = (\<lambda>_. None)\<rparr>"

theorem index_plan_outcome_witness:
  "build_index_work_units [(1, 2), (2, 4)] 2 = Some (Ok [(1, 4)])"
proof -
  let ?index = "[CHR ''{'', CHR 0x0A, CHR ''{'', CHR ''}'']"
  have lines: "buf_lines (?index, None) = [Ok ''{'', Ok ''{}'']" by code_simp
  have trims: "trim ''{'' = ''{''" "trim ''{}'' = ''{}''" by code_simp+
  have "parse_warc_index json_ref (\<lambda>b. (b, None)) ?index False ''a.warc'' = Ok [(1, 2), (2, 4)]"
    unfolding parse_warc_index_def
    by (simp add: lines index_line_def trims index_entry_def json_u64_def json_ref_def
      checked_add_def map_filter_simps)
  from index_plan_outcome [OF this, of 2] show ?thesis
    by (simp add: pairwise_apart_def apart_def nat_len_def sort_key_def runs_of_def run_step_def unit_of_def range_len_def)
qed

end
