(* ===== verification/WarcRecords.thy ===== *)
theory WarcRecords
  imports Arrow Source
begin

text \<open>
  \<open>rust/src/source/warc.rs\<close>, the record side: the fixed schema, projections of it, the batch
  builder and the loop that turns a stream of WARC records into Arrow batches. The record
  reader (\<open>warc_rs\<close>) is the list of records or errors it yields, a record the values its
  accessors return. \<open>RecordBatch::try_new\<close> is the argument \<open>rejects\<close>: the error it gives for
  a schema and columns, or none. Row and byte counts are \<open>nat\<close>: the loop keeps them below
  \<open>batch_size\<close> and below 16 MiB plus one body of at most 4 GiB, so no \<open>usize\<close> overflows.
\<close>

datatype warc_header =
    ContentType | ConcurrentTo | BlockDigest | PayloadDigest | IPAddress | RefersTo | TargetURI
  | Truncated | WarcInfoID | Filename | Profile | IdentifiedPayloadType | SegmentNumber
  | SegmentOriginID | SegmentTotalLength

record warc_record =
  rec_warc_id :: string
  rec_content_length :: u64
  rec_date_millis :: i64
  rec_warc_type :: string
  rec_header :: "warc_header \<Rightarrow> string option"
  rec_body :: "(bytes, string) result"

section \<open>Schema and projection\<close>

definition MAX_BATCH_BODY_BYTES :: nat where
  "MAX_BATCH_BODY_BYTES = 16 * 1024 * 1024"

definition BODY_COLUMN_INDEX :: nat where
  "BODY_COLUMN_INDEX = 19"

definition warc_schema :: schema where
  "warc_schema = \<lparr>schema_fields = [
     Field ''id'' Utf8 False [],
     Field ''content_length'' UInt64 False [],
     Field ''date'' (Timestamp Millisecond None) False [],
     Field ''type'' Utf8 False [],
     Field ''content_type'' Utf8 True [],
     Field ''concurrent_to'' Utf8 True [],
     Field ''block_digest'' Utf8 True [],
     Field ''payload_digest'' Utf8 True [],
     Field ''ip_address'' Utf8 True [],
     Field ''refers_to'' Utf8 True [],
     Field ''target_uri'' Utf8 True [],
     Field ''truncated'' Utf8 True [],
     Field ''warc_info_id'' Utf8 True [],
     Field ''filename'' Utf8 True [],
     Field ''profile'' Utf8 True [],
     Field ''identified_payload_type'' Utf8 True [],
     Field ''segment_number'' UInt64 True [],
     Field ''segment_origin_id'' Utf8 True [],
     Field ''segment_total_length'' UInt64 True [],
     Field ''body'' BinaryView False []], schema_metadata = []\<rparr>"

definition optional_u64 :: "string option \<Rightarrow> string \<Rightarrow> u64 option res" where
  "optional_u64 value name = (case value of
     None \<Rightarrow> Ok None
   | Some v \<Rightarrow> map_ok Some (ok_or (parse_u64 v)
       (error_message (''invalid WARC '' @ name @ '': '' @ v))))"

definition optional_header :: "warc_record \<Rightarrow> warc_header \<Rightarrow> string option" where
  "optional_header r h = rec_header r h"

definition string_header :: "nat \<Rightarrow> warc_header option" where
  "string_header index =
    (if index = 4 then Some ContentType
     else if index = 5 then Some ConcurrentTo
     else if index = 6 then Some BlockDigest
     else if index = 7 then Some PayloadDigest
     else if index = 8 then Some IPAddress
     else if index = 9 then Some RefersTo
     else if index = 10 then Some TargetURI
     else if index = 11 then Some Truncated
     else if index = 12 then Some WarcInfoID
     else if index = 13 then Some Filename
     else if index = 14 then Some Profile
     else if index = 15 then Some IdentifiedPayloadType
     else if index = 17 then Some SegmentOriginID
     else None)"

definition invalid_index_error :: "nat \<Rightarrow> error" where
  "invalid_index_error index = error_message (''invalid WARC column index: '' @ show_nat index)"

definition mark_seen :: "bool list \<Rightarrow> nat \<Rightarrow> bool list res" where
  "mark_seen seen index =
     (if index < length seen
      then (if seen ! index
            then Err (error_message (''duplicate WARC column index: '' @ show_nat index))
            else Ok (seen[index := True]))
      else Err (invalid_index_error index))"

definition requested_columns :: "nat list option \<Rightarrow> nat list" where
  "requested_columns projection = (case projection of
     Some p \<Rightarrow> if p \<noteq> [] then p else [0..<length (schema_fields warc_schema)]
   | None \<Rightarrow> [0..<length (schema_fields warc_schema)])"

definition projected_schema :: "nat list option \<Rightarrow> (nat list \<times> field list) res" where
  "projected_schema projection =
     (let p = requested_columns projection in
      and_then (try_fold mark_seen (replicate (length (schema_fields warc_schema)) False) p)
        (\<lambda>_. Ok (p, map (nth (schema_fields warc_schema)) p)))"

section \<open>The batch builder\<close>

datatype column_builder =
    ColUtf8 "string option list"
  | ColUInt64 "u64 option list"
  | ColTimestamp "i64 list"
  | ColBody "bytes list"

definition column_builder_new :: "nat \<Rightarrow> column_builder res" where
  "column_builder_new index =
    (if index = 0 \<or> index = 3 then Ok (ColUtf8 [])
     else if string_header index \<noteq> None then Ok (ColUtf8 [])
     else if index = 1 \<or> index = 16 \<or> index = 18 then Ok (ColUInt64 [])
     else if index = 2 then Ok (ColTimestamp [])
     else if index = BODY_COLUMN_INDEX then Ok (ColBody [])
     else Err (invalid_index_error index))"

record batch_builder =
  bb_len :: nat
  bb_body_bytes :: nat
  bb_projection :: "nat list"
  bb_schema :: "field list"
  bb_columns :: "column_builder list"
  bb_body_position :: "nat option"

definition batch_builder_new :: "nat list \<Rightarrow> field list \<Rightarrow> batch_builder res" where
  "batch_builder_new projection fs =
     and_then (try_map column_builder_new projection) (\<lambda>columns.
       Ok \<lparr>bb_len = 0, bb_body_bytes = 0, bb_projection = projection, bb_schema = fs,
           bb_columns = columns,
           bb_body_position = find_index (\<lambda>i. i = BODY_COLUMN_INDEX) projection\<rparr>)"

definition would_exceed_body_limit :: "batch_builder \<Rightarrow> nat \<Rightarrow> bool" where
  "would_exceed_body_limit b body_len \<longleftrightarrow>
     bb_body_position b \<noteq> None \<and> min (bb_body_bytes b + body_len) (2 ^ 64 - 1) > MAX_BATCH_BODY_BYTES"

text \<open>The replacement and what it replaces.\<close>

definition take_empty :: "batch_builder \<Rightarrow> (batch_builder \<times> batch_builder) res" where
  "take_empty b = map_ok (\<lambda>replacement. (replacement, b))
     (batch_builder_new (bb_projection b) (bb_schema b))"

fun append_column :: "warc_record \<Rightarrow> nat \<times> column_builder \<Rightarrow> column_builder res" where
  "append_column r (index, ColUtf8 vs) =
     (if index = 0 then Ok (ColUtf8 (vs @ [Some (rec_warc_id r)]))
      else if index = 3 then Ok (ColUtf8 (vs @ [Some (rec_warc_type r)]))
      else and_then (ok_or (string_header index)
             (error_message (''invalid WARC string column index: '' @ show_nat index)))
           (\<lambda>h. Ok (ColUtf8 (vs @ [optional_header r h]))))"
| "append_column r (index, ColUInt64 vs) =
     (if index = 1 then Ok (ColUInt64 (vs @ [Some (rec_content_length r)]))
      else if index = 16 then
        map_ok (\<lambda>v. ColUInt64 (vs @ [v]))
          (optional_u64 (optional_header r SegmentNumber) ''segment number'')
      else if index = 18 then
        map_ok (\<lambda>v. ColUInt64 (vs @ [v]))
          (optional_u64 (optional_header r SegmentTotalLength) ''segment total length'')
      else Err (error_message ''WARC column builder type mismatch''))"
| "append_column r (index, ColTimestamp vs) =
     (if index = 2 then Ok (ColTimestamp (vs @ [rec_date_millis r]))
      else Err (error_message ''WARC column builder type mismatch''))"
| "append_column r (index, ColBody vs) =
     (if index = BODY_COLUMN_INDEX then Ok (ColBody vs)
      else Err (error_message ''WARC column builder type mismatch''))"

definition append_metadata :: "warc_record \<Rightarrow> batch_builder \<Rightarrow> batch_builder res" where
  "append_metadata r b =
     map_ok (\<lambda>columns. b\<lparr>bb_columns := columns\<rparr>)
       (try_map (append_column r) (zip (bb_projection b) (bb_columns b)))"

definition append_body :: "bytes \<Rightarrow> batch_builder \<Rightarrow> batch_builder res" where
  "append_body body b =
     (if 2 ^ 32 \<le> length body then Err (error_message ''WARC body exceeds Arrow BinaryView limit'')
      else (case bb_body_position b of
          Some pos \<Rightarrow> (if pos < length (bb_columns b)
            then (case bb_columns b ! pos of
                ColBody vs \<Rightarrow> Ok (b\<lparr>bb_columns := (bb_columns b)[pos := ColBody (vs @ [body])],
                                  bb_body_bytes := bb_body_bytes b + length body\<rparr>)
              | _ \<Rightarrow> Err (error_message ''WARC body column builder type mismatch''))
            else Err (error_message ''WARC body column is not projected''))
        | None \<Rightarrow> Err (error_message ''WARC body column is not projected'')))"

type_synonym batch_check = "field list \<Rightarrow> column_builder list \<Rightarrow> string option"
type_synonym warc_batch = "field list \<times> column_builder list"

definition batch_finish :: "batch_check \<Rightarrow> batch_builder \<Rightarrow> warc_batch res" where
  "batch_finish rejects b = (case rejects (bb_schema b) (bb_columns b) of
     None \<Rightarrow> Ok (bb_schema b, bb_columns b)
   | Some e \<Rightarrow> Err (arrow_error e))"

section \<open>What a projection selects\<close>

lemma length_warc_schema [simp]: "length (schema_fields warc_schema) = 20"
  by (simp add: warc_schema_def)

lemma mark_seen_Ok: "mark_seen seen i = Ok seen' \<longleftrightarrow>
    i < length seen \<and> \<not> seen ! i \<and> seen' = seen[i := True]"
  by (auto simp: mark_seen_def)

lemma mark_seen_fold_Ok: "(\<exists>seen'. try_fold mark_seen seen p = Ok seen') \<longleftrightarrow>
    (\<forall>i\<in>set p. i < length seen \<and> \<not> seen ! i) \<and> distinct p"
proof (induction p arbitrary: seen)
  case (Cons i p)
  then show ?case
    by (auto simp: result_simps mark_seen_Ok nth_list_update split: if_splits)
qed simp

text \<open>The columns a request stands for: distinct indices of the schema.\<close>

definition well_projected :: "nat list \<Rightarrow> bool" where
  "well_projected p \<longleftrightarrow> distinct p \<and> p \<noteq> [] \<and> (\<forall>i\<in>set p. i < 20)"

lemma requested_columns_nonempty: "requested_columns projection \<noteq> []"
  by (simp add: requested_columns_def split: option.splits)

lemma projected_schema_Ok: "projected_schema projection = Ok (p, fs) \<longleftrightarrow>
    p = requested_columns projection \<and> well_projected p
    \<and> fs = map (nth (schema_fields warc_schema)) p"
proof -
  let ?p = "requested_columns projection"
  have "(\<exists>seen. try_fold mark_seen (replicate 20 False) ?p = Ok seen) \<longleftrightarrow> well_projected ?p"
    by (auto simp: mark_seen_fold_Ok well_projected_def requested_columns_nonempty)
  then show ?thesis
    by (auto simp: projected_schema_def Let_def result_simps)
qed

text \<open>The index a rejected request is blamed on: the first one out of range or repeated.\<close>

lemma mark_seen_fold_Err:
  "try_fold mark_seen seen p = Err e \<Longrightarrow>
   \<exists>us i vs. p = us @ i # vs \<and> (\<forall>j\<in>set us. j < length seen \<and> \<not> seen ! j) \<and> distinct us
     \<and> (length seen \<le> i \<and> e = invalid_index_error i
        \<or> i < length seen \<and> (seen ! i \<or> i \<in> set us)
          \<and> e = error_message (''duplicate WARC column index: '' @ show_nat i))"
proof (induction p arbitrary: seen)
  case (Cons i p)
  show ?case
  proof (cases "mark_seen seen i")
    case (Err e')
    with Cons.prems have "e' = e" by simp
    with Err show ?thesis
      by (intro exI [of _ "[]"] exI [of _ i] exI [of _ p]) (auto simp: mark_seen_def split: if_splits)
  next
    case (Ok s)
    then have s: "i < length seen" "\<not> seen ! i" "s = seen[i := True]"
      by (auto simp: mark_seen_Ok)
    from Cons.prems Ok have "try_fold mark_seen s p = Err e" by simp
    from Cons.IH [OF this] obtain us j vs where j: "p = us @ j # vs"
      "\<forall>k\<in>set us. k < length s \<and> \<not> s ! k" "distinct us"
      "length s \<le> j \<and> e = invalid_index_error j
        \<or> j < length s \<and> (s ! j \<or> j \<in> set us)
          \<and> e = error_message (''duplicate WARC column index: '' @ show_nat j)" by blast
    have "i \<notin> set us" using j(2) s by auto
    with j s show ?thesis
      by (intro exI [of _ "i # us"] exI [of _ j] exI [of _ vs])
        (auto simp: nth_list_update split: if_splits)
  qed
qed simp

text \<open>
  A requested projection is accepted exactly when it lists distinct columns of the schema
  (none, or an empty one, means all twenty), and what comes back is the request in its own
  order with the schema's fields at those positions; a rejected one is blamed on its first
  index that is out of range or repeats an earlier one.
\<close>

lemma projected_schema_outcome:
  "(case projected_schema projection of
      Ok (p, fs) \<Rightarrow> p = requested_columns projection \<and> distinct p \<and> list_all (\<lambda>i. i < 20) p
        \<and> fs = map (nth (schema_fields warc_schema)) p
    | Err e \<Rightarrow> \<exists>us i vs. requested_columns projection = us @ i # vs
        \<and> distinct us \<and> list_all (\<lambda>j. j < 20) us
        \<and> (if i < 20 then i \<in> set us
             \<and> e = error_message (''duplicate WARC column index: '' @ show_nat i)
           else e = invalid_index_error i))"
proof (cases "projected_schema projection")
  case (Ok pf)
  obtain p fs where pf: "pf = (p, fs)" by fastforce
  with Ok have "projected_schema projection = Ok (p, fs)" by simp
  then have "p = requested_columns projection \<and> well_projected p
      \<and> fs = map (nth (schema_fields warc_schema)) p" unfolding projected_schema_Ok .
  with Ok pf show ?thesis by (auto simp: well_projected_def list_all_iff)
next
  case (Err e)
  then have "try_fold mark_seen (replicate 20 False) (requested_columns projection) = Err e"
    by (simp add: projected_schema_def Let_def result_simps)
  from mark_seen_fold_Err [OF this] obtain us i vs where i: "requested_columns projection = us @ i # vs"
    "\<forall>j\<in>set us. j < 20" "distinct us"
    "20 \<le> i \<and> e = invalid_index_error i
      \<or> i < 20 \<and> i \<in> set us \<and> e = error_message (''duplicate WARC column index: '' @ show_nat i)"
    by auto
  then have "requested_columns projection = us @ i # vs \<and> distinct us \<and> list_all (\<lambda>j. j < 20) us
     \<and> (if i < 20 then i \<in> set us
          \<and> e = error_message (''duplicate WARC column index: '' @ show_nat i)
        else e = invalid_index_error i)"
    by (auto simp: list_all_iff)
  then show ?thesis unfolding Err result.case by blast
qed

section \<open>The columns of a list of records\<close>

text \<open>
  Specification: column \<open>i\<close> of the records \<open>rs\<close>, cell by cell; and the builder that holds
  exactly the rows \<open>rs\<close> of a projection.
\<close>

definition u64_header :: "warc_record \<Rightarrow> warc_header \<Rightarrow> u64 option" where
  "u64_header r h = Option.bind (rec_header r h) parse_u64"

definition body_of :: "warc_record \<Rightarrow> bytes" where
  "body_of r = (case rec_body r of Ok b \<Rightarrow> b | Err _ \<Rightarrow> [])"

definition column_of :: "nat \<Rightarrow> warc_record list \<Rightarrow> column_builder" where
  "column_of i rs =
     (if i = 0 then ColUtf8 (map (Some \<circ> rec_warc_id) rs)
      else if i = 1 then ColUInt64 (map (Some \<circ> rec_content_length) rs)
      else if i = 2 then ColTimestamp (map rec_date_millis rs)
      else if i = 3 then ColUtf8 (map (Some \<circ> rec_warc_type) rs)
      else if i = 16 then ColUInt64 (map (\<lambda>r. u64_header r SegmentNumber) rs)
      else if i = 18 then ColUInt64 (map (\<lambda>r. u64_header r SegmentTotalLength) rs)
      else if i = 19 then ColBody (map body_of rs)
      else ColUtf8 (map (\<lambda>r. rec_header r (the (string_header i))) rs))"

definition body_size :: "nat list \<Rightarrow> warc_record list \<Rightarrow> nat" where
  "body_size p rs = (if BODY_COLUMN_INDEX \<in> set p
     then sum_list (map (\<lambda>r. unat (rec_content_length r)) rs) else 0)"

definition builder_of :: "nat list \<Rightarrow> field list \<Rightarrow> warc_record list \<Rightarrow> batch_builder" where
  "builder_of p fs rs = \<lparr>bb_len = length rs, bb_body_bytes = body_size p rs, bb_projection = p,
     bb_schema = fs, bb_columns = map (\<lambda>i. column_of i rs) p,
     bb_body_position = find_index (\<lambda>i. i = BODY_COLUMN_INDEX) p\<rparr>"

text \<open>The records a projection can be read from: its numeric headers parse, its body arrives whole.\<close>

definition numeric_or_absent :: "warc_record \<Rightarrow> warc_header \<Rightarrow> bool" where
  "numeric_or_absent r h \<longleftrightarrow> (case rec_header r h of None \<Rightarrow> True | Some v \<Rightarrow> parse_u64 v \<noteq> None)"

definition body_arrives :: "warc_record \<Rightarrow> bool" where
  "body_arrives r \<longleftrightarrow> (case rec_body r of Ok b \<Rightarrow> length b = unat (rec_content_length r) | Err _ \<Rightarrow> False)
     \<and> unat (rec_content_length r) < 2 ^ 32"

definition readable :: "nat list \<Rightarrow> warc_record \<Rightarrow> bool" where
  "readable p r \<longleftrightarrow> (16 \<in> set p \<longrightarrow> numeric_or_absent r SegmentNumber)
     \<and> (18 \<in> set p \<longrightarrow> numeric_or_absent r SegmentTotalLength)
     \<and> (19 \<in> set p \<longrightarrow> body_arrives r)"

lemma index_cases [consumes 1]:
  assumes "i < 20"
  obtains "i = 0" | "i = 1" | "i = 2" | "i = 3" | "i = 16" | "i = 18" | "i = 19"
    | h where "string_header i = Some h" "i \<notin> {0, 1, 2, 3, 16, 18, 19}"
proof (cases "string_header i")
  case (Some h)
  then have "i \<notin> {0, 1, 2, 3, 16, 18, 19}"
    by (cases "i = 0") (auto simp: string_header_def)
  with Some show ?thesis by (rule that(8))
next
  case None
  then have "i \<noteq> 4 \<and> i \<noteq> 5 \<and> i \<noteq> 6 \<and> i \<noteq> 7 \<and> i \<noteq> 8 \<and> i \<noteq> 9 \<and> i \<noteq> 10 \<and> i \<noteq> 11
      \<and> i \<noteq> 12 \<and> i \<noteq> 13 \<and> i \<noteq> 14 \<and> i \<noteq> 15 \<and> i \<noteq> 17"
    by (auto simp: string_header_def split: if_splits)
  with assms have "i = 0 \<or> i = 1 \<or> i = 2 \<or> i = 3 \<or> i = 16 \<or> i = 18 \<or> i = 19" by presburger
  then show ?thesis using that(1-7) by blast
qed

lemma column_builder_new_empty: "i < 20 \<Longrightarrow> column_builder_new i = Ok (column_of i [])"
  by (cases rule: index_cases)
    (auto simp: column_builder_new_def column_of_def BODY_COLUMN_INDEX_def string_header_def)

lemma batch_builder_new_empty:
  assumes "well_projected p"
  shows "batch_builder_new p fs = Ok (builder_of p fs [])"
proof -
  have "try_map column_builder_new p = Ok (map (\<lambda>i. column_of i []) p)"
    using assms by (intro try_map_pure column_builder_new_empty) (simp add: well_projected_def)
  then show ?thesis by (simp add: batch_builder_new_def builder_of_def body_size_def)
qed

lemma take_empty_builder: "well_projected p \<Longrightarrow>
    take_empty (builder_of p fs rs) = Ok (builder_of p fs [], builder_of p fs rs)"
  by (simp add: take_empty_def batch_builder_new_empty) (simp add: builder_of_def batch_builder_new_empty)

lemma optional_u64_header: "numeric_or_absent r h \<Longrightarrow>
    optional_u64 (optional_header r h) n = Ok (u64_header r h)"
  by (cases "rec_header r h")
    (auto simp: optional_u64_def optional_header_def numeric_or_absent_def u64_header_def)

text \<open>The body column's cell comes with the body, the others with the metadata.\<close>

lemma append_column_row:
  assumes "i < 20" "readable p r" "i \<in> set p"
  shows "append_column r (i, column_of i rs)
    = Ok (if i = BODY_COLUMN_INDEX then column_of i rs else column_of i (rs @ [r]))"
  using assms(1)
proof (cases rule: index_cases)
  case 5
  with assms show ?thesis
    by (simp add: column_of_def readable_def optional_u64_header BODY_COLUMN_INDEX_def)
next
  case 6
  with assms show ?thesis
    by (simp add: column_of_def readable_def optional_u64_header BODY_COLUMN_INDEX_def)
next
  case (8 h)
  then show ?thesis by (simp add: column_of_def BODY_COLUMN_INDEX_def optional_header_def)
qed (simp_all add: column_of_def BODY_COLUMN_INDEX_def)

lemma append_metadata_row:
  assumes "well_projected p" "readable p r"
  shows "append_metadata r (builder_of p fs rs) = Ok ((builder_of p fs rs)
    \<lparr>bb_columns := map (\<lambda>i. if i = BODY_COLUMN_INDEX then column_of i rs else column_of i (rs @ [r])) p\<rparr>)"
proof -
  let ?g = "\<lambda>i. if i = BODY_COLUMN_INDEX then column_of i rs else column_of i (rs @ [r])"
  have "try_map (append_column r) (zip p (map (\<lambda>i. column_of i rs) p)) = Ok (map (?g \<circ> fst) (zip p (map (\<lambda>i. column_of i rs) p)))"
  proof (rule try_map_pure)
    fix x assume "x \<in> set (zip p (map (\<lambda>i. column_of i rs) p))"
    then obtain i where "i \<in> set p" "x = (i, column_of i rs)"
      by (auto simp: zip_map2 zip_same_conv_map)
    with assms show "append_column r x = Ok ((?g \<circ> fst) x)"
      using append_column_row [of i p r rs] by (simp add: well_projected_def)
  qed
  moreover have "map (?g \<circ> fst) (zip p (map (\<lambda>i. column_of i rs) p)) = map ?g p"
    by (simp add: map_map [symmetric] del: map_map)
  ultimately show ?thesis by (simp add: append_metadata_def builder_of_def)
qed

text \<open>Appending a readable record to the builder of \<open>rs\<close> gives the builder of \<open>rs @ [r]\<close>.\<close>

lemma append_body_row:
  assumes "well_projected p" "BODY_COLUMN_INDEX \<in> set p" "rec_body r = Ok b" "body_arrives r"
    "bb_columns B = map (\<lambda>i. if i = BODY_COLUMN_INDEX then column_of i rs else column_of i (rs @ [r])) p"
    "bb_body_position B = find_index (\<lambda>i. i = BODY_COLUMN_INDEX) p" "bb_body_bytes B = body_size p rs"
  shows "append_body b B = Ok (B\<lparr>bb_columns := map (\<lambda>i. column_of i (rs @ [r])) p,
    bb_body_bytes := body_size p (rs @ [r])\<rparr>)"
proof -
  obtain k where k: "find_index (\<lambda>i. i = BODY_COLUMN_INDEX) p = Some k"
    using assms(2) find_index_None [of "\<lambda>i. i = BODY_COLUMN_INDEX" p] by fastforce
  then have pk: "k < length p" "p ! k = BODY_COLUMN_INDEX" using find_index_Some by fastforce+
  have b: "length b = unat (rec_content_length r)" "length b < 2 ^ 32" "body_of r = b"
    using assms(3,4) by (simp_all add: body_arrives_def body_of_def)
  have "(map (\<lambda>i. if i = BODY_COLUMN_INDEX then column_of i rs else column_of i (rs @ [r])) p)
      [k := ColBody (map body_of rs @ [b])] = map (\<lambda>i. column_of i (rs @ [r])) p"
  proof (rule nth_equalityI)
    fix j assume "j < length ((map (\<lambda>i. if i = BODY_COLUMN_INDEX then column_of i rs
        else column_of i (rs @ [r])) p)[k := ColBody (map body_of rs @ [b])])"
    moreover from this have "j \<noteq> k \<Longrightarrow> p ! j \<noteq> BODY_COLUMN_INDEX"
      using assms(1) pk nth_eq_iff_index_eq [of p j k] by (auto simp: well_projected_def)
    ultimately show "(map (\<lambda>i. if i = BODY_COLUMN_INDEX then column_of i rs
        else column_of i (rs @ [r])) p)[k := ColBody (map body_of rs @ [b])] ! j
      = map (\<lambda>i. column_of i (rs @ [r])) p ! j"
      using pk b by (cases "j = k") (simp_all add: column_of_def BODY_COLUMN_INDEX_def)
  qed simp
  moreover have "column_of BODY_COLUMN_INDEX rs = ColBody (map body_of rs)"
    by (simp add: column_of_def BODY_COLUMN_INDEX_def)
  ultimately show ?thesis
    using assms(2,5-7) k pk b by (simp add: append_body_def body_size_def not_le)
qed

section \<open>Batches that Arrow accepts\<close>

text \<open>
  What \<open>RecordBatch::try_new\<close> documents: one column or more, one per field, of the field's
  type, all of one length, and no null in a column that is not nullable.
\<close>

fun column_type :: "column_builder \<Rightarrow> data_type" where
  "column_type (ColUtf8 _) = Utf8"
| "column_type (ColUInt64 _) = UInt64"
| "column_type (ColTimestamp _) = Timestamp Millisecond None"
| "column_type (ColBody _) = BinaryView"

fun column_length :: "column_builder \<Rightarrow> nat" where
  "column_length (ColUtf8 vs) = length vs"
| "column_length (ColUInt64 vs) = length vs"
| "column_length (ColTimestamp vs) = length vs"
| "column_length (ColBody vs) = length vs"

fun column_has_null :: "column_builder \<Rightarrow> bool" where
  "column_has_null (ColUtf8 vs) \<longleftrightarrow> None \<in> set vs"
| "column_has_null (ColUInt64 vs) \<longleftrightarrow> None \<in> set vs"
| "column_has_null (ColTimestamp vs) \<longleftrightarrow> False"
| "column_has_null (ColBody vs) \<longleftrightarrow> False"

definition well_formed_batch :: "field list \<Rightarrow> column_builder list \<Rightarrow> bool" where
  "well_formed_batch fs cols \<longleftrightarrow> cols \<noteq> [] \<and> list_all2 (\<lambda>f c. column_type c = field_type f
     \<and> (column_has_null c \<longrightarrow> field_nullable f) \<and> column_length c = column_length (hd cols)) fs cols"

definition try_new_documented :: "batch_check \<Rightarrow> bool" where
  "try_new_documented rejects \<longleftrightarrow> (\<forall>fs cols. rejects fs cols = None \<longleftrightarrow> well_formed_batch fs cols)"

definition check_batch :: batch_check where
  "check_batch fs cols = (if well_formed_batch fs cols then None else Some ''invalid columns'')"

lemma check_batch_documented [simp]: "try_new_documented check_batch"
  by (simp add: try_new_documented_def check_batch_def)

lemma column_length_column_of [simp]: "column_length (column_of i rs) = length rs"
  by (simp add: column_of_def)

lemma index_split: "i < 20 \<longleftrightarrow> i \<in> set [0, 1, 2, 3, 4, 5, 6, 7, 8, 9, 10, 11, 12, 13, 14, 15, 16, 17, 18, 19]"
  for i :: nat
  by (simp, presburger)

lemma column_of_fits:
  assumes "i < 20"
  shows "column_type (column_of i rs) = field_type (schema_fields warc_schema ! i)"
    and "column_has_null (column_of i rs) \<Longrightarrow> field_nullable (schema_fields warc_schema ! i)"
  using assms unfolding index_split
  by (auto simp: column_of_def warc_schema_def)

lemma projected_batch_well_formed:
  assumes "well_projected p"
  shows "well_formed_batch (map (nth (schema_fields warc_schema)) p) (map (\<lambda>i. column_of i rs) p)"
  using assms column_of_fits
  by (auto simp: well_formed_batch_def well_projected_def list_all2_conv_all_nth hd_map)

end
