(* ===== verification/WarcStream.thy ===== *)
theory WarcStream
  imports WarcRecords
begin

text \<open>
  \<open>rust/src/source/warc.rs\<close>, the stream side: the bounded channel of \<open>spawn_records\<close> and the loop
  that fills and flushes batches. A channel is what was sent and how many more sends the
  consumer takes; the loop runs to the end of the records, the first error, or the consumer's
  hang-up. Lemmas: the loop refines a greedy partition of the records into chunks, and
  hanging up only truncates the items.
\<close>

section \<open>The channel and the loop\<close>

text \<open>
  What was sent to the consumer, and how many more sends it takes before it drops the stream
  (\<open>None\<close>: it reads to the end).
\<close>

record 'a channel =
  ch_sent :: "'a list"
  ch_accepts :: "nat option"

fun channel_send :: "'a \<Rightarrow> 'a channel \<Rightarrow> bool \<times> 'a channel" where
  "channel_send x ch = (case ch_accepts ch of
     None \<Rightarrow> (True, ch\<lparr>ch_sent := ch_sent ch @ [x]\<rparr>)
   | Some 0 \<Rightarrow> (False, ch)
   | Some (Suc n) \<Rightarrow> (True, ch\<lparr>ch_sent := ch_sent ch @ [x], ch_accepts := Some n\<rparr>))"

type_synonym warc_item = "warc_batch res"

definition send_batch ::
  "batch_check \<Rightarrow> batch_builder \<Rightarrow> warc_item channel \<Rightarrow> bool res \<times> warc_item channel" where
  "send_batch rejects b ch = (case batch_finish rejects b of
     Err e \<Rightarrow> (Err e, ch)
   | Ok batch \<Rightarrow> (case channel_send (Ok batch) ch of (sent, ch') \<Rightarrow> (Ok sent, ch')))"

text \<open>
  \<open>batch.take_empty(..)\<close> then \<open>send_batch\<close>: the batch to go on with, or how the loop returns.
\<close>

definition flush_batch ::
  "batch_check \<Rightarrow> batch_builder \<Rightarrow> warc_item channel
     \<Rightarrow> (batch_builder, unit res) result \<times> warc_item channel" where
  "flush_batch rejects b ch = (case take_empty b of
     Err e \<Rightarrow> (Err (Err e), ch)
   | Ok (replacement, old) \<Rightarrow> (case send_batch rejects old ch of
       (Err e, ch') \<Rightarrow> (Err (Err e), ch')
     | (Ok False, ch') \<Rightarrow> (Err (Ok ()), ch')
     | (Ok True, ch') \<Rightarrow> (Ok replacement, ch')))"

definition record_body_len :: "bool \<Rightarrow> warc_record \<Rightarrow> nat res" where
  "record_body_len include_body r =
     (if include_body
      then (if unat (rec_content_length r) < 2 ^ 32 then Ok (unat (rec_content_length r))
            else Err (error_message ''WARC body exceeds Arrow BinaryView limit''))
      else Ok 0)"

definition append_record :: "bool \<Rightarrow> warc_record \<Rightarrow> batch_builder \<Rightarrow> batch_builder res" where
  "append_record include_body r b =
     and_then (append_metadata r b) (\<lambda>b1.
     and_then (if include_body
       then and_then (map_err (\<lambda>e. error_message (''WARC body error: '' @ e)) (rec_body r))
              (\<lambda>body. append_body body b1)
       else Ok b1) (\<lambda>b2. Ok (b2\<lparr>bb_len := bb_len b2 + 1\<rparr>)))"

definition flush_if ::
  "batch_check \<Rightarrow> bool \<Rightarrow> batch_builder \<Rightarrow> warc_item channel
     \<Rightarrow> (batch_builder, unit res) result \<times> warc_item channel" where
  "flush_if rejects due b ch = (if due then flush_batch rejects b ch else (Ok b, ch))"

text \<open>The second half of a turn: append the record and flush a batch it completes.\<close>

definition append_turn ::
  "batch_check \<Rightarrow> nat \<Rightarrow> bool \<Rightarrow> warc_record \<Rightarrow> batch_builder \<Rightarrow> warc_item channel
    \<Rightarrow> (batch_builder, unit res) result \<times> warc_item channel" where
  "append_turn rejects batch_size include_body r b ch = (case append_record include_body r b of
     Err e \<Rightarrow> (Err (Err e), ch)
   | Ok b' \<Rightarrow> flush_if rejects (bb_len b' = batch_size \<or> bb_body_bytes b' \<ge> MAX_BATCH_BODY_BYTES) b' ch)"

text \<open>One turn of the loop: the batch to go on with, or how the loop returns.\<close>

definition record_step ::
  "batch_check \<Rightarrow> nat \<Rightarrow> bool \<Rightarrow> (warc_record, string) result
    \<Rightarrow> batch_builder \<Rightarrow> warc_item channel
    \<Rightarrow> (batch_builder, unit res) result \<times> warc_item channel" where
  "record_step rejects batch_size include_body item b ch =
    (case and_then (map_err (\<lambda>e. error_message (''WARC parse error: '' @ e)) item)
            (\<lambda>r. map_ok (Pair r) (record_body_len include_body r)) of
       Err e \<Rightarrow> (Err (Err e), ch)
     | Ok (r, body_len) \<Rightarrow>
        (case flush_if rejects (bb_len b > 0 \<and> would_exceed_body_limit b body_len) b ch of
           (Err stop, ch1) \<Rightarrow> (Err stop, ch1)
         | (Ok b1, ch1) \<Rightarrow> append_turn rejects batch_size include_body r b1 ch1))"

text \<open>
  The loop over what the reader yields; if it then panics (\<open>crash\<close>), so does the task, and the
  batch it was filling is lost. The task's end is the result of joining it.
\<close>

type_synonym task_end = "(unit res, string) result"

fun record_loop ::
  "batch_check \<Rightarrow> nat \<Rightarrow> bool \<Rightarrow> (warc_record, string) result list \<Rightarrow> string option
    \<Rightarrow> batch_builder \<Rightarrow> warc_item channel \<Rightarrow> task_end \<times> warc_item channel" where
  "record_loop rejects batch_size include_body [] (Some panic) b ch = (Err panic, ch)"
| "record_loop rejects batch_size include_body [] None b ch =
     (if bb_len b > 0
      then (case send_batch rejects b ch of (Err e, ch') \<Rightarrow> (Ok (Err e), ch') | (Ok _, ch') \<Rightarrow> (Ok (Ok ()), ch'))
      else (Ok (Ok ()), ch))"
| "record_loop rejects batch_size include_body (item # items) crash b ch =
     (case record_step rejects batch_size include_body item b ch of
        (Err stop, ch') \<Rightarrow> (Ok stop, ch')
      | (Ok b', ch') \<Rightarrow> record_loop rejects batch_size include_body items crash b' ch')"

definition stream_records ::
  "batch_check \<Rightarrow> nat \<Rightarrow> nat list \<Rightarrow> field list \<Rightarrow> (warc_record, string) result list \<Rightarrow> string option
    \<Rightarrow> warc_item channel \<Rightarrow> task_end \<times> warc_item channel" where
  "stream_records rejects batch_size projection fs items crash ch =
     (case batch_builder_new projection fs of
        Err e \<Rightarrow> (Ok (Err e), ch)
      | Ok b \<Rightarrow> record_loop rejects batch_size (BODY_COLUMN_INDEX \<in> set projection) items crash b ch)"

text \<open>
  The task of \<open>spawn_records\<close>: an error of the loop is sent as the last item, a panic is an item
  after those sent, and these are the stream the consumer sees.
\<close>

definition spawn_records ::
  "batch_check \<Rightarrow> nat \<Rightarrow> nat list \<Rightarrow> field list \<Rightarrow> (warc_record, string) result list \<Rightarrow> string option
    \<Rightarrow> nat option \<Rightarrow> warc_item list" where
  "spawn_records rejects batch_size projection fs items crash accepts =
     (case stream_records rejects batch_size projection fs items crash
             \<lparr>ch_sent = [], ch_accepts = accepts\<rparr> of
        (Ok (Ok _), ch) \<Rightarrow> ch_sent ch
      | (Ok (Err e), ch) \<Rightarrow> ch_sent (snd (channel_send (Err e) ch))
      | (Err panic, ch) \<Rightarrow> ch_sent (snd (channel_send (Err (error_message (''panic in WARC parser: '' @ panic))) ch)))"

section \<open>Specification: a greedy partition into chunks\<close>

definition chunk_add :: "nat \<Rightarrow> nat list \<Rightarrow> warc_record list list \<times> warc_record list \<Rightarrow> warc_record
    \<Rightarrow> warc_record list list \<times> warc_record list" where
  "chunk_add n p s r =
     (if length (snd s) + 1 = n \<or> body_size p (snd s @ [r]) \<ge> MAX_BATCH_BODY_BYTES
      then (fst s @ [snd s @ [r]], []) else (fst s, snd s @ [r]))"

definition chunk_step :: "nat \<Rightarrow> nat list \<Rightarrow> warc_record list list \<times> warc_record list \<Rightarrow> warc_record
    \<Rightarrow> warc_record list list \<times> warc_record list" where
  "chunk_step n p s r = chunk_add n p
     (if snd s \<noteq> [] \<and> body_size p (snd s @ [r]) > MAX_BATCH_BODY_BYTES
      then (fst s @ [snd s], []) else s) r"

definition chunk_fold :: "nat \<Rightarrow> nat list \<Rightarrow> warc_record list \<Rightarrow> warc_record list list \<times> warc_record list" where
  "chunk_fold n p rs = foldl (chunk_step n p) ([], []) rs"

text \<open>A chunk's limits, and why one chunk ends where the next begins.\<close>

definition chunk_fits :: "nat \<Rightarrow> nat list \<Rightarrow> warc_record list \<Rightarrow> bool" where
  "chunk_fits n p c \<longleftrightarrow> c \<noteq> [] \<and> length c \<le> n \<and> (body_size p c \<le> MAX_BATCH_BODY_BYTES \<or> length c = 1)"

definition chunk_full :: "nat \<Rightarrow> nat list \<Rightarrow> warc_record list \<Rightarrow> bool" where
  "chunk_full n p c \<longleftrightarrow> length c = n \<or> MAX_BATCH_BODY_BYTES \<le> body_size p c"

definition chunk_closed :: "nat \<Rightarrow> nat list \<Rightarrow> warc_record list \<Rightarrow> warc_record list \<Rightarrow> bool" where
  "chunk_closed n p c d \<longleftrightarrow> chunk_full n p c \<or> MAX_BATCH_BODY_BYTES < body_size p (c @ [hd d])"

lemma body_size_Nil [simp]: "body_size p [] = 0"
  by (simp add: body_size_def)

lemma MAX_BATCH_BODY_BYTES_pos: "0 < MAX_BATCH_BODY_BYTES"
  by (simp add: MAX_BATCH_BODY_BYTES_def)

definition chunk_inv :: "nat \<Rightarrow> nat list \<Rightarrow> warc_record list \<Rightarrow> warc_record list list \<times> warc_record list \<Rightarrow> bool" where
  "chunk_inv n p rs s \<longleftrightarrow> concat (fst s) @ snd s = rs \<and> list_all (chunk_fits n p) (fst s)
     \<and> length (snd s) < n \<and> body_size p (snd s) < MAX_BATCH_BODY_BYTES
     \<and> (if snd s = [] then successively (chunk_closed n p) (fst s) \<and> (fst s \<noteq> [] \<longrightarrow> chunk_full n p (last (fst s)))
        else successively (chunk_closed n p) (fst s @ [snd s]))"

text \<open>Closing the pending chunk because the next record would overflow it.\<close>

lemma chunk_inv_flush:
  assumes "chunk_inv n p rs (cs, pend)" "pend \<noteq> []"
  shows "concat (cs @ [pend]) = rs" "list_all (chunk_fits n p) (cs @ [pend])"
    "successively (chunk_closed n p) (cs @ [pend])"
  using assms by (auto simp: chunk_inv_def chunk_fits_def)

text \<open>Adding a record to an open chunk it fits in.\<close>

lemma chunk_inv_add:
  assumes "concat cs @ pend = rs" "list_all (chunk_fits n p) cs" "length pend < n"
    "pend \<noteq> [] \<longrightarrow> body_size p (pend @ [r]) \<le> MAX_BATCH_BODY_BYTES"
    "successively (chunk_closed n p) (cs @ [pend @ [r]])"
  shows "chunk_inv n p (rs @ [r]) (chunk_add n p (cs, pend) r)"
  using assms MAX_BATCH_BODY_BYTES_pos
  by (auto simp: chunk_add_def chunk_inv_def chunk_fits_def chunk_full_def)

lemma chunk_step_inv:
  assumes "chunk_inv n p rs s"
  shows "chunk_inv n p (rs @ [r]) (chunk_step n p s r)"
proof -
  obtain cs pend where s: "s = (cs, pend)" by fastforce
  note inv = assms [unfolded s chunk_inv_def, simplified]
  have n: "0 < n" using inv by auto
  show ?thesis
  proof (cases "pend \<noteq> [] \<and> body_size p (pend @ [r]) > MAX_BATCH_BODY_BYTES")
    case True
    then have "successively (chunk_closed n p) ((cs @ [pend]) @ [[r]])"
      using chunk_inv_flush(3) [OF assms [unfolded s]]
      by (auto simp: successively_append_iff chunk_closed_def)
    moreover have "concat (cs @ [pend]) @ [] = rs" "list_all (chunk_fits n p) (cs @ [pend])"
      using True chunk_inv_flush(1,2) [OF assms [unfolded s]] by simp_all
    ultimately show ?thesis
      using chunk_inv_add [of "cs @ [pend]" "[]" rs n p r] n True
      by (simp add: chunk_step_def s)
  next
    case False
    have "successively (chunk_closed n p) (cs @ [pend @ [r]])"
    proof (cases "pend = []")
      case True
      with inv show ?thesis
        by (cases cs rule: rev_cases) (auto simp: successively_append_iff chunk_closed_def)
    next
      case False
      with inv show ?thesis
        by (cases cs rule: rev_cases) (auto simp: successively_append_iff chunk_closed_def)
    qed
    with inv False have "chunk_inv n p (rs @ [r]) (chunk_add n p (cs, pend) r)"
      by (intro chunk_inv_add) auto
    moreover have "chunk_step n p s r = chunk_add n p (cs, pend) r"
      using False by (auto simp: chunk_step_def s)
    ultimately show ?thesis by simp
  qed
qed

lemma chunk_fold_inv: "0 < n \<Longrightarrow> chunk_inv n p rs (chunk_fold n p rs)"
proof (induction rs rule: rev_induct)
  case Nil
  then show ?case by (simp add: chunk_fold_def chunk_inv_def MAX_BATCH_BODY_BYTES_pos)
next
  case (snoc r rs)
  then show ?case using chunk_step_inv by (simp add: chunk_fold_def)
qed

section \<open>The loop refines the partition\<close>

definition batch_of :: "nat list \<Rightarrow> field list \<Rightarrow> warc_record list \<Rightarrow> warc_batch" where
  "batch_of p fs c = (fs, map (\<lambda>i. column_of i c) p)"

text \<open>A consumer that reads to the end and has been sent the chunks \<open>cs\<close>.\<close>

definition sent_chunks :: "nat list \<Rightarrow> field list \<Rightarrow> warc_record list list \<Rightarrow> warc_item channel" where
  "sent_chunks p fs cs = \<lparr>ch_sent = map (Ok \<circ> batch_of p fs) cs, ch_accepts = None\<rparr>"

lemma builder_of_sel [simp]:
  "bb_len (builder_of p fs rs) = length rs" "bb_body_bytes (builder_of p fs rs) = body_size p rs"
  "bb_projection (builder_of p fs rs) = p" "bb_schema (builder_of p fs rs) = fs"
  "bb_columns (builder_of p fs rs) = map (\<lambda>i. column_of i rs) p"
  by (simp_all add: builder_of_def)

lemma append_record_row:
  assumes "well_projected p" "readable p r"
  shows "append_record (BODY_COLUMN_INDEX \<in> set p) r (builder_of p fs rs) = Ok (builder_of p fs (rs @ [r]))"
proof (cases "BODY_COLUMN_INDEX \<in> set p")
  case True
  then have arrives: "body_arrives r" using assms(2) by (simp add: readable_def BODY_COLUMN_INDEX_def)
  then obtain b where b: "rec_body r = Ok b"
    by (auto simp: body_arrives_def split: result.splits)
  let ?B = "(builder_of p fs rs)\<lparr>bb_columns :=
    map (\<lambda>i. if i = BODY_COLUMN_INDEX then column_of i rs else column_of i (rs @ [r])) p\<rparr>"
  have "append_body b ?B = Ok (?B\<lparr>bb_columns := map (\<lambda>i. column_of i (rs @ [r])) p,
      bb_body_bytes := body_size p (rs @ [r])\<rparr>)"
    using assms(1) True b arrives by (rule append_body_row) (simp_all add: builder_of_def)
  with True b show ?thesis
    by (simp add: append_record_def append_metadata_row [OF assms]) (simp add: builder_of_def)
next
  case False
  then have "map (\<lambda>i. if i = BODY_COLUMN_INDEX then column_of i rs else column_of i (rs @ [r])) p
      = map (\<lambda>i. column_of i (rs @ [r])) p" by auto
  with False show ?thesis
    by (simp add: append_record_def append_metadata_row [OF assms])
      (simp add: builder_of_def body_size_def)
qed

lemma would_exceed_builder: "would_exceed_body_limit (builder_of p fs rs) n \<longleftrightarrow>
    BODY_COLUMN_INDEX \<in> set p \<and> body_size p rs + n > MAX_BATCH_BODY_BYTES"
  using find_index_None [of "\<lambda>i. i = BODY_COLUMN_INDEX" p]
  by (auto simp: would_exceed_body_limit_def builder_of_def MAX_BATCH_BODY_BYTES_def)

locale warc_projection =
  fixes rejects :: batch_check and projection :: "nat list option" and p :: "nat list" and fs :: "field list"
  assumes documented: "try_new_documented rejects"
    and projected: "projected_schema projection = Ok (p, fs)"
begin

lemma well: "well_projected p"
  using projected unfolding projected_schema_Ok by blast

lemma accepted: "rejects fs (map (\<lambda>i. column_of i c) p) = None"
  using documented projected projected_batch_well_formed [of p c]
  by (auto simp: try_new_documented_def projected_schema_Ok)

lemma send_chunk: "send_batch rejects (builder_of p fs c) (sent_chunks p fs cs)
    = (Ok True, sent_chunks p fs (cs @ [c]))"
  by (simp add: send_batch_def batch_finish_def accepted sent_chunks_def batch_of_def)

lemma flush_chunk: "flush_batch rejects (builder_of p fs c) (sent_chunks p fs cs)
    = (Ok (builder_of p fs []), sent_chunks p fs (cs @ [c]))"
  by (simp add: flush_batch_def take_empty_builder well send_chunk)

lemma append_turn_chunk:
  assumes "readable p r"
  shows "append_turn rejects n (BODY_COLUMN_INDEX \<in> set p) r (builder_of p fs pend) (sent_chunks p fs cs)
    = (case chunk_add n p (cs, pend) r of (cs', pend') \<Rightarrow> (Ok (builder_of p fs pend'), sent_chunks p fs cs'))"
  by (simp add: append_turn_def append_record_row [OF well assms] flush_if_def flush_chunk chunk_add_def)

lemma record_step_chunk:
  assumes "readable p r"
  shows "record_step rejects n (BODY_COLUMN_INDEX \<in> set p) (Ok r) (builder_of p fs pend) (sent_chunks p fs cs)
    = (case chunk_step n p (cs, pend) r of (cs', pend') \<Rightarrow> (Ok (builder_of p fs pend'), sent_chunks p fs cs'))"
proof -
  let ?inc = "BODY_COLUMN_INDEX \<in> set p" and ?l = "unat (rec_content_length r)"
  have len: "record_body_len ?inc r = Ok (if ?inc then ?l else 0)"
    using assms by (simp add: record_body_len_def readable_def body_arrives_def BODY_COLUMN_INDEX_def)
  have due: "pend \<noteq> [] \<and> would_exceed_body_limit (builder_of p fs pend) (if ?inc then ?l else 0)
      \<longleftrightarrow> pend \<noteq> [] \<and> body_size p (pend @ [r]) > MAX_BATCH_BODY_BYTES"
    by (auto simp: would_exceed_builder body_size_def)
  show ?thesis
    unfolding record_step_def chunk_step_def
    by (simp add: len due) (simp add: flush_if_def flush_chunk append_turn_chunk [OF assms])
qed

text \<open>Any run over readable records leaves the loop where the partition is.\<close>

lemma record_loop_chunks:
  assumes "list_all (readable p) rs"
  shows "record_loop rejects n (BODY_COLUMN_INDEX \<in> set p) (map Ok rs @ items) crash
      (builder_of p fs pend) (sent_chunks p fs cs)
    = (case foldl (chunk_step n p) (cs, pend) rs of (cs', pend') \<Rightarrow>
        record_loop rejects n (BODY_COLUMN_INDEX \<in> set p) items crash (builder_of p fs pend') (sent_chunks p fs cs'))"
  using assms
proof (induction rs arbitrary: cs pend)
  case (Cons r rs)
  then show ?case
    by (cases "chunk_step n p (cs, pend) r") (simp add: record_step_chunk)
qed simp

lemma stream_records_chunks:
  assumes "list_all (readable p) rs" "chunk_fold n p rs = (cs, pend)"
  shows "stream_records rejects n p fs (map Ok rs @ items) crash \<lparr>ch_sent = [], ch_accepts = None\<rparr>
    = record_loop rejects n (BODY_COLUMN_INDEX \<in> set p) items crash (builder_of p fs pend) (sent_chunks p fs cs)"
  using record_loop_chunks [of rs n items crash "[]" "[]"] assms
  by (simp add: stream_records_def batch_builder_new_empty well chunk_fold_def sent_chunks_def)

lemma spawn_records_all:
  assumes "list_all (readable p) rs" "chunk_fold n p rs = (cs, pend)"
  shows "spawn_records rejects n p fs (map Ok rs) None None
    = map (Ok \<circ> batch_of p fs) (if pend = [] then cs else cs @ [pend])"
  using stream_records_chunks [OF assms, of "[]" None]
  by (simp add: spawn_records_def send_chunk) (simp add: sent_chunks_def)

lemma spawn_records_bad_item:
  assumes "list_all (readable p) rs" "chunk_fold n p rs = (cs, pend)"
    and "\<And>b ch. record_step rejects n (BODY_COLUMN_INDEX \<in> set p) item b ch = (Err (Err e), ch)"
  shows "spawn_records rejects n p fs (map Ok rs @ item # rest) crash None
    = map (Ok \<circ> batch_of p fs) cs @ [Err e]"
  using stream_records_chunks [OF assms(1,2), of "item # rest" crash] assms(3)
  by (simp add: spawn_records_def sent_chunks_def)

lemma spawn_records_panic:
  assumes "list_all (readable p) rs" "chunk_fold n p rs = (cs, pend)"
  shows "spawn_records rejects n p fs (map Ok rs) (Some panic) None
    = map (Ok \<circ> batch_of p fs) cs @ [Err (error_message (''panic in WARC parser: '' @ panic))]"
  using stream_records_chunks [OF assms, of "[]" "Some panic"]
  by (simp add: spawn_records_def) (simp add: sent_chunks_def)

end

interpretation all_columns: warc_projection check_batch None "[0..<20]" "schema_fields warc_schema"
proof unfold_locales
  have "map (nth (schema_fields warc_schema)) [0..<20] = schema_fields warc_schema"
    using map_nth [of "schema_fields warc_schema"] by simp
  then show "projected_schema None = Ok ([0..<20], schema_fields warc_schema)"
    by (simp add: projected_schema_Ok requested_columns_def well_projected_def)
qed simp

lemma projected_is_locale: "try_new_documented rejects \<Longrightarrow> projected_schema projection = Ok (p, fs)
    \<Longrightarrow> warc_projection rejects projection p fs"
  by (rule warc_projection.intro)

lemma map_batch_of: "map (Ok \<circ> batch_of p fs) cs = map (\<lambda>c. Ok (fs, map (\<lambda>i. column_of i c) p)) cs"
  by (simp add: batch_of_def)

lemma chunk_inv_finish:
  assumes "chunk_inv n p rs (cs, pend)"
  shows "concat (if pend = [] then cs else cs @ [pend]) = rs"
    "list_all (chunk_fits n p) (if pend = [] then cs else cs @ [pend])"
    "successively (chunk_closed n p) (if pend = [] then cs else cs @ [pend])"
  using assms chunk_inv_flush [OF assms] by (auto simp: chunk_inv_def)

lemma spawn_records_delivers:
  assumes "projected_schema projection = Ok (p, fs)" "0 < n" "try_new_documented rejects"
    "list_all (readable p) rs"
  shows "\<exists>chunks. spawn_records rejects n p fs (map Ok rs) None None = map (Ok \<circ> batch_of p fs) chunks
    \<and> concat chunks = rs \<and> list_all (chunk_fits n p) chunks
    \<and> successively (chunk_closed n p) chunks"
proof -
  obtain cs pend where fold: "chunk_fold n p rs = (cs, pend)" by fastforce
  have "spawn_records rejects n p fs (map Ok rs) None None
      = map (Ok \<circ> batch_of p fs) (if pend = [] then cs else cs @ [pend])"
    using assms(3,1,4) fold by (intro warc_projection.spawn_records_all projected_is_locale)
  moreover have "chunk_inv n p rs (cs, pend)"
    using chunk_fold_inv [OF assms(2), of p rs] fold by simp
  ultimately show ?thesis
    using chunk_inv_finish [of n p rs cs pend]
    by (intro exI [of _ "if pend = [] then cs else cs @ [pend]"] conjI)
qed

text \<open>
  For any accepted projection and positive batch size, the records of a file that can be
  read come out as batches whose rows, batch after batch, are exactly those records in file
  order, column by column as specified. Every batch is non-empty, has at most the batch size
  of rows, and holds at most 16 MiB of bodies unless it is a single record; and no batch is
  closed before it is full or the next record would overflow it.
\<close>

lemma warc_batches_deliver_records:
  assumes "projected_schema projection = Ok (p, fs)" "0 < n" "try_new_documented rejects"
    "list_all (readable p) rs"
  shows "\<exists>chunks. spawn_records rejects n p fs (map Ok rs) None None
        = map (\<lambda>c. Ok (fs, map (\<lambda>i. column_of i c) p)) chunks
    \<and> concat chunks = rs \<and> list_all (chunk_fits n p) chunks
    \<and> successively (chunk_closed n p) chunks"
  using spawn_records_delivers [OF assms] unfolding map_batch_of .

definition example_record :: "string \<Rightarrow> bytes \<Rightarrow> warc_record" where
  "example_record i b = \<lparr>rec_warc_id = i, rec_content_length = of_nat (length b), rec_date_millis = 0,
     rec_warc_type = ''resource'', rec_header = (\<lambda>h. if h = SegmentNumber then Some ''1'' else None),
     rec_body = Ok b\<rparr>"

lemma example_readable: "list_all (readable [19, 0]) [example_record ''a'' ''xy'', example_record ''b'' ''z'']"
  by (simp add: readable_def body_arrives_def example_record_def)

lemma example_projection: "projected_schema (Some [19, 0])
    = Ok ([19, 0], [Field ''body'' BinaryView False [], Field ''id'' Utf8 False []])"
  by (simp add: projected_schema_Ok requested_columns_def well_projected_def warc_schema_def)

lemma warc_batches_deliver_records_example:
  "\<exists>chunks. spawn_records check_batch 1 [19, 0]
        [Field ''body'' BinaryView False [], Field ''id'' Utf8 False []]
        (map Ok [example_record ''a'' ''xy'', example_record ''b'' ''z'']) None None
      = map (\<lambda>c. Ok ([Field ''body'' BinaryView False [], Field ''id'' Utf8 False []],
          map (\<lambda>i. column_of i c) [19, 0])) chunks
    \<and> concat chunks = [example_record ''a'' ''xy'', example_record ''b'' ''z'']
    \<and> list_all (chunk_fits 1 [19, 0]) chunks \<and> successively (chunk_closed 1 [19, 0]) chunks"
  by (rule warc_batches_deliver_records [OF example_projection _ check_batch_documented example_readable])
    simp

text \<open>
  C21: When the reader fails on a record after readable ones, the consumer sees batches of a
  prefix of the readable records, then the parse error and nothing after it; when it panics
  there, the same batches and then the panic as an error, so that the end of the stream is
  never taken for the end of the file. The rows not yet flushed, fewer than a batch and less
  than 16 MiB of bodies, are the ones it never sees.
\<close>

theorem warc_parse_error_is_last:
  assumes "projected_schema projection = Ok (p, fs)" "0 < n" "try_new_documented rejects"
    "list_all (readable p) rs"
  shows "\<exists>chunks dropped. spawn_records rejects n p fs (map Ok rs @ Err e # rest) crash None
        = map (\<lambda>c. Ok (fs, map (\<lambda>i. column_of i c) p)) chunks
          @ [Err (error_message (''WARC parse error: '' @ e))]
    \<and> spawn_records rejects n p fs (map Ok rs) (Some panic) None
        = map (\<lambda>c. Ok (fs, map (\<lambda>i. column_of i c) p)) chunks
          @ [Err (error_message (''panic in WARC parser: '' @ panic))]
    \<and> concat chunks @ dropped = rs \<and> list_all (chunk_fits n p) chunks
    \<and> length dropped < n \<and> body_size p dropped < MAX_BATCH_BODY_BYTES"
proof -
  obtain cs pend where fold: "chunk_fold n p rs = (cs, pend)" by fastforce
  have "spawn_records rejects n p fs (map Ok rs @ Err e # rest) crash None
      = map (Ok \<circ> batch_of p fs) cs @ [Err (error_message (''WARC parse error: '' @ e))]"
    using assms(3,1,4) fold
    by (intro warc_projection.spawn_records_bad_item projected_is_locale) (simp_all add: record_step_def)
  moreover have "spawn_records rejects n p fs (map Ok rs) (Some panic) None
      = map (Ok \<circ> batch_of p fs) cs @ [Err (error_message (''panic in WARC parser: '' @ panic))]"
    using assms(3,1,4) fold by (intro warc_projection.spawn_records_panic projected_is_locale)
  moreover have "chunk_inv n p rs (cs, pend)"
    using chunk_fold_inv [OF assms(2), of p rs] fold by simp
  ultimately show ?thesis
    by (intro exI [of _ cs] exI [of _ pend]) (simp add: chunk_inv_def map_batch_of)
qed

theorem warc_parse_error_is_last_witness:
  "\<exists>chunks dropped. spawn_records check_batch 2 [19, 0]
        [Field ''body'' BinaryView False [], Field ''id'' Utf8 False []]
        (map Ok [example_record ''a'' ''xy'', example_record ''b'' ''z''] @ [Err ''bad header'']) None None
      = map (\<lambda>c. Ok ([Field ''body'' BinaryView False [], Field ''id'' Utf8 False []],
          map (\<lambda>i. column_of i c) [19, 0])) chunks
        @ [Err (error_message (''WARC parse error: '' @ ''bad header''))]
    \<and> spawn_records check_batch 2 [19, 0]
        [Field ''body'' BinaryView False [], Field ''id'' Utf8 False []]
        (map Ok [example_record ''a'' ''xy'', example_record ''b'' ''z'']) (Some ''out of bounds'') None
      = map (\<lambda>c. Ok ([Field ''body'' BinaryView False [], Field ''id'' Utf8 False []],
          map (\<lambda>i. column_of i c) [19, 0])) chunks
        @ [Err (error_message (''panic in WARC parser: '' @ ''out of bounds''))]
    \<and> concat chunks @ dropped = [example_record ''a'' ''xy'', example_record ''b'' ''z'']
    \<and> list_all (chunk_fits 2 [19, 0]) chunks
    \<and> length dropped < 2 \<and> body_size [19, 0] dropped < MAX_BATCH_BODY_BYTES"
  by (rule warc_parse_error_is_last [OF example_projection _ check_batch_documented example_readable]) simp

section \<open>A consumer that hangs up\<close>

text \<open>
  A program on the channel truncates when a consumer that takes \<open>k\<close> more items sees the
  first \<open>k\<close> of what an unbounded one sees, and the program then stops with \<open>stop\<close>.
\<close>

definition truncates :: "'r \<Rightarrow> ('a channel \<Rightarrow> 'r \<times> 'a channel) \<Rightarrow> bool" where
  "truncates stop f \<longleftrightarrow> (\<forall>xs k. \<exists>r ys.
     f \<lparr>ch_sent = xs, ch_accepts = None\<rparr> = (r, \<lparr>ch_sent = xs @ ys, ch_accepts = None\<rparr>)
     \<and> f \<lparr>ch_sent = xs, ch_accepts = Some k\<rparr>
         = (if length ys \<le> k then (r, \<lparr>ch_sent = xs @ ys, ch_accepts = Some (k - length ys)\<rparr>)
            else (stop, \<lparr>ch_sent = xs @ take k ys, ch_accepts = Some 0\<rparr>)))"

lemma task_end_cases:
  fixes r :: task_end
  obtains "r = Ok (Ok ())" | e where "r = Ok (Err e)" | panic where "r = Err panic"
proof (cases r)
  case (Ok x)
  then show thesis using that(1,2) by (cases x) auto
qed (use that(3) in blast)

lemma truncates_return: "truncates stop (\<lambda>ch. (r, ch))"
  by (simp add: truncates_def)

lemma truncates_send: "truncates False (channel_send x)"
  unfolding truncates_def
proof (intro allI)
  fix xs and k :: nat
  show "\<exists>r ys. channel_send x \<lparr>ch_sent = xs, ch_accepts = None\<rparr> = (r, \<lparr>ch_sent = xs @ ys, ch_accepts = None\<rparr>)
     \<and> channel_send x \<lparr>ch_sent = xs, ch_accepts = Some k\<rparr>
         = (if length ys \<le> k then (r, \<lparr>ch_sent = xs @ ys, ch_accepts = Some (k - length ys)\<rparr>)
            else (False, \<lparr>ch_sent = xs @ take k ys, ch_accepts = Some 0\<rparr>))"
    by (intro exI [of _ True] exI [of _ "[x]"], cases k) simp_all
qed

lemma truncates_bind:
  assumes f: "truncates s f" and g: "\<And>r. truncates t (g r)" and stop: "\<And>ch. g s ch = (t, ch)"
  shows "truncates t (\<lambda>ch. case f ch of (r, ch') \<Rightarrow> g r ch')"
  unfolding truncates_def
proof (intro allI)
  fix xs and k :: nat
  obtain r ys where r: "f \<lparr>ch_sent = xs, ch_accepts = None\<rparr> = (r, \<lparr>ch_sent = xs @ ys, ch_accepts = None\<rparr>)"
    "f \<lparr>ch_sent = xs, ch_accepts = Some k\<rparr>
      = (if length ys \<le> k then (r, \<lparr>ch_sent = xs @ ys, ch_accepts = Some (k - length ys)\<rparr>)
         else (s, \<lparr>ch_sent = xs @ take k ys, ch_accepts = Some 0\<rparr>))"
    using f unfolding truncates_def by blast
  obtain q zs where q: "g r \<lparr>ch_sent = xs @ ys, ch_accepts = None\<rparr>
      = (q, \<lparr>ch_sent = (xs @ ys) @ zs, ch_accepts = None\<rparr>)"
    "g r \<lparr>ch_sent = xs @ ys, ch_accepts = Some (k - length ys)\<rparr>
      = (if length zs \<le> k - length ys
         then (q, \<lparr>ch_sent = (xs @ ys) @ zs, ch_accepts = Some (k - length ys - length zs)\<rparr>)
         else (t, \<lparr>ch_sent = (xs @ ys) @ take (k - length ys) zs, ch_accepts = Some 0\<rparr>))"
    using g [of r] unfolding truncates_def by blast
  show "\<exists>r ys. (case f \<lparr>ch_sent = xs, ch_accepts = None\<rparr> of (r, ch') \<Rightarrow> g r ch')
        = (r, \<lparr>ch_sent = xs @ ys, ch_accepts = None\<rparr>)
     \<and> (case f \<lparr>ch_sent = xs, ch_accepts = Some k\<rparr> of (r, ch') \<Rightarrow> g r ch')
         = (if length ys \<le> k then (r, \<lparr>ch_sent = xs @ ys, ch_accepts = Some (k - length ys)\<rparr>)
            else (t, \<lparr>ch_sent = xs @ take k ys, ch_accepts = Some 0\<rparr>))"
    by (rule exI [of _ q], rule exI [of _ "ys @ zs"]) (auto simp: r q stop)
qed

lemma truncates_flush: "truncates (Err (Ok ())) (flush_batch rejects b)"
proof (cases "take_empty b")
  case (Err e)
  then show ?thesis using truncates_return by (simp add: flush_batch_def [abs_def])
next
  case (Ok bs)
  show ?thesis
  proof (cases "batch_finish rejects (snd bs)")
    case (Err e)
    with Ok have "flush_batch rejects b = (\<lambda>ch. (Err (Err e), ch))"
      by (cases bs) (simp add: flush_batch_def send_batch_def fun_eq_iff)
    then show ?thesis using truncates_return by simp
  next
    case (Ok batch)
    have "flush_batch rejects b = (\<lambda>ch. case channel_send (Ok batch) ch of (sent, ch') \<Rightarrow>
        (if sent then Ok (fst bs) else Err (Ok ()), ch'))"
      using Ok \<open>take_empty b = Ok bs\<close>
      by (auto simp: flush_batch_def send_batch_def fun_eq_iff split: prod.split)
    moreover have "truncates (Err (Ok ())) (\<lambda>ch. case channel_send (Ok batch) ch of (sent, ch') \<Rightarrow>
        (if sent then Ok (fst bs) else Err (Ok ()), ch'))"
      by (rule truncates_bind [OF truncates_send]) (simp_all add: truncates_return)
    ultimately show ?thesis by simp
  qed
qed

lemma truncates_flush_if: "truncates (Err (Ok ())) (flush_if rejects due b)"
  using truncates_flush truncates_return by (cases due) (simp_all add: flush_if_def [abs_def])

lemma truncates_append_turn: "truncates (Err (Ok ())) (append_turn rejects n inc r b)"
  using truncates_flush_if truncates_return
  by (cases "append_record inc r b") (simp_all add: append_turn_def [abs_def])

lemma truncates_record_step: "truncates (Err (Ok ())) (record_step rejects n inc item b)"
proof (cases "and_then (map_err (\<lambda>e. error_message (''WARC parse error: '' @ e)) item)
    (\<lambda>r. map_ok (Pair r) (record_body_len inc r))")
  case (Err e)
  then show ?thesis using truncates_return by (simp add: record_step_def [abs_def])
next
  case (Ok rl)
  obtain r l where rl: "rl = (r, l)" by fastforce
  let ?g = "\<lambda>x ch. case x of Err stop \<Rightarrow> (Err stop, ch) | Ok b1 \<Rightarrow> append_turn rejects n inc r b1 ch"
  have "record_step rejects n inc item b = (\<lambda>ch. case flush_if rejects
      (bb_len b > 0 \<and> would_exceed_body_limit b l) b ch of (x, ch') \<Rightarrow> ?g x ch')"
    using Ok rl by (auto simp: record_step_def fun_eq_iff split: prod.split result.split)
  moreover have "truncates (Err (Ok ())) (?g x)" for x
    using truncates_return truncates_append_turn by (cases x) simp_all
  ultimately show ?thesis
    using truncates_bind [OF truncates_flush_if, of "Err (Ok ())" ?g] by simp
qed

lemma truncates_record_loop: "truncates (Ok (Ok ())) (record_loop rejects n inc items crash b)"
proof (induction items arbitrary: b)
  case Nil
  show ?case
  proof (cases "crash = None \<and> bb_len b > 0")
    case True
    show ?thesis
    proof (cases "batch_finish rejects b")
      case (Err e)
      with True show ?thesis
        using truncates_return [of "Ok (Ok ())" "Ok (Err e)"]
        by (simp add: send_batch_def record_loop.simps(2) [abs_def])
    next
      case (Ok batch)
      with True have "record_loop rejects n inc [] crash b = (\<lambda>ch. case channel_send (Ok batch) ch of
          (sent, ch') \<Rightarrow> (Ok (Ok ()), ch'))"
        by (auto simp: send_batch_def fun_eq_iff split: prod.split)
      moreover have "truncates (Ok (Ok ())) (\<lambda>ch. case channel_send (Ok batch) ch of
          (sent, ch') \<Rightarrow> (Ok (Ok ()) :: task_end, ch'))"
        by (rule truncates_bind [OF truncates_send]) (simp_all add: truncates_return)
      ultimately show ?thesis by simp
    qed
  next
    case False
    then show ?thesis using truncates_return by (cases crash) (simp_all add: record_loop.simps(1,2) [abs_def])
  qed
next
  case (Cons item items)
  let ?g = "\<lambda>x ch. case x of Err stop \<Rightarrow> (Ok stop, ch) | Ok b' \<Rightarrow> record_loop rejects n inc items crash b' ch"
  have "record_loop rejects n inc (item # items) crash b
      = (\<lambda>ch. case record_step rejects n inc item b ch of (x, ch') \<Rightarrow> ?g x ch')"
    by (auto simp: fun_eq_iff split: prod.split result.split)
  moreover have "truncates (Ok (Ok ())) (?g x)" for x
    using truncates_return Cons.IH by (cases x) simp_all
  ultimately show ?case
    using truncates_bind [OF truncates_record_step, of "Ok (Ok ())" ?g] by simp
qed

text \<open>
  Whatever the reader yields, a consumer that drops the stream after \<open>k\<close> items has seen
  exactly the first \<open>k\<close> items of the whole stream: hanging up neither reorders nor loses nor
  adds an item, and an error is not reported to it twice.
\<close>

lemma warc_hang_up_truncates:
  "spawn_records rejects n p fs items crash (Some k) = take k (spawn_records rejects n p fs items crash None)"
proof (cases "batch_builder_new p fs")
  case (Err e)
  then show ?thesis by (cases k) (simp_all add: spawn_records_def stream_records_def)
next
  case (Ok b)
  let ?f = "record_loop rejects n (BODY_COLUMN_INDEX \<in> set p) items crash b"
  obtain r ys where r: "?f \<lparr>ch_sent = [], ch_accepts = None\<rparr> = (r, \<lparr>ch_sent = [] @ ys, ch_accepts = None\<rparr>)"
    "?f \<lparr>ch_sent = [], ch_accepts = Some k\<rparr>
      = (if length ys \<le> k then (r, \<lparr>ch_sent = [] @ ys, ch_accepts = Some (k - length ys)\<rparr>)
         else (Ok (Ok ()), \<lparr>ch_sent = [] @ take k ys, ch_accepts = Some 0\<rparr>))"
    using truncates_record_loop [of rejects n "BODY_COLUMN_INDEX \<in> set p" items crash b]
    unfolding truncates_def by blast
  show ?thesis
    using r \<open>batch_builder_new p fs = Ok b\<close>
    by (cases r rule: task_end_cases; cases "k - length ys") (auto simp: spawn_records_def stream_records_def)
qed

end
