(* ===== verification/OpendalConfig.thy ===== *)
theory OpendalConfig
  imports Complex_Main Errors
begin

text \<open>
  \<open>rust/src/storage.rs\<close>, the storage policy: its validation and the layers it puts around an
  operator. An \<open>f64\<close> is a rational or one of the special values; \<open>as f32\<close> rounds to the
  nearest value of 24 significant bits, ties to even. \<open>Instant::now().checked_add(..)\<close>
  depends on the platform's clock: it is the argument \<open>fits\<close>. An operator is its service
  and the layers around it, innermost first.
\<close>

section \<open>Floating point\<close>

datatype f64 = Finite rat | PosInf | NegInf | NaN

fun f64_is_finite :: "f64 \<Rightarrow> bool" where
  "f64_is_finite (Finite _) = True"
| "f64_is_finite _ = False"

fun f64_less :: "f64 \<Rightarrow> f64 \<Rightarrow> bool" where
  "f64_less NaN _ = False"
| "f64_less _ NaN = False"
| "f64_less (Finite a) (Finite b) = (a < b)"
| "f64_less NegInf b = (b \<noteq> NegInf)"
| "f64_less a PosInf = (a \<noteq> PosInf)"
| "f64_less _ _ = False"

definition F32_MAX :: rat where
  "F32_MAX = (2 ^ 24 - 1) * 2 ^ 104"

text \<open>The exponent of a value of at least one, and rounding at a unit in the last place.\<close>

fun exponent_of :: "nat \<Rightarrow> nat" where
  "exponent_of n = (if n < 2 then 0 else exponent_of (n div 2) + 1)"

declare exponent_of.simps [simp del]

definition round_half_even :: "rat \<Rightarrow> int" where
  "round_half_even x = (let f = \<lfloor>x\<rfloor>; d = x - of_int f in
     if d < 1 / 2 then f else if d > 1 / 2 then f + 1 else if even f then f else f + 1)"

definition round_f32 :: "rat \<Rightarrow> rat" where
  "round_f32 x = (let ulp = 2 ^ exponent_of (nat \<lfloor>x\<rfloor>) / 2 ^ 23
     in of_int (round_half_even (x / ulp)) * ulp)"

text \<open>\<open>as f32\<close> for the values that pass validation; the others never reach it.\<close>

fun as_f32 :: "f64 \<Rightarrow> f64" where
  "as_f32 (Finite x) = (if 1 \<le> x then Finite (round_f32 x) else Finite x)"
| "as_f32 v = v"

section \<open>The policy\<close>

record opendal_config =
  timeout_ms :: u64
  io_timeout_ms :: u64
  retry_max_times :: u64
  retry_min_delay_ms :: u64
  retry_max_delay_ms :: u64
  retry_factor :: f64

definition opendal_config_default :: opendal_config where
  "opendal_config_default = \<lparr>timeout_ms = 60000, io_timeout_ms = 10000, retry_max_times = 3,
     retry_min_delay_ms = 1000, retry_max_delay_ms = 60000, retry_factor = Finite 2\<rparr>"

definition check_duration :: "(u64 \<Rightarrow> bool) \<Rightarrow> string \<times> u64 \<Rightarrow> unit res" where
  "check_duration fits nv = (case nv of (name, value) \<Rightarrow>
     if value = 0
     then Err (error_message (''lance_conversion_storage_'' @ name @ '' must be positive''))
     else if \<not> fits value
     then Err (error_message (''lance_conversion_storage_'' @ name @ '' is too large''))
     else Ok ())"

definition opendal_config_validate :: "(u64 \<Rightarrow> bool) \<Rightarrow> opendal_config \<Rightarrow> opendal_config res" where
  "opendal_config_validate fits c =
     and_then (try_each (check_duration fits)
       [(''timeout_ms'', timeout_ms c), (''io_timeout_ms'', io_timeout_ms c),
        (''retry_min_delay_ms'', retry_min_delay_ms c), (''retry_max_delay_ms'', retry_max_delay_ms c)]) (\<lambda>_.
     if retry_max_delay_ms c < retry_min_delay_ms c
     then Err (error_message
       ''lance_conversion_storage_retry_max_delay_ms must be at least retry_min_delay_ms'')
     else if \<not> f64_is_finite (retry_factor c) \<or> f64_less (retry_factor c) (Finite 1)
       \<or> f64_less (Finite F32_MAX) (retry_factor c)
     then Err (error_message
       ''lance_conversion_storage_retry_factor must be finite and between 1 and f32::MAX'')
     else if unat (retry_max_times c) < 2 ^ 64 then Ok c
     else Err (error_message ''lance_conversion_storage_retry_max_times is too large''))"

section \<open>Operators\<close>

datatype s3_option =
    Bucket string | Region string | DisableConfigLoad | DisableEc2Metadata | Endpoint string
  | AccessKeyId string | SecretAccessKey string | SessionToken string | SkipSignature
  | EnableVirtualHostStyle

datatype hf_option = RepoType string | RepoId string | Revision string | DownloadMode string | Token string

datatype service = FsRoot string | S3Service "s3_option list" | HttpEndpoint string | HfService "hf_option list"

datatype layer =
    TimeoutLayer u64 u64
  | RetryLayer u64 u64 u64 f64 bool

record operator =
  op_service :: service
  op_layers :: "layer list"

definition op_layer :: "layer \<Rightarrow> operator \<Rightarrow> operator" where
  "op_layer l o' = o'\<lparr>op_layers := op_layers o' @ [l]\<rparr>"

definition opendal_config_apply :: "(u64 \<Rightarrow> bool) \<Rightarrow> opendal_config \<Rightarrow> operator \<Rightarrow> operator res" where
  "opendal_config_apply fits c o' = and_then (opendal_config_validate fits c) (\<lambda>config.
     let timeout = TimeoutLayer (timeout_ms config) (io_timeout_ms config);
         retry = RetryLayer (retry_max_times config) (retry_min_delay_ms config)
           (retry_max_delay_ms config) (as_f32 (retry_factor config)) True
     in Ok (op_layer retry (op_layer timeout o')))"

section \<open>What validation promises\<close>

lemma exponent_of_bounds: "0 < n \<Longrightarrow> 2 ^ exponent_of n \<le> n \<and> n < 2 ^ (exponent_of n + 1)"
proof (induction n rule: exponent_of.induct)
  case (1 n)
  show ?case
  proof (cases "n < 2")
    case True
    with 1 show ?thesis by (subst (1 2) exponent_of.simps) simp
  next
    case False
    with 1 have "2 ^ exponent_of (n div 2) \<le> n div 2 \<and> n div 2 < 2 ^ (exponent_of (n div 2) + 1)"
      by simp
    with False show ?thesis by (subst (1 2) exponent_of.simps) (simp, linarith)
  qed
qed

lemma round_half_even_mono_int: "of_int k \<le> x \<Longrightarrow> k \<le> round_half_even x"
  and round_half_even_le_int: "x \<le> of_int k \<Longrightarrow> round_half_even x \<le> k"
proof -
  assume "of_int k \<le> x"
  then have "k \<le> \<lfloor>x\<rfloor>" by (simp add: le_floor_iff)
  then show "k \<le> round_half_even x" by (simp add: round_half_even_def Let_def)
next
  assume k: "x \<le> of_int k"
  show "round_half_even x \<le> k"
  proof (cases "\<lfloor>x\<rfloor> < k")
    case True
    then show ?thesis by (simp add: round_half_even_def Let_def)
  next
    case False
    with k have "x = of_int k" "\<lfloor>x\<rfloor> = k" by linarith+
    then show ?thesis by (simp add: round_half_even_def)
  qed
qed

text \<open>Rounding keeps a value between two powers-of-two multiples of its unit.\<close>

lemma round_f32_bounds:
  assumes "1 \<le> x" "x \<le> F32_MAX"
  shows "1 \<le> round_f32 x \<and> round_f32 x \<le> F32_MAX"
proof -
  define e where "e = exponent_of (nat \<lfloor>x\<rfloor>)"
  define ulp :: rat where "ulp = 2 ^ e / 2 ^ 23"
  have ulp: "0 < ulp" by (simp add: ulp_def)
  have r: "round_f32 x = of_int (round_half_even (x / ulp)) * ulp"
    by (simp add: round_f32_def ulp_def e_def Let_def)
  have pos: "0 < nat \<lfloor>x\<rfloor>" using assms(1) by simp
  note b = exponent_of_bounds [OF pos, folded e_def]
  have "(2 :: rat) ^ e \<le> x"
  proof -
    have "(of_nat (2 ^ e) :: rat) \<le> of_nat (nat \<lfloor>x\<rfloor>)" using b by (simp only: of_nat_le_iff)
    also have "\<dots> \<le> x" using assms(1) by (simp add: of_nat_nat)
    finally show ?thesis by simp
  qed
  then have "of_int (2 ^ 23) \<le> x / ulp" using ulp by (simp add: ulp_def field_simps)
  then have low: "2 ^ 23 \<le> round_half_even (x / ulp)" by (rule round_half_even_mono_int)
  then have "of_int (2 ^ 23) * ulp \<le> round_f32 x"
    unfolding r using ulp by (intro mult_right_mono) (simp_all only: of_int_le_iff less_imp_le)
  moreover have "of_int (2 ^ 23) * ulp = 2 ^ e" by (simp add: ulp_def)
  moreover have "(1 :: rat) \<le> 2 ^ e" by simp
  ultimately have one: "1 \<le> round_f32 x" by linarith
  have e: "e \<le> 127"
  proof (rule ccontr)
    assume "\<not> e \<le> 127"
    then have "(2 :: rat) ^ 128 \<le> 2 ^ e" by (intro power_increasing) simp_all
    with \<open>2 ^ e \<le> x\<close> assms(2) show False by (simp add: F32_MAX_def)
  qed
  have top: "F32_MAX = of_int ((2 ^ 24 - 1) * 2 ^ (127 - e)) * ulp"
  proof -
    have "(2 :: rat) ^ 127 = 2 ^ (127 - e) * 2 ^ e" using e by (simp flip: power_add)
    then show ?thesis by (simp add: F32_MAX_def ulp_def mult.commute)
  qed
  then have "x / ulp \<le> of_int ((2 ^ 24 - 1) * 2 ^ (127 - e))"
    using assms(2) ulp by (simp add: field_simps)
  then have "round_half_even (x / ulp) \<le> (2 ^ 24 - 1) * 2 ^ (127 - e)"
    by (rule round_half_even_le_int)
  then have "round_f32 x \<le> F32_MAX"
    unfolding r top using ulp by (intro mult_right_mono) (simp_all only: of_int_le_iff less_imp_le)
  with one show ?thesis by simp
qed

definition sound_config :: "(u64 \<Rightarrow> bool) \<Rightarrow> opendal_config \<Rightarrow> bool" where
  "sound_config fits c \<longleftrightarrow>
     list_all (\<lambda>v. 0 < v \<and> fits v)
       [timeout_ms c, io_timeout_ms c, retry_min_delay_ms c, retry_max_delay_ms c]
     \<and> retry_min_delay_ms c \<le> retry_max_delay_ms c
     \<and> (case retry_factor c of Finite q \<Rightarrow> 1 \<le> q \<and> q \<le> F32_MAX | _ \<Rightarrow> False)"

lemma factor_in_range: "\<not> (\<not> f64_is_finite v \<or> f64_less v (Finite 1) \<or> f64_less (Finite F32_MAX) v)
    \<longleftrightarrow> (case v of Finite q \<Rightarrow> 1 \<le> q \<and> q \<le> F32_MAX | _ \<Rightarrow> False)"
  by (cases v) auto

lemma durations_Ok: "try_each (check_duration fits)
      [(''timeout_ms'', timeout_ms c), (''io_timeout_ms'', io_timeout_ms c),
       (''retry_min_delay_ms'', retry_min_delay_ms c), (''retry_max_delay_ms'', retry_max_delay_ms c)] = Ok ()
    \<longleftrightarrow> list_all (\<lambda>v. 0 < v \<and> fits v)
       [timeout_ms c, io_timeout_ms c, retry_min_delay_ms c, retry_max_delay_ms c]"
  by (simp add: try_each_Ok check_duration_def word_neq_0_conv)

lemma validate_Ok: "opendal_config_validate fits c = Ok c' \<longleftrightarrow> c' = c \<and> sound_config fits c"
proof -
  have "unat (retry_max_times c) < 2 ^ 64"
    using unsigned_less [of "retry_max_times c", where ?'a = nat] by simp
  then show ?thesis
    unfolding opendal_config_validate_def sound_config_def factor_in_range [symmetric]
      durations_Ok [symmetric]
    by (cases "try_each (check_duration fits)
      [(''timeout_ms'', timeout_ms c), (''io_timeout_ms'', io_timeout_ms c),
       (''retry_min_delay_ms'', retry_min_delay_ms c), (''retry_max_delay_ms'', retry_max_delay_ms c)]")
      (auto simp: not_less simp del: try_each.simps)
qed

lemma apply_Ok: "opendal_config_apply fits c o' = Ok o'' \<longleftrightarrow> sound_config fits c
    \<and> o'' = o'\<lparr>op_layers := op_layers o' @ [TimeoutLayer (timeout_ms c) (io_timeout_ms c),
        RetryLayer (retry_max_times c) (retry_min_delay_ms c) (retry_max_delay_ms c)
          (as_f32 (retry_factor c)) True]\<rparr>"
  by (auto simp: opendal_config_apply_def result_simps validate_Ok op_layer_def Let_def)

text \<open>
  C20: A policy is accepted exactly when its four durations are positive and within the clock's
  reach, its delays are ordered and its factor lies between one and the largest \<open>f32\<close>; the
  operator then gains exactly two layers, a timeout inside a retry, and the factor the retry
  layer is given, after rounding to \<open>f32\<close>, is still finite and at least one.
\<close>

theorem opendal_config_apply_outcome:
  "(case opendal_config_apply fits c o' of
      Err _ \<Rightarrow> \<not> sound_config fits c
    | Ok o'' \<Rightarrow> sound_config fits c \<and> op_service o'' = op_service o'
        \<and> (\<exists>f. op_layers o'' = op_layers o' @ [TimeoutLayer (timeout_ms c) (io_timeout_ms c),
              RetryLayer (retry_max_times c) (retry_min_delay_ms c) (retry_max_delay_ms c) (Finite f) True]
            \<and> as_f32 (retry_factor c) = Finite f \<and> 1 \<le> f \<and> f \<le> F32_MAX))"
proof (cases "opendal_config_apply fits c o'")
  case (Err e)
  then show ?thesis using apply_Ok [of fits c o'] by auto
next
  case (Ok o'')
  then have sound: "sound_config fits c" and o'': "o'' = o'\<lparr>op_layers := op_layers o'
      @ [TimeoutLayer (timeout_ms c) (io_timeout_ms c), RetryLayer (retry_max_times c)
          (retry_min_delay_ms c) (retry_max_delay_ms c) (as_f32 (retry_factor c)) True]\<rparr>"
    by (simp_all only: apply_Ok)
  obtain q where q: "retry_factor c = Finite q" "1 \<le> q" "q \<le> F32_MAX"
    using sound by (cases "retry_factor c") (simp_all add: sound_config_def)
  have "as_f32 (retry_factor c) = Finite (round_f32 q)" using q by simp
  with Ok sound round_f32_bounds [OF q(2,3)] show ?thesis by (simp add: o'')
qed

lemma default_config_sound: "(\<And>v. fits v) \<Longrightarrow> sound_config fits opendal_config_default"
  by (simp add: sound_config_def opendal_config_default_def F32_MAX_def word_less_nat_alt word_le_nat_alt)

end
