(* ===== verification/Storage.thy ===== *)
theory Storage
  imports OpendalConfig StrMap
begin

text \<open>
  \<open>rust/src/storage.rs\<close>, the operators: local, S3 and HTTP storage, input files, and the
  per-write cache of Lance object stores. The \<open>url\<close>, \<open>object_store::path\<close> and
  \<open>percent_encoding\<close> crates and the process environment are the record \<open>storage_env\<close>; a
  parsed \<open>Url\<close> is the record of what its accessors return. Paths are UTF-8, so a path and
  its display are the same string.
\<close>

record url =
  url_str :: string
  url_scheme :: string
  url_authority :: string
  url_host :: "string option"
  url_path :: string
  url_query :: "string option"
  url_fragment :: "string option"
  url_before_path :: string

record storage_env =
  se_fits :: "u64 \<Rightarrow> bool"
  se_url_parse :: "string \<Rightarrow> (url, string) result"
  se_url_from_file_path :: "string \<Rightarrow> url option"
  se_url_to_file_path :: "url \<Rightarrow> string option"
  se_path_from :: "string \<Rightarrow> string"
  se_path_from_url_path :: "string \<Rightarrow> (string, string) result"
  se_percent_decode :: "string \<Rightarrow> (string, string) result"
  se_operator_new :: "service \<Rightarrow> opendal_error option"
  se_current_dir :: "(string, io_error_kind \<times> string) result"

definition operator_new :: "storage_env \<Rightarrow> service \<Rightarrow> (operator, opendal_error) result" where
  "operator_new E s = (case se_operator_new E s of
     None \<Rightarrow> Ok \<lparr>op_service = s, op_layers = []\<rparr> | Some e \<Rightarrow> Err e)"

definition path_push :: "string \<Rightarrow> string \<Rightarrow> string" where
  "path_push dir p = (if path_is_absolute p then p
     else if dir = [] \<or> last dir = CHR ''/'' then dir @ p else dir @ ''/'' @ p)"

definition trim_start_slashes :: "string \<Rightarrow> string" where
  "trim_start_slashes s = dropWhile (\<lambda>c. c = CHR ''/'') s"

section \<open>Stores\<close>

record s3_config =
  s3_endpoint :: "string option"
  s3_region :: "string option"
  s3_key_id :: "string option"
  s3_secret :: "string option"
  s3_session_token :: "string option"
  s3_use_ssl :: bool
  s3_virtual_host_style :: bool

definition s3_config_default :: s3_config where
  "s3_config_default = \<lparr>s3_endpoint = None, s3_region = None, s3_key_id = None, s3_secret = None,
     s3_session_token = None, s3_use_ssl = True, s3_virtual_host_style = False\<rparr>"

datatype store = OpendalStore operator | Tracked string store

record opendal_storage =
  st_operator :: operator
  st_object_store :: store
  st_object_path :: string
  st_location :: url

definition is_s3_uri :: "string \<Rightarrow> bool" where
  "is_s3_uri path = (case str_get_to 5 path of
     Some pre \<Rightarrow> eq_ignore_ascii_case pre ''s3://'' | None \<Rightarrow> False)"

definition http_operator :: "storage_env \<Rightarrow> string \<Rightarrow> opendal_config \<Rightarrow> operator res" where
  "http_operator E endpoint config =
     and_then (map_err opendal_into (operator_new E (HttpEndpoint endpoint)))
       (opendal_config_apply (se_fits E) config)"

definition huggingface_operator ::
  "storage_env \<Rightarrow> string \<Rightarrow> string \<Rightarrow> string option \<Rightarrow> opendal_config \<Rightarrow> operator res" where
  "huggingface_operator E dataset revision token config =
     (let builder = [RepoType ''dataset'', RepoId dataset, Revision revision, DownloadMode ''http'']
            @ (case token of Some t \<Rightarrow> [Token t] | None \<Rightarrow> [])
      in and_then (map_err opendal_into (operator_new E (HfService builder)))
           (opendal_config_apply (se_fits E) config))"

definition from_local_path :: "storage_env \<Rightarrow> string \<Rightarrow> opendal_storage res" where
  "from_local_path E path =
     and_then (if path_is_absolute path then Ok path
       else map_ok (\<lambda>dir. path_push dir path)
         (map_err (\<lambda>(kind, shown). io_error kind shown) (se_current_dir E))) (\<lambda>absolute.
     and_then (ok_or (se_url_from_file_path E absolute)
       (error_message (''invalid local storage path: '' @ absolute))) (\<lambda>location.
     and_then (context_of ''initializing OpenDAL local storage''
       (operator_new E (FsRoot ''/'')) opendal_into) (\<lambda>op.
     Ok \<lparr>st_operator = op, st_object_store = OpendalStore op,
         st_object_path = se_path_from E (trim_start_slashes absolute), st_location = location\<rparr>)))"

definition has_scheme_separator :: "string \<Rightarrow> bool" where
  "has_scheme_separator s \<longleftrightarrow> sublist ''://'' s"

definition s3_builder :: "string \<Rightarrow> s3_config \<Rightarrow> s3_option list" where
  "s3_builder bucket c =
     [Bucket bucket, Region (case s3_region c of Some r \<Rightarrow> r | None \<Rightarrow> ''us-east-1''),
      DisableConfigLoad, DisableEc2Metadata]
     @ (case s3_endpoint c of None \<Rightarrow> [] | Some e \<Rightarrow>
         [Endpoint (if has_scheme_separator e then e
            else if s3_use_ssl c then ''https://'' @ e else ''http://'' @ e)])
     @ (case s3_key_id c of None \<Rightarrow> [] | Some k \<Rightarrow> [AccessKeyId k])
     @ (case s3_secret c of None \<Rightarrow> [] | Some k \<Rightarrow> [SecretAccessKey k])
     @ (case s3_session_token c of None \<Rightarrow> [] | Some k \<Rightarrow> [SessionToken k])
     @ (if s3_key_id c = None \<and> s3_secret c = None \<and> s3_session_token c = None
        then [SkipSignature] else [])
     @ (if s3_virtual_host_style c then [EnableVirtualHostStyle] else [])"

definition from_s3_uri :: "storage_env \<Rightarrow> string \<Rightarrow> s3_config \<Rightarrow> opendal_config \<Rightarrow> opendal_storage res" where
  "from_s3_uri E uri c config =
     and_then (context_of ''invalid S3 URI'' (se_url_parse E uri) url_error) (\<lambda>location.
     if url_scheme location \<noteq> ''s3'' then Err (error_message ''expected an s3:// URI'')
     else and_then (ok_or (case url_host location of
              Some b \<Rightarrow> if b \<noteq> [] then Some b else None | None \<Rightarrow> None)
            (error_message ''S3 URI must include a bucket'')) (\<lambda>bucket.
     and_then (context_of ''initializing OpenDAL S3 storage''
       (operator_new E (S3Service (s3_builder bucket c))) opendal_into) (\<lambda>op0.
     and_then (opendal_config_apply (se_fits E) config op0) (\<lambda>op.
     and_then (map_err (\<lambda>e. error_message (''invalid S3 object path: '' @ e))
       (se_path_from_url_path E (url_path location))) (\<lambda>object_path.
     Ok \<lparr>st_operator = op, st_object_store = OpendalStore op,
         st_object_path = object_path, st_location = location\<rparr>)))))"

definition from_path ::
  "storage_env \<Rightarrow> string \<Rightarrow> s3_config option \<Rightarrow> opendal_config \<Rightarrow> opendal_storage res" where
  "from_path E path s3 config =
     and_then (opendal_config_validate (se_fits E) config) (\<lambda>_.
     if is_s3_uri path
     then and_then (ok_or s3 (error_message ''S3 path requires S3 storage configuration''))
            (\<lambda>c. from_s3_uri E path c config)
     else if s3 \<noteq> None
     then Err (error_message ''S3 storage configuration can only be used with an s3:// path'')
     else from_local_path E path)"

section \<open>Input files\<close>

record input_file =
  in_operator :: operator
  in_opendal_path :: string
  in_uri :: string

definition open_http_file :: "storage_env \<Rightarrow> string \<Rightarrow> url \<Rightarrow> opendal_config \<Rightarrow> input_file res" where
  "open_http_file E path u config =
     (if url_query u \<noteq> None \<or> url_fragment u \<noteq> None
      then Err (error_message (''HTTP(S) URL must not include a query or fragment: '' @ path))
      else and_then (map_err utf8_error (se_percent_decode E (url_path u))) (\<lambda>object_path.
           and_then (http_operator E (url_before_path u) config) (\<lambda>op.
           Ok \<lparr>in_operator = op, in_opendal_path = trim_start_slashes object_path,
               in_uri = url_str u\<rparr>)))"

definition open_stored_file ::
  "storage_env \<Rightarrow> string \<Rightarrow> s3_config option \<Rightarrow> opendal_config \<Rightarrow> input_file res" where
  "open_stored_file E path s3 config =
     and_then (from_path E path s3 config) (\<lambda>st.
     Ok \<lparr>in_operator = st_operator st, in_opendal_path = st_object_path st,
         in_uri = (case se_url_to_file_path E (st_location st) of
             Some local \<Rightarrow> local | None \<Rightarrow> url_str (st_location st))\<rparr>)"

definition input_file_open ::
  "storage_env \<Rightarrow> string \<Rightarrow> s3_config option \<Rightarrow> opendal_config \<Rightarrow> input_file res" where
  "input_file_open E path s3 config =
     and_then (case se_url_parse E path of
         Ok u \<Rightarrow> (if url_scheme u = ''http'' \<or> url_scheme u = ''https''
                 then open_http_file E path u config
                 else open_stored_file E path s3 config)
       | Err _ \<Rightarrow> open_stored_file E path s3 config) (\<lambda>input.
     if in_opendal_path input = []
     then Err (error_message (''input must not be a storage root: '' @ path))
     else Ok input)"

section \<open>The cache of object stores\<close>

text \<open>The mutex around the map makes a lookup with its insertion one step.\<close>

record store_provider =
  sp_s3_config :: s3_config
  sp_opendal_config :: opendal_config
  sp_stores :: "(string, store) smap"

definition store_provider_new :: "s3_config option \<Rightarrow> opendal_config \<Rightarrow> store_provider" where
  "store_provider_new s3 config =
     \<lparr>sp_s3_config = (case s3 of Some c \<Rightarrow> c | None \<Rightarrow> s3_config_default),
      sp_opendal_config = config, sp_stores = []\<rparr>"

definition store_key :: "url \<Rightarrow> string" where
  "store_key u = url_scheme u @ ''$'' @ url_authority u"

definition build_store :: "storage_env \<Rightarrow> store_provider \<Rightarrow> url \<Rightarrow> store res" where
  "build_store E P u =
     (if url_scheme u = ''file'' then map_ok st_object_store (from_local_path E ''/'')
      else if url_scheme u = ''s3'' then
        map_ok st_object_store (from_s3_uri E (url_str u) (sp_s3_config P) (sp_opendal_config P))
      else if url_scheme u = ''http'' \<or> url_scheme u = ''https'' then
        map_ok OpendalStore (http_operator E (url_before_path u) (sp_opendal_config P))
      else Err (error_message (''unsupported storage scheme: '' @ url_scheme u)))"

definition object_store :: "storage_env \<Rightarrow> url \<Rightarrow> store_provider \<Rightarrow> store res \<times> store_provider" where
  "object_store E u P = (case map_of (sp_stores P) (store_key u) of
     Some s \<Rightarrow> (Ok s, P)
   | None \<Rightarrow> (case build_store E P u of
       Err e \<Rightarrow> (Err e, P)
     | Ok s \<Rightarrow> (let tracked = Tracked (store_key u) s in
         (Ok tracked, P\<lparr>sp_stores := sm_insert (store_key u) tracked (sp_stores P)\<rparr>))))"

text \<open>\<open>ObjectStoreProvider::extract_path\<close>; the errors are Lance's.\<close>

definition extract_path :: "storage_env \<Rightarrow> url \<Rightarrow> (string, string) result" where
  "extract_path E u =
     (if url_query u \<noteq> None \<or> url_fragment u \<noteq> None
      then Err (''storage URI must not have a query or fragment: '' @ url_str u)
      else map_err (\<lambda>e. ''invalid path in URI '' @ url_str u @ '': '' @ e)
             (se_path_from_url_path E (url_path u)))"

text \<open>
  \<open>ObjectStoreProvider::new_store\<close>: the store of the cache wrapped with Lance's parameters. Lance's
  constants are the record \<open>lance_constants\<close>; an error of the cache is reported as it displays.
\<close>

record lance_constants =
  lk_local_io_parallelism :: usize
  lk_cloud_io_parallelism :: usize
  lk_download_retry_count :: usize

record ('b, 'w, 'o) object_store_params =
  pr_block_size :: "('b, string) result"
  pr_wrapper :: "'w option"
  pr_constant_size_upload_parts :: bool
  pr_list_is_lexically_ordered :: "bool option"
  pr_storage_options :: 'o

record ('b, 'w, 'o) lance_object_store =
  lo_inner :: store
  lo_location :: url
  lo_block_size :: 'b
  lo_wrapper :: "'w option"
  lo_constant_size_upload_parts :: bool
  lo_list_is_lexically_ordered :: bool
  lo_io_parallelism :: usize
  lo_download_retry_count :: usize
  lo_storage_options :: 'o

definition new_store ::
  "storage_env \<Rightarrow> lance_constants \<Rightarrow> (error \<Rightarrow> string) \<Rightarrow> url \<Rightarrow> ('b, 'w, 'o) object_store_params \<Rightarrow> store_provider \<Rightarrow>
   (('b, 'w, 'o) lance_object_store, string) result \<times> store_provider" where
  "new_store E K show_error u params P =
     (let io_parallelism = (if url_scheme u = ''file'' then lk_local_io_parallelism K else lk_cloud_io_parallelism K)
      in case object_store E u P of
        (Err e, P') \<Rightarrow> (Err (show_error e), P')
      | (Ok inner, P') \<Rightarrow> (map_ok (\<lambda>block_size. \<lparr>lo_inner = inner, lo_location = u, lo_block_size = block_size,
            lo_wrapper = pr_wrapper params,
            lo_constant_size_upload_parts = pr_constant_size_upload_parts params,
            lo_list_is_lexically_ordered = (case pr_list_is_lexically_ordered params of Some b \<Rightarrow> b | None \<Rightarrow> False),
            lo_io_parallelism = io_parallelism, lo_download_retry_count = lk_download_retry_count K,
            lo_storage_options = pr_storage_options params\<rparr>) (pr_block_size params), P'))"

lemma new_store_Ok:
  assumes "new_store E K show_error u params P = (Ok lo, P')"
  shows "object_store E u P = (Ok (lo_inner lo), P') \<and> lo_location lo = u
    \<and> lo_io_parallelism lo = (if url_scheme u = ''file'' then lk_local_io_parallelism K else lk_cloud_io_parallelism K)"
  using assms by (auto simp: new_store_def map_ok_Ok Let_def split: result.splits prod.splits)

lemma new_store_cache: "snd (new_store E K show_error u params P) = snd (object_store E u P)"
  by (simp add: new_store_def Let_def split: prod.split result.split)

section \<open>Caches by key\<close>

text \<open>
  The contract of a cache that builds a value on the first request of its key: a hit changes
  nothing, a miss stores what it built, and a failed build is not remembered.
\<close>

fun serve :: "('r \<Rightarrow> 'c \<Rightarrow> 'x \<times> 'c) \<Rightarrow> 'r list \<Rightarrow> 'c \<Rightarrow> 'x list \<times> 'c" where
  "serve req [] c = ([], c)"
| "serve req (r # rs) c = (case req r c of (x, c') \<Rightarrow> case serve req rs c' of (xs, c'') \<Rightarrow> (x # xs, c''))"

locale keyed_cache =
  fixes lookup :: "'c \<Rightarrow> 'k \<Rightarrow> 'v option"
    and request :: "'r \<Rightarrow> 'c \<Rightarrow> ('v, 'e) result \<times> 'c"
    and key :: "'r \<Rightarrow> 'k"
    and build :: "'r \<Rightarrow> ('v, 'e) result"
    and invar :: "'c \<Rightarrow> bool"
  assumes hit: "invar c \<Longrightarrow> lookup c (key r) = Some v \<Longrightarrow> request r c = (Ok v, c)"
    and miss_ok: "invar c \<Longrightarrow> lookup c (key r) = None \<Longrightarrow> build r = Ok v \<Longrightarrow>
      \<exists>c'. request r c = (Ok v, c') \<and> invar c' \<and> lookup c' = (lookup c)(key r := Some v)"
    and miss_err: "invar c \<Longrightarrow> lookup c (key r) = None \<Longrightarrow> build r = Err e \<Longrightarrow> request r c = (Err e, c)"
begin

lemma request_cases:
  assumes "invar c" "request r c = (x, c')"
  shows "invar c' \<and> (\<forall>k v. lookup c k = Some v \<longrightarrow> lookup c' k = Some v)
    \<and> (\<forall>k v. lookup c' k = Some v \<longrightarrow> lookup c k = Some v \<or> key r = k \<and> build r = Ok v)
    \<and> (case x of Ok v \<Rightarrow> lookup c' (key r) = Some v | Err e \<Rightarrow> build r = Err e)"
proof (cases "lookup c (key r)")
  case (Some v)
  with assms hit [OF assms(1) Some] show ?thesis by auto
next
  case None
  show ?thesis
  proof (cases "build r")
    case (Ok v)
    with assms miss_ok [OF assms(1) None Ok] None show ?thesis by auto
  next
    case (Err e)
    then have "x = Err e" "c' = c" using assms miss_err [OF assms(1) None Err] by simp_all
    with assms(1) Err show ?thesis by simp
  qed
qed

lemma serve_contents:
  assumes "serve request rs c = (xs, c')" "invar c"
  shows "invar c' \<and> (\<forall>k v. lookup c k = Some v \<longrightarrow> lookup c' k = Some v)
    \<and> (\<forall>k v. lookup c' k = Some v \<longrightarrow> lookup c k = Some v \<or> (\<exists>r\<in>set rs. key r = k \<and> build r = Ok v))
    \<and> list_all2 (\<lambda>r x. case x of Ok v \<Rightarrow> lookup c' (key r) = Some v | Err e \<Rightarrow> build r = Err e) rs xs"
  using assms
proof (induction rs arbitrary: c xs)
  case (Cons r rs)
  obtain x c1 where x: "request r c = (x, c1)" by fastforce
  obtain ys c2 where ys: "serve request rs c1 = (ys, c2)" by fastforce
  have eq: "xs = x # ys" "c' = c2" using Cons.prems(1) x ys by simp_all
  note one = request_cases [OF Cons.prems(2) x]
  have more: "invar c' \<and> (\<forall>k v. lookup c1 k = Some v \<longrightarrow> lookup c' k = Some v)
    \<and> (\<forall>k v. lookup c' k = Some v \<longrightarrow> lookup c1 k = Some v \<or> (\<exists>r\<in>set rs. key r = k \<and> build r = Ok v))
    \<and> list_all2 (\<lambda>r x. case x of Ok v \<Rightarrow> lookup c' (key r) = Some v | Err e \<Rightarrow> build r = Err e) rs ys"
    using ys one by (intro Cons.IH) (simp_all add: eq)
  have "case x of Ok v \<Rightarrow> lookup c' (key r) = Some v | Err e \<Rightarrow> build r = Err e"
    using one more by (cases x) auto
  moreover have "lookup c k = Some v \<or> (\<exists>r\<in>set (r # rs). key r = k \<and> build r = Ok v)"
    if "lookup c' k = Some v" for k v
    using that one more by (metis list.set_intros)
  ultimately show ?case using one more unfolding eq by simp
qed simp

text \<open>From an empty cache, requests with one key that succeed all get one value.\<close>

lemma serve_shares:
  assumes "serve request rs c = (xs, c')" "invar c" "lookup c = (\<lambda>_. None)" "i < length rs"
    "xs ! i = Ok v"
  shows "\<exists>r\<in>set rs. key r = key (rs ! i) \<and> build r = Ok v"
    and "j < length rs \<Longrightarrow> key (rs ! j) = key (rs ! i) \<Longrightarrow> xs ! j = Ok w \<Longrightarrow> w = v"
proof -
  note all = serve_contents [OF assms(1,2)]
  have at: "lookup c' (key (rs ! k)) = Some u" if "k < length rs" "xs ! k = Ok u" for k u
    using all that by (auto dest: list_all2_nthD)
  show "\<exists>r\<in>set rs. key r = key (rs ! i) \<and> build r = Ok v"
    using at [OF assms(4,5)] all assms(3) by fastforce
  show "j < length rs \<Longrightarrow> key (rs ! j) = key (rs ! i) \<Longrightarrow> xs ! j = Ok w \<Longrightarrow> w = v"
    using at [OF assms(4,5)] at by fastforce
qed

lemma serve_errors:
  assumes "serve request rs c = (xs, c')" "invar c" "i < length rs" "xs ! i = Err e"
  shows "build (rs ! i) = Err e"
  using serve_contents [OF assms(1,2)] assms(3,4) by (auto dest: list_all2_nthD)

end

definition provider_for :: "s3_config \<Rightarrow> opendal_config \<Rightarrow> store_provider \<Rightarrow> bool" where
  "provider_for c config P \<longleftrightarrow> sm_wf (sp_stores P) \<and> sp_s3_config P = c \<and> sp_opendal_config P = config"

definition fresh_store :: "storage_env \<Rightarrow> s3_config \<Rightarrow> opendal_config \<Rightarrow> url \<Rightarrow> store res" where
  "fresh_store E c config u = map_ok (Tracked (store_key u))
     (build_store E \<lparr>sp_s3_config = c, sp_opendal_config = config, sp_stores = []\<rparr> u)"

lemma build_store_stores: "provider_for c config P \<Longrightarrow> build_store E P u =
    build_store E \<lparr>sp_s3_config = c, sp_opendal_config = config, sp_stores = []\<rparr> u"
  by (simp add: build_store_def provider_for_def)

interpretation stores: keyed_cache "\<lambda>P. map_of (sp_stores P)" "object_store E" store_key
    "fresh_store E c config" "provider_for c config" for E c config
proof unfold_locales
  fix P u s
  assume P: "provider_for c config P" "map_of (sp_stores P) (store_key u) = None"
    "fresh_store E c config u = Ok s"
  then obtain s' where "build_store E P u = Ok s'" "s = Tracked (store_key u) s'"
    by (auto simp: fresh_store_def build_store_stores result_simps)
  with P show "\<exists>P'. object_store E u P = (Ok s, P') \<and> provider_for c config P'
      \<and> map_of (sp_stores P') = (map_of (sp_stores P))(store_key u \<mapsto> s)"
    by (simp add: object_store_def provider_for_def sm_wf_insert sm_get_insert Let_def)
next
  fix P u e
  assume P: "provider_for c config P" "map_of (sp_stores P) (store_key u) = None"
    "fresh_store E c config u = Err e"
  then show "object_store E u P = (Err e, P)"
    by (simp add: object_store_def fresh_store_def build_store_stores result_simps)
qed (simp add: object_store_def)

section \<open>One store per host\<close>

text \<open>
  What the \<open>url\<close> crate documents of parsed URLs: a scheme has no dollar sign, parsing the
  serialisation gives the URL back, and the scheme and the authority determine the host and
  everything before the path.
\<close>

definition urls_documented :: "storage_env \<Rightarrow> url list \<Rightarrow> bool" where
  "urls_documented E us \<longleftrightarrow>
     list_all (\<lambda>u. CHR ''$'' \<notin> set (url_scheme u) \<and> se_url_parse E (url_str u) = Ok u) us
     \<and> list_all (\<lambda>u. list_all (\<lambda>v. url_scheme u = url_scheme v \<and> url_authority u = url_authority v
          \<longrightarrow> url_host u = url_host v \<and> url_before_path u = url_before_path v) us) us"

lemma append_sep_eq: "c \<notin> set a \<Longrightarrow> c \<notin> set b \<Longrightarrow> a @ c # x = b @ c # y \<longleftrightarrow> a = b \<and> x = y"
proof (induction a arbitrary: b)
  case Nil
  then show ?case by (cases b) auto
next
  case (Cons d a)
  then show ?case by (cases b) auto
qed

lemma same_key_same_origin:
  assumes "urls_documented E us" "u \<in> set us" "v \<in> set us" "store_key u = store_key v"
  shows "url_scheme u = url_scheme v" "url_host u = url_host v" "url_before_path u = url_before_path v"
proof -
  have "CHR ''$'' \<notin> set (url_scheme u)" "CHR ''$'' \<notin> set (url_scheme v)"
    using assms(1-3) by (simp_all add: urls_documented_def list_all_iff)
  then have same: "url_scheme u = url_scheme v" "url_authority u = url_authority v"
    using assms(4) append_sep_eq [of "CHR ''$''" "url_scheme u" "url_scheme v"]
    by (simp_all add: store_key_def)
  moreover have "url_scheme u = url_scheme v \<and> url_authority u = url_authority v
      \<longrightarrow> url_host u = url_host v \<and> url_before_path u = url_before_path v"
    using assms(1-3) unfolding urls_documented_def list_all_iff by blast
  ultimately show "url_scheme u = url_scheme v" "url_host u = url_host v"
    "url_before_path u = url_before_path v" by blast+
qed

lemma from_s3_uri_Ok:
  assumes "from_s3_uri E uri c config = Ok st"
  obtains u b op0 op p where "se_url_parse E uri = Ok u" "url_scheme u = ''s3''" "url_host u = Some b"
    "b \<noteq> []" "operator_new E (S3Service (s3_builder b c)) = Ok op0"
    "opendal_config_apply (se_fits E) config op0 = Ok op"
    "st = \<lparr>st_operator = op, st_object_store = OpendalStore op, st_object_path = p, st_location = u\<rparr>"
proof -
  from assms obtain u where u: "se_url_parse E uri = Ok u"
    by (cases "se_url_parse E uri") (simp_all add: from_s3_uri_def context_of_def)
  with assms have scheme: "url_scheme u = ''s3''"
    by (cases "url_scheme u = ''s3''") (simp_all add: from_s3_uri_def context_of_def)
  from assms u scheme obtain b where b: "url_host u = Some b" "b \<noteq> []"
    by (cases "url_host u") (auto simp: from_s3_uri_def context_of_def split: if_splits)
  from assms u scheme b have rest: "and_then (context_of ''initializing OpenDAL S3 storage''
       (operator_new E (S3Service (s3_builder b c))) opendal_into) (\<lambda>op0.
     and_then (opendal_config_apply (se_fits E) config op0) (\<lambda>op.
     and_then (map_err (\<lambda>e. error_message (''invalid S3 object path: '' @ e))
       (se_path_from_url_path E (url_path u))) (\<lambda>object_path.
     Ok \<lparr>st_operator = op, st_object_store = OpendalStore op,
         st_object_path = object_path, st_location = u\<rparr>))) = Ok st"
    by (simp add: from_s3_uri_def context_of_def)
  then obtain op0 op p where "operator_new E (S3Service (s3_builder b c)) = Ok op0"
    "opendal_config_apply (se_fits E) config op0 = Ok op"
    "st = \<lparr>st_operator = op, st_object_store = OpendalStore op, st_object_path = p, st_location = u\<rparr>"
    unfolding and_then_Ok context_of_Ok map_err_Ok by blast
  with u scheme b show thesis by (rule that)
qed

lemma build_store_s3: "url_scheme u = ''s3'' \<Longrightarrow> build_store E P u =
    map_ok st_object_store (from_s3_uri E (url_str u) (sp_s3_config P) (sp_opendal_config P))"
  by (simp add: build_store_def)

lemma build_store_other: "url_scheme u \<noteq> ''s3'' \<Longrightarrow> url_scheme u = url_scheme v \<Longrightarrow>
    url_before_path u = url_before_path v \<Longrightarrow> build_store E P u = build_store E P v"
  by (simp add: build_store_def)

lemma build_store_by_key:
  assumes "urls_documented E us" "u \<in> set us" "v \<in> set us" "store_key u = store_key v"
    "build_store E P u = Ok s" "build_store E P v = Ok t"
  shows "s = t"
proof -
  note same = same_key_same_origin [OF assms(1-4)]
  have parse: "se_url_parse E (url_str u) = Ok u" "se_url_parse E (url_str v) = Ok v"
    using assms(1-3) by (auto simp: urls_documented_def list_all_iff)
  show ?thesis
  proof (cases "url_scheme u = ''s3''")
    case True
    then obtain a b where
      a: "from_s3_uri E (url_str u) (sp_s3_config P) (sp_opendal_config P) = Ok a" "s = st_object_store a"
      and b: "from_s3_uri E (url_str v) (sp_s3_config P) (sp_opendal_config P) = Ok b" "t = st_object_store b"
      using assms(5,6) same(1) by (auto simp: build_store_s3 map_ok_Ok)
    show ?thesis
      by (rule from_s3_uri_Ok [OF a(1)], rule from_s3_uri_Ok [OF b(1)])
        (use parse same(2) a(2) b(2) in simp)
  next
    case False
    with build_store_other [OF False same(1,3)] assms(5,6) show ?thesis by simp
  qed
qed

text \<open>
  C17: Over a whole write, however its requests for stores are ordered, all requests for one
  scheme and authority that succeed get one and the same store, wrapped in the I/O tracker
  once; it is the store a fresh build for the requested URL would give, so no bucket or host
  ever gets another one's store; and a request that fails does so because its build fails.
\<close>

theorem one_store_per_authority:
  assumes "urls_documented E us"
    "serve (object_store E) us (store_provider_new s3 config) = (xs, P)" "i < length us"
  shows "case xs ! i of
      Err e \<Rightarrow> build_store E (store_provider_new s3 config) (us ! i) = Err e
    | Ok s \<Rightarrow> (\<exists>t. s = Tracked (store_key (us ! i)) t
        \<and> (\<forall>t'. build_store E (store_provider_new s3 config) (us ! i) = Ok t' \<longrightarrow> t' = t)
        \<and> (\<forall>j s'. j < length us \<and> store_key (us ! j) = store_key (us ! i) \<and> xs ! j = Ok s' \<longrightarrow> s' = s))"
proof -
  let ?P = "store_provider_new s3 config"
  let ?c = "sp_s3_config ?P"
  have new: "provider_for ?c config ?P" "map_of (sp_stores ?P) = (\<lambda>_. None)"
    by (simp_all add: provider_for_def store_provider_new_def)
  have fresh: "fresh_store E ?c config u = map_ok (Tracked (store_key u)) (build_store E ?P u)" for u
    by (simp add: fresh_store_def build_store_stores [OF new(1)])
  show ?thesis
  proof (cases "xs ! i")
    case (Err e)
    with stores.serve_errors [OF assms(2) new(1) assms(3)] fresh show ?thesis
      by (simp add: result_simps)
  next
    case (Ok s)
    note shares = stores.serve_shares [OF assms(2) new assms(3) Ok]
    obtain u t where u: "u \<in> set us" "store_key u = store_key (us ! i)" "build_store E ?P u = Ok t"
      "s = Tracked (store_key (us ! i)) t"
      using shares(1) by (auto simp: fresh result_simps)
    have "t' = t" if "build_store E ?P (us ! i) = Ok t'" for t'
      using build_store_by_key [OF assms(1) _ u(1) u(2) [symmetric] that u(3)] assms(3) by simp
    with u(4) Ok shares(2) show ?thesis by auto
  qed
qed

definition storage_ref :: "url list \<Rightarrow> storage_env" where
  "storage_ref us = \<lparr>se_fits = (\<lambda>_. True),
     se_url_parse = (\<lambda>s. ok_or (find (\<lambda>u. url_str u = s) us) ''relative URL without a base''),
     se_url_from_file_path = (\<lambda>p. Some \<lparr>url_str = ''file://'' @ p, url_scheme = ''file'', url_authority = [],
        url_host = None, url_path = p, url_query = None, url_fragment = None, url_before_path = ''file://''\<rparr>),
     se_url_to_file_path = (\<lambda>u. if url_scheme u = ''file'' then Some (url_path u) else None),
     se_path_from = id, se_path_from_url_path = (\<lambda>p. Ok (trim_start_slashes p)),
     se_percent_decode = Ok, se_operator_new = (\<lambda>_. None), se_current_dir = Ok ''/work''\<rparr>"

definition s3_url :: "string \<Rightarrow> string \<Rightarrow> url" where
  "s3_url bucket key = \<lparr>url_str = ''s3://'' @ bucket @ ''/'' @ key, url_scheme = ''s3'',
     url_authority = bucket, url_host = Some bucket, url_path = ''/'' @ key, url_query = None,
     url_fragment = None, url_before_path = ''s3://'' @ bucket\<rparr>"

theorem one_store_per_authority_witness:
  "\<exists>xs P. serve (object_store (storage_ref [s3_url ''b'' ''x'', s3_url ''b'' ''y'']))
        [s3_url ''b'' ''x'', s3_url ''b'' ''y''] (store_provider_new None opendal_config_default) = (xs, P)
    \<and> (case xs ! 1 of
        Err e \<Rightarrow> build_store (storage_ref [s3_url ''b'' ''x'', s3_url ''b'' ''y''])
            (store_provider_new None opendal_config_default) (s3_url ''b'' ''y'') = Err e
      | Ok s \<Rightarrow> \<exists>t. s = Tracked ''s3$b'' t)"
proof -
  let ?us = "[s3_url ''b'' ''x'', s3_url ''b'' ''y'']"
  obtain xs P where run: "serve (object_store (storage_ref ?us)) ?us
      (store_provider_new None opendal_config_default) = (xs, P)" by fastforce
  have "urls_documented (storage_ref ?us) ?us"
    by (simp add: urls_documented_def storage_ref_def s3_url_def)
  from one_store_per_authority [OF this run, of 1] show ?thesis
    unfolding run by (auto simp: store_key_def s3_url_def split: result.splits)
qed

section \<open>What an opened input promises\<close>

definition policy_layers :: "opendal_config \<Rightarrow> layer list" where
  "policy_layers config = [TimeoutLayer (timeout_ms config) (io_timeout_ms config),
     RetryLayer (retry_max_times config) (retry_min_delay_ms config) (retry_max_delay_ms config)
       (as_f32 (retry_factor config)) True]"

lemma operator_new_Ok: "operator_new E s = Ok op \<Longrightarrow> op = \<lparr>op_service = s, op_layers = []\<rparr>"
  by (simp add: operator_new_def split: option.splits)

lemma applied_operator:
  assumes "operator_new E s = Ok op0" "opendal_config_apply (se_fits E) config op0 = Ok op"
  shows "op = \<lparr>op_service = s, op_layers = policy_layers config\<rparr> \<and> sound_config (se_fits E) config"
  using assms(2) operator_new_Ok [OF assms(1)] by (simp add: apply_Ok policy_layers_def)

lemma http_operator_Ok: "http_operator E endpoint config = Ok op \<Longrightarrow>
    op = \<lparr>op_service = HttpEndpoint endpoint, op_layers = policy_layers config\<rparr>
    \<and> sound_config (se_fits E) config"
  unfolding http_operator_def and_then_Ok map_err_Ok by (blast dest: applied_operator)

lemma s3_operator_Ok:
  assumes "from_s3_uri E uri c config = Ok st"
  obtains u b where "se_url_parse E uri = Ok u" "url_scheme u = ''s3''" "url_host u = Some b" "b \<noteq> []"
    "st_operator st = \<lparr>op_service = S3Service (s3_builder b c), op_layers = policy_layers config\<rparr>"
    "se_path_from_url_path E (url_path u) = Ok (st_object_path st)" "sound_config (se_fits E) config"
proof -
  obtain u b op0 op p where u: "se_url_parse E uri = Ok u" "url_scheme u = ''s3''" "url_host u = Some b"
    "b \<noteq> []" "operator_new E (S3Service (s3_builder b c)) = Ok op0"
    "opendal_config_apply (se_fits E) config op0 = Ok op"
    "st = \<lparr>st_operator = op, st_object_store = OpendalStore op, st_object_path = p, st_location = u\<rparr>"
    using assms by (rule from_s3_uri_Ok)
  then have "se_path_from_url_path E (url_path u) = Ok p"
    using assms by (auto simp: from_s3_uri_def context_of_def and_then_Ok map_err_Ok)
  with u applied_operator [OF u(5,6)] show thesis by (intro that) simp_all
qed

lemma local_operator_Ok: "from_local_path E path = Ok st \<Longrightarrow>
    st_operator st = \<lparr>op_service = FsRoot ''/'', op_layers = []\<rparr>"
  unfolding from_local_path_def and_then_Ok context_of_Ok by (auto dest!: operator_new_Ok)

lemma local_path_Ok:
  assumes "from_local_path E path = Ok st"
  shows "\<exists>absolute. (if prefix ''/'' path then absolute = path
      else \<exists>dir. se_current_dir E = Ok dir \<and> absolute = path_push dir path)
    \<and> st_object_path st = se_path_from E (trim_start_slashes absolute)"
  using assms unfolding from_local_path_def path_is_absolute_def and_then_Ok map_ok_Ok map_err_Ok
  by (cases "prefix ''/'' path") (auto simp: map_ok_Ok map_err_Ok)

text \<open>
  Where a path is stored, with which layers, and at which path there: a file of the local root,
  a relative one in the working directory, when no S3 configuration is given; with one, the
  bucket that is the host of the S3 URI, at the URI's path.
\<close>

definition stored_in :: "storage_env \<Rightarrow> string \<Rightarrow> s3_config option \<Rightarrow> opendal_config \<Rightarrow> operator \<Rightarrow> string \<Rightarrow> bool" where
  "stored_in E path s3 config op object_path \<longleftrightarrow> (case s3 of
     None \<Rightarrow> \<not> is_s3_uri path \<and> op = \<lparr>op_service = FsRoot ''/'', op_layers = []\<rparr>
       \<and> (\<exists>absolute. (if prefix ''/'' path then absolute = path
              else \<exists>dir. se_current_dir E = Ok dir \<and> absolute = path_push dir path)
            \<and> object_path = se_path_from E (trim_start_slashes absolute))
   | Some c \<Rightarrow> is_s3_uri path \<and> (\<exists>u b. se_url_parse E path = Ok u \<and> url_scheme u = ''s3''
       \<and> url_host u = Some b \<and> b \<noteq> []
       \<and> op = \<lparr>op_service = S3Service (s3_builder b c), op_layers = policy_layers config\<rparr>
       \<and> se_path_from_url_path E (url_path u) = Ok object_path))"

lemma from_path_Ok:
  assumes "from_path E path s3 config = Ok st"
  shows "sound_config (se_fits E) config \<and> stored_in E path s3 config (st_operator st) (st_object_path st)"
proof -
  from assms have sound: "sound_config (se_fits E) config"
    by (auto simp: from_path_def and_then_Ok validate_Ok)
  show ?thesis
  proof (cases s3)
    case None
    with assms have "\<not> is_s3_uri path" "from_local_path E path = Ok st"
      by (auto simp: from_path_def and_then_Ok ok_or_Ok split: if_splits)
    with None sound local_path_Ok [OF this(2)] show ?thesis by (simp add: stored_in_def local_operator_Ok)
  next
    case (Some c)
    with assms have "is_s3_uri path" "from_s3_uri E path c config = Ok st"
      by (auto simp: from_path_def and_then_Ok split: if_splits)
    with Some sound show ?thesis
      unfolding stored_in_def by (auto elim!: s3_operator_Ok)
  qed
qed

text \<open>
  C18: An input that opens has a non-empty path inside its operator, and its operator is one of
  three: the local root without layers, at the absolute path, when no S3 configuration is given
  and the path is no S3 URI; the bucket that is the host of an S3 URI, at the URI's path, when
  an S3 configuration is given; or the origin of an HTTP(S) URL that has neither query nor
  fragment, at the URL's decoded path. Every remote operator carries a timeout inside a retry,
  and no input opens under an invalid policy.
\<close>

theorem input_file_open_outcome:
  assumes "input_file_open E path s3 config = Ok f"
  shows "sound_config (se_fits E) config \<and> in_opendal_path f \<noteq> []
    \<and> (stored_in E path s3 config (in_operator f) (in_opendal_path f)
       \<or> (\<exists>u p. se_url_parse E path = Ok u \<and> (url_scheme u = ''http'' \<or> url_scheme u = ''https'')
            \<and> url_query u = None \<and> url_fragment u = None \<and> in_uri f = url_str u
            \<and> in_operator f = \<lparr>op_service = HttpEndpoint (url_before_path u),
                               op_layers = policy_layers config\<rparr>
            \<and> se_percent_decode E (url_path u) = Ok p \<and> in_opendal_path f = trim_start_slashes p))"
proof -
  have stored: "sound_config (se_fits E) config \<and> stored_in E path s3 config (in_operator f) (in_opendal_path f)"
    if "open_stored_file E path s3 config = Ok f"
    using that from_path_Ok by (auto simp: open_stored_file_def and_then_Ok)
  have http: "sound_config (se_fits E) config \<and> url_query u = None \<and> url_fragment u = None
      \<and> in_uri f = url_str u \<and> in_operator f = \<lparr>op_service = HttpEndpoint (url_before_path u),
                               op_layers = policy_layers config\<rparr>
      \<and> (\<exists>p. se_percent_decode E (url_path u) = Ok p \<and> in_opendal_path f = trim_start_slashes p)"
    if "open_http_file E path u config = Ok f" for u
    using that http_operator_Ok
    by (auto simp: open_http_file_def and_then_Ok map_err_Ok split: if_splits)
  have ne: "in_opendal_path f \<noteq> []"
    using assms by (auto simp: input_file_open_def and_then_Ok split: if_splits)
  have opened: "(case se_url_parse E path of
      Ok u \<Rightarrow> if url_scheme u = ''http'' \<or> url_scheme u = ''https'' then open_http_file E path u config
        else open_stored_file E path s3 config
    | Err _ \<Rightarrow> open_stored_file E path s3 config) = Ok f"
    using assms unfolding input_file_open_def and_then_Ok by (auto split: if_splits)
  show ?thesis
  proof (cases "se_url_parse E path")
    case (Err e)
    with opened stored ne show ?thesis by simp
  next
    case (Ok u)
    show ?thesis
    proof (cases "url_scheme u = ''http'' \<or> url_scheme u = ''https''")
      case True
      with opened Ok have "open_http_file E path u config = Ok f" by simp
      with http ne Ok True show ?thesis by blast
    next
      case False
      with opened Ok have "open_stored_file E path s3 config = Ok f" by simp
      with stored ne show ?thesis by blast
    qed
  qed
qed

lemma storage_ref_sel [simp]:
  "se_fits (storage_ref us) = (\<lambda>_. True)" "se_operator_new (storage_ref us) = (\<lambda>_. None)"
  "se_current_dir (storage_ref us) = Ok ''/work''" "se_path_from (storage_ref us) = id"
  "se_url_parse (storage_ref us) = (\<lambda>s. ok_or (find (\<lambda>u. url_str u = s) us) ''relative URL without a base'')"
  by (simp_all add: storage_ref_def)

definition example_file :: input_file where
  "example_file = \<lparr>in_operator = \<lparr>op_service = FsRoot ''/'', op_layers = []\<rparr>,
     in_opendal_path = ''work/a.warc'', in_uri = ''/work/a.warc''\<rparr>"

lemma example_input:
  "input_file_open (storage_ref []) ''a.warc'' None opendal_config_default = Ok example_file"
proof -
  have "opendal_config_validate (\<lambda>_. True) opendal_config_default = Ok opendal_config_default"
    by (simp add: validate_Ok default_config_sound)
  moreover have "\<not> is_s3_uri ''a.warc''" by code_simp
  moreover have "from_local_path (storage_ref []) ''a.warc'' = Ok
      \<lparr>st_operator = \<lparr>op_service = FsRoot ''/'', op_layers = []\<rparr>,
       st_object_store = OpendalStore \<lparr>op_service = FsRoot ''/'', op_layers = []\<rparr>,
       st_object_path = ''work/a.warc'', st_location = \<lparr>url_str = ''file:///work/a.warc'',
         url_scheme = ''file'', url_authority = [], url_host = None, url_path = ''/work/a.warc'',
         url_query = None, url_fragment = None, url_before_path = ''file://''\<rparr>\<rparr>"
    by (simp add: from_local_path_def path_is_absolute_def path_push_def operator_new_def
        trim_start_slashes_def context_of_def) (simp add: storage_ref_def)
  ultimately show ?thesis
    by (simp add: input_file_open_def open_stored_file_def from_path_def example_file_def)
      (simp add: storage_ref_def)
qed

lemma example_s3_input:
  "\<exists>f. input_file_open (storage_ref [s3_url ''b'' ''x'']) ''s3://b/x'' (Some s3_config_default) opendal_config_default = Ok f"
proof -
  have "opendal_config_validate (\<lambda>_. True) opendal_config_default = Ok opendal_config_default"
    by (simp add: validate_Ok default_config_sound)
  moreover have "is_s3_uri ''s3://b/x''" by code_simp
  moreover obtain op where "opendal_config_apply (\<lambda>_. True) opendal_config_default
      \<lparr>op_service = S3Service (s3_builder ''b'' s3_config_default), op_layers = []\<rparr> = Ok op"
    by (metis apply_Ok default_config_sound)
  ultimately show ?thesis
    by (auto simp: input_file_open_def open_stored_file_def from_path_def from_s3_uri_def s3_url_def operator_new_def
        context_of_def trim_start_slashes_def) (simp_all add: storage_ref_def trim_start_slashes_def)
qed

theorem input_file_open_outcome_witness:
  "(\<exists>f. input_file_open (storage_ref [s3_url ''b'' ''x'']) ''s3://b/x'' (Some s3_config_default) opendal_config_default = Ok f
      \<and> in_operator f = \<lparr>op_service = S3Service (s3_builder ''b'' s3_config_default), op_layers = policy_layers opendal_config_default\<rparr>
      \<and> in_opendal_path f = ''x'')
    \<and> input_file_open (storage_ref []) ''a.warc'' None opendal_config_default = Ok example_file
    \<and> stored_in (storage_ref []) ''a.warc'' None opendal_config_default (in_operator example_file) ''work/a.warc''"
proof -
  obtain f where f: "input_file_open (storage_ref [s3_url ''b'' ''x'']) ''s3://b/x'' (Some s3_config_default) opendal_config_default = Ok f"
    using example_s3_input by blast
  have "se_url_parse (storage_ref [s3_url ''b'' ''x'']) ''s3://b/x'' = Ok (s3_url ''b'' ''x'')" by (simp add: s3_url_def)
  then have "in_operator f = \<lparr>op_service = S3Service (s3_builder ''b'' s3_config_default), op_layers = policy_layers opendal_config_default\<rparr>
      \<and> in_opendal_path f = ''x''"
    using input_file_open_outcome [OF f] by (auto simp: stored_in_def s3_url_def storage_ref_def trim_start_slashes_def)
  moreover have "stored_in (storage_ref []) ''a.warc'' None opendal_config_default (in_operator example_file) ''work/a.warc''"
    using input_file_open_outcome [OF example_input] by (simp add: example_file_def)
  ultimately show ?thesis using f example_input by blast
qed

text \<open>
  C19: The requests of an S3 store are signed with the given credentials or not at all: the
  configuration files and the instance metadata are never consulted, exactly the key, secret
  and token of the configuration are set, the signature is skipped exactly when none of the
  three is given, and a custom endpoint always carries a scheme.
\<close>

theorem s3_store_credentials:
  assumes "from_s3_uri E uri c config = Ok st"
  shows "\<exists>opts. op_service (st_operator st) = S3Service opts
    \<and> DisableConfigLoad \<in> set opts \<and> DisableEc2Metadata \<in> set opts
    \<and> {k. AccessKeyId k \<in> set opts} = set_option (s3_key_id c)
    \<and> {k. SecretAccessKey k \<in> set opts} = set_option (s3_secret c)
    \<and> {k. SessionToken k \<in> set opts} = set_option (s3_session_token c)
    \<and> (SkipSignature \<in> set opts \<longleftrightarrow>
         s3_key_id c = None \<and> s3_secret c = None \<and> s3_session_token c = None)
    \<and> (\<forall>e. Endpoint e \<in> set opts \<longrightarrow> has_scheme_separator e)"
proof -
  obtain b where b: "op_service (st_operator st) = S3Service (s3_builder b c)"
    using assms by (rule s3_operator_Ok) simp
  have sep: "has_scheme_separator (''https://'' @ e) \<and> has_scheme_separator (''http://'' @ e)" for e
    using sublist_appendI [of "''://''" "''https''" e] sublist_appendI [of "''://''" "''http''" e]
    by (simp add: has_scheme_separator_def)
  show ?thesis
    by (intro exI conjI, rule b)
      (use sep in \<open>auto simp: s3_builder_def split: option.splits if_splits\<close>)
qed

theorem s3_store_credentials_witness:
  "\<exists>st opts. from_s3_uri (storage_ref [s3_url ''b'' ''x'']) ''s3://b/x'' s3_config_default
        opendal_config_default = Ok st
    \<and> op_service (st_operator st) = S3Service opts \<and> SkipSignature \<in> set opts"
proof -
  have "sound_config (\<lambda>_. True) opendal_config_default" by (simp add: default_config_sound)
  then obtain op where "opendal_config_apply (\<lambda>_. True) opendal_config_default
      \<lparr>op_service = S3Service (s3_builder ''b'' s3_config_default), op_layers = []\<rparr> = Ok op"
    using apply_Ok by blast
  then obtain st where st: "from_s3_uri (storage_ref [s3_url ''b'' ''x'']) ''s3://b/x'' s3_config_default
      opendal_config_default = Ok st"
    by (simp add: from_s3_uri_def s3_url_def context_of_def operator_new_def) (simp add: storage_ref_def)
  from s3_store_credentials [OF st] st show ?thesis
    by (auto simp: s3_config_default_def)
qed

end
