(* ===== verification/Merge.thy ===== *)
theory Merge
  imports Prelude
begin

text \<open>
  The outcomes of reading several streams at once, which the sources do when the order of
  their input is not asked for.
\<close>

text \<open>What \<open>flatten_unordered\<close> may yield: an interleaving of the streams, each in its own order.\<close>

fun merges :: "'a list list \<Rightarrow> 'a list set" where
  "merges [] = {[]}"
| "merges (xs # xss) = (\<Union>ys\<in>merges xss. shuffles xs ys)"

lemma merges_mset: "zs \<in> merges xss \<Longrightarrow> mset zs = mset (concat xss)"
  by (induction xss arbitrary: zs) (auto simp: mset_shuffles)

lemma concat_in_merges: "concat xss \<in> merges xss"
proof (induction xss)
  case (Cons xs xss)
  have "xs @ concat xss \<in> shuffles xs (concat xss)"
    by (induction xs) (auto simp: Cons_in_shuffles_leftI)
  with Cons show ?case by auto
qed simp

lemma merges_map: "zs \<in> merges xss \<Longrightarrow> map f zs \<in> merges (map (map f) xss)"
proof (induction xss arbitrary: zs)
  case (Cons xs xss)
  then obtain ys where ys: "ys \<in> merges xss" "zs \<in> shuffles xs ys" by auto
  have "map f zs \<in> shuffles (map f xs) (map f ys)"
    using ys(2) by (induction xs ys arbitrary: zs rule: shuffles.induct) (auto simp: Cons_in_shuffles_iff)
  with Cons.IH [OF ys(1)] show ?case by auto
qed simp

end
