(* ===== verification/WarcOpen.thy ===== *)
theory WarcOpen
  imports WarcStream WarcSegment WarcIndex Storage Merge
begin

text \<open>
  \<open>rust/src/source/warc.rs\<close> and \<open>warc_index.rs\<close>, opening: the \<open>WarcSource\<close> builder and
  \<open>open\<close>, which reads one file, the ranges of an index, or the files of a segment. What
  OpenDAL, the gzip decoder, \<open>serde_json\<close> and \<open>warc_rs\<close> return is the record \<open>warc_io\<close>.
  A stream is the list of the items it yields, and the counters a function returns are those
  once it has been read to the end; the ranges of an index are yielded in order
  (\<open>buffered\<close>), the files of a segment in an interleaving that is an argument. A task that
  panics is \<open>None\<close>.
\<close>

record 'j warc_io =
  io_stat :: "operator \<Rightarrow> string \<Rightarrow> (u64, opendal_error) result"
  io_read :: "operator \<Rightarrow> string \<Rightarrow> (bytes, opendal_error) result"
  io_read_range :: "operator \<Rightarrow> string \<Rightarrow> range64 \<Rightarrow> (bytes, opendal_error) result"
  io_object :: "operator \<Rightarrow> string \<Rightarrow> u64 \<Rightarrow> (reader, opendal_error) result"
  io_gunzip :: "reader \<Rightarrow> reader"
  io_gunzip_bytes :: "bytes \<Rightarrow> reader"
  io_json :: "'j json_api"
  io_records :: "reader \<Rightarrow> (warc_record, string) result list"
  io_parser_panic :: "reader \<Rightarrow> string option"
  io_batch_check :: batch_check

record warc_source =
  ws_path :: string
  ws_batch_size :: usize
  ws_s3_config :: "s3_config option"
  ws_opendal_config :: opendal_config
  ws_projection :: "nat list option"
  ws_read_options :: source_read_options
  ws_index_path :: "string option"

definition DEFAULT_BATCH_SIZE :: usize where
  "DEFAULT_BATCH_SIZE = 8192"

definition warc_source_new :: "string \<Rightarrow> warc_source" where
  "warc_source_new path = \<lparr>ws_path = path, ws_batch_size = DEFAULT_BATCH_SIZE, ws_s3_config = None,
     ws_opendal_config = opendal_config_default, ws_projection = None,
     ws_read_options = source_read_options_default, ws_index_path = None\<rparr>"

definition with_batch_size :: "usize \<Rightarrow> warc_source \<Rightarrow> warc_source" where
  "with_batch_size n s = s\<lparr>ws_batch_size := n\<rparr>"

definition with_s3_config :: "s3_config \<Rightarrow> warc_source \<Rightarrow> warc_source" where
  "with_s3_config c s = s\<lparr>ws_s3_config := Some c\<rparr>"

definition with_opendal_config :: "opendal_config \<Rightarrow> warc_source \<Rightarrow> warc_source" where
  "with_opendal_config c s = s\<lparr>ws_opendal_config := c\<rparr>"

definition with_projection :: "nat list \<Rightarrow> warc_source \<Rightarrow> warc_source" where
  "with_projection p s = s\<lparr>ws_projection := Some p\<rparr>"

definition with_max_read_parallelism :: "usize \<Rightarrow> warc_source \<Rightarrow> warc_source" where
  "with_max_read_parallelism n s =
     s\<lparr>ws_read_options := (ws_read_options s)\<lparr>max_read_parallelism := n\<rparr>\<rparr>"

definition with_index_path :: "string \<Rightarrow> warc_source \<Rightarrow> warc_source" where
  "with_index_path i s = s\<lparr>ws_index_path := Some i\<rparr>"

text \<open>\<open>WarcSource::location\<close>\<close>

definition warc_location :: "storage_env \<Rightarrow> warc_source \<Rightarrow> (operator \<times> string) res" where
  "warc_location E s = map_ok (\<lambda>f. (in_operator f, in_opendal_path f))
     (input_file_open E (ws_path s) (ws_s3_config s) (ws_opendal_config s))"

definition records_stream ::
  "'j warc_io \<Rightarrow> reader \<Rightarrow> bool \<Rightarrow> usize \<Rightarrow> nat list \<Rightarrow> field list \<Rightarrow> warc_item list" where
  "records_stream IO rd gzipped batch_size p fs =
     (let input = decompressed_input (io_gunzip IO) rd gzipped
      in spawn_records (io_batch_check IO) (unat batch_size) p fs (io_records IO input) (io_parser_panic IO input) None)"

text \<open>The parser reads the records \<open>rs\<close> of the input, and does not panic.\<close>

definition reads_records :: "'j warc_io \<Rightarrow> reader \<Rightarrow> bool \<Rightarrow> warc_record list \<Rightarrow> bool" where
  "reads_records IO rd gzipped rs \<longleftrightarrow> (let input = decompressed_input (io_gunzip IO) rd gzipped
     in io_records IO input = map Ok rs \<and> io_parser_panic IO input = None)"

lemma records_stream_delivers:
  assumes "projected_schema projection = Ok (p, fs)" "0 < unat n" "try_new_documented (io_batch_check IO)"
    "reads_records IO rd gzipped rs" "list_all (readable p) rs"
  obtains cs where "records_stream IO rd gzipped n p fs = map (Ok \<circ> batch_of p fs) cs"
    "concat cs = rs" "list_all (chunk_fits (unat n) p) cs"
  using spawn_records_delivers [OF assms(1-3,5)] assms(4) that
  by (auto simp: records_stream_def reads_records_def Let_def)

section \<open>A file with an index\<close>

text \<open>
  The first half of \<open>open_indexed_warc\<close> is the planning, with the counters after it; the
  second the stream of the units, with the counters once it is read.
\<close>

definition plan_indexed_warc ::
  "storage_env \<Rightarrow> 'j warc_io \<Rightarrow> string \<Rightarrow> string \<Rightarrow> s3_config option \<Rightarrow> opendal_config \<Rightarrow> usize
    \<Rightarrow> read_metrics \<Rightarrow> range64 list res option \<times> read_metrics" where
  "plan_indexed_warc E IO path index_path s3 config max_par m =
    (case and_then (from_path E index_path s3 config) (\<lambda>st.
       if st_object_path st = [] then Err (error_message ''WARC index must not be a storage root'')
       else and_then (map_err opendal_into (io_read IO (st_operator st) (st_object_path st)))
              (\<lambda>index. Ok (st_object_path st, index))) of
       Err e \<Rightarrow> (Some (Err e), m)
     | Ok (index_object_path, index) \<Rightarrow>
        (let m1 = add_bytes_read (of_nat (length index)) m in
         case parse_warc_index (io_json IO) (io_gunzip_bytes IO) index (is_gzipped index_object_path) path of
           Err e \<Rightarrow> (Some (Err e), m1)
         | Ok entries \<Rightarrow> (case build_index_work_units entries max_par of
             None \<Rightarrow> (None, m1)
           | Some (Err e) \<Rightarrow> (Some (Err e), m1)
           | Some (Ok units) \<Rightarrow>
              (let source_length = foldl (\<lambda>total r. saturating_add total (range_len r)) 0 units
               in (Some (Ok units),
                   set_total_bytes (saturating_add (of_nat (length index)) source_length) m1)))))"

definition unit_stream ::
  "'j warc_io \<Rightarrow> operator \<Rightarrow> string \<Rightarrow> bool \<Rightarrow> usize \<Rightarrow> nat list \<Rightarrow> field list \<Rightarrow> range64
    \<Rightarrow> read_metrics \<Rightarrow> warc_item list \<times> read_metrics" where
  "unit_stream IO op path gzipped batch_size p fs unit m =
     (case io_read_range IO op path unit of
        Err e \<Rightarrow> ([Err (opendal_into e)], m)
      | Ok content \<Rightarrow> (records_stream IO (content, None) gzipped batch_size p fs,
          add_bytes_read (of_nat (length content)) m))"

fun units_stream ::
  "'j warc_io \<Rightarrow> operator \<Rightarrow> string \<Rightarrow> bool \<Rightarrow> usize \<Rightarrow> nat list \<Rightarrow> field list \<Rightarrow> range64 list
    \<Rightarrow> read_metrics \<Rightarrow> warc_item list \<times> read_metrics" where
  "units_stream IO op path gzipped batch_size p fs [] m = ([], m)"
| "units_stream IO op path gzipped batch_size p fs (unit # units) m =
     (case unit_stream IO op path gzipped batch_size p fs unit m of (items, m1) \<Rightarrow>
      case units_stream IO op path gzipped batch_size p fs units m1 of (items', m2) \<Rightarrow>
        (items @ items', m2))"

section \<open>A segment\<close>

text \<open>
  The stream of one file of a segment, each error with the file's name, and the counters once
  it is read.
\<close>

definition file_stream ::
  "'j warc_io \<Rightarrow> operator \<Rightarrow> usize \<Rightarrow> nat list \<Rightarrow> field list \<Rightarrow> u64 \<Rightarrow> string \<Rightarrow> read_metrics
    \<Rightarrow> (warc_item list \<times> read_metrics) option" where
  "file_stream IO op batch_size p fs file_count file m =
     (case context_of file (io_stat IO op file) opendal_into of
        Err e \<Rightarrow> Some ([Err e], m)
      | Ok sz \<Rightarrow> (case add_object sz file_count m of
          None \<Rightarrow> None
        | Some m1 \<Rightarrow> (case context_of file (io_object IO op file sz) opendal_into of
            Err e \<Rightarrow> Some ([Err e], m1)
          | Ok rd \<Rightarrow> Some (map (map_err (with_context file))
              (records_stream IO rd (is_gzipped file) batch_size p fs),
              add_bytes_read (of_nat (length (fst rd))) m1))))"

text \<open>
  The streams of the files. The counters end up the same in every order in which the files
  are opened and read, so the manifest's order stands for all.
\<close>

fun files_streams ::
  "'j warc_io \<Rightarrow> operator \<Rightarrow> usize \<Rightarrow> nat list \<Rightarrow> field list \<Rightarrow> u64 \<Rightarrow> string list \<Rightarrow> read_metrics
    \<Rightarrow> (warc_item list list \<times> read_metrics) option" where
  "files_streams IO op batch_size p fs file_count [] m = Some ([], m)"
| "files_streams IO op batch_size p fs file_count (file # files) m =
     (case file_stream IO op batch_size p fs file_count file m of
        None \<Rightarrow> None
      | Some (items, m1) \<Rightarrow> map_option (\<lambda>(rest, m2). (items # rest, m2))
          (files_streams IO op batch_size p fs file_count files m1))"

definition open_segment ::
  "'j warc_io \<Rightarrow> (usize \<Rightarrow> warc_item list list \<Rightarrow> warc_item list) \<Rightarrow> warc_source \<Rightarrow> warc_segment
    \<Rightarrow> operator \<Rightarrow> nat list \<Rightarrow> field list \<Rightarrow> read_metrics \<Rightarrow> (warc_item list res \<times> read_metrics) option" where
  "open_segment IO flatten s segment op p fs m =
     (if ws_index_path s \<noteq> None
      then Some (Err (error_message ''index_path is not supported for WARC segments''), m)
      else (case segment_files (io_read IO op) (io_gunzip_bytes IO) segment of
          Err e \<Rightarrow> Some (Err e, m)
        | Ok files \<Rightarrow> map_option
            (\<lambda>(streams, m1). (Ok (flatten (max_read_parallelism (ws_read_options s)) streams), m1))
            (files_streams IO op (ws_batch_size s) p fs (of_nat (length files)) files m)))"

section \<open>\<open>open\<close>\<close>

text \<open>One file read from its start, and an indexed file.\<close>

definition open_whole_file ::
  "'j warc_io \<Rightarrow> operator \<Rightarrow> string \<Rightarrow> usize \<Rightarrow> nat list \<Rightarrow> field list \<Rightarrow> read_metrics
    \<Rightarrow> warc_item list res \<times> read_metrics" where
  "open_whole_file IO op path batch_size p fs m =
     (case map_err opendal_into (io_stat IO op path) of
        Err e \<Rightarrow> (Err e, m)
      | Ok sz \<Rightarrow> (let m1 = set_total_bytes sz m in
          case map_err opendal_into (io_object IO op path sz) of
            Err e \<Rightarrow> (Err e, m1)
          | Ok rd \<Rightarrow> (Ok (records_stream IO rd (is_gzipped path) batch_size p fs),
              add_bytes_read (of_nat (length (fst rd))) m1)))"

definition open_indexed_warc ::
  "storage_env \<Rightarrow> 'j warc_io \<Rightarrow> operator \<Rightarrow> string \<Rightarrow> bool \<Rightarrow> string \<Rightarrow> s3_config option \<Rightarrow> opendal_config
    \<Rightarrow> usize \<Rightarrow> nat list \<Rightarrow> field list \<Rightarrow> usize \<Rightarrow> read_metrics \<Rightarrow> (warc_item list res \<times> read_metrics) option" where
  "open_indexed_warc E IO op path gzipped index_path s3 config batch_size p fs max_par m =
     (case plan_indexed_warc E IO path index_path s3 config max_par m of
        (None, _) \<Rightarrow> None
      | (Some (Err e), m1) \<Rightarrow> Some (Err e, m1)
      | (Some (Ok units), m1) \<Rightarrow> (case units_stream IO op path gzipped batch_size p fs units m1 of
          (items, m2) \<Rightarrow> Some (Ok items, m2)))"

definition warc_source_open ::
  "storage_env \<Rightarrow> 'j warc_io \<Rightarrow> (usize \<Rightarrow> warc_item list list \<Rightarrow> warc_item list) \<Rightarrow> warc_source \<Rightarrow> read_metrics
    \<Rightarrow> ((field list \<times> warc_item list) res \<times> read_metrics) option" where
  "warc_source_open E IO flatten s m =
    (if ws_batch_size s = 0 then Some (Err (error_message ''batch_size must be positive''), m)
     else case and_then (source_read_options_validate (ws_read_options s)) (\<lambda>opts.
            and_then (projected_schema (ws_projection s)) (\<lambda>(p, fs).
            map_ok (\<lambda>(op, path). (opts, p, fs, op, path)) (warc_location E s))) of
       Err e \<Rightarrow> Some (Err e, m)
     | Ok (opts, p, fs, op, path) \<Rightarrow>
         map_option (\<lambda>(r, m1). (map_ok (Pair fs) r, m1))
           (case segment_parse path of
              Some segment \<Rightarrow> open_segment IO flatten s segment op p fs m
            | None \<Rightarrow> (case ws_index_path s of
                Some index_path \<Rightarrow> open_indexed_warc E IO op path (is_gzipped path) index_path
                  (ws_s3_config s) (ws_opendal_config s) (ws_batch_size s) p fs
                  (max_read_parallelism opts) m
              | None \<Rightarrow> Some (open_whole_file IO op path (ws_batch_size s) p fs m))))"

section \<open>Opening never panics\<close>

lemma build_index_total: "max_par \<noteq> 0 \<Longrightarrow> build_index_work_units entries max_par \<noteq> None"
  by (auto simp: build_index_work_units_def div_ceil_def split: result.splits)

lemma plan_total: "max_par \<noteq> 0 \<Longrightarrow> fst (plan_indexed_warc E IO path index_path s3 config max_par m) \<noteq> None"
  by (auto simp: plan_indexed_warc_def Let_def dest: build_index_total
      split: result.splits option.splits prod.splits)

lemma file_stream_total:
  assumes "fst (rm_opened m) \<noteq> u_max"
  obtains items m' where "file_stream IO op n p fs objects file m = Some (items, m')"
    "unat (fst (rm_opened m')) \<le> Suc (unat (fst (rm_opened m)))"
proof (cases "context_of file (io_stat IO op file) opendal_into")
  case (Err e)
  then show ?thesis using that by (simp add: file_stream_def)
next
  case (Ok sz)
  obtain m1 where m1: "add_object sz objects m = Some m1"
    "unat (fst (rm_opened m1)) = Suc (unat (fst (rm_opened m)))"
    using assms by (rule add_object_Some [of m sz objects])
  show ?thesis
    by (cases "context_of file (io_object IO op file sz) opendal_into")
      (use that Ok m1 in \<open>simp_all add: file_stream_def add_bytes_read_def\<close>)
qed

lemma files_streams_total:
  "unat (fst (rm_opened m)) + length files < 2 ^ 64 \<Longrightarrow>
   files_streams IO op n p fs objects files m \<noteq> None"
proof (induction files arbitrary: m)
  case (Cons f fls)
  have "fst (rm_opened m) \<noteq> u_max" using Cons.prems by (auto simp: unat_max)
  then obtain items m' where "file_stream IO op n p fs objects f m = Some (items, m')"
    "unat (fst (rm_opened m')) \<le> Suc (unat (fst (rm_opened m)))"
    by (rule file_stream_total)
  with Cons show ?case by simp
qed simp

text \<open>
  C7: Opening a WARC source and reading it to the end never panics, whatever the storage, the
  index, the manifest and the records hold: the only divisor is the validated parallelism,
  and the counter of opened files cannot overflow (a manifest of fewer than \<open>2 ^ 64\<close> files).
\<close>

theorem warc_open_never_panics:
  assumes "\<forall>op segment files. segment_files (io_read IO op) (io_gunzip_bytes IO) segment = Ok files
    \<longrightarrow> length files < 2 ^ 64"
  shows "warc_source_open E IO flatten s read_metrics_default \<noteq> None"
proof (cases "ws_batch_size s = 0")
  case True
  then show ?thesis by (simp add: warc_source_open_def)
next
  case False
  let ?args = "and_then (source_read_options_validate (ws_read_options s)) (\<lambda>opts.
            and_then (projected_schema (ws_projection s)) (\<lambda>(p, fs).
            map_ok (\<lambda>(op, path). (opts, p, fs, op, path)) (warc_location E s)))"
  show ?thesis
  proof (cases ?args)
    case (Err e)
    with False show ?thesis by (simp add: warc_source_open_def)
  next
    case (Ok args)
    obtain opts p fs op path where args: "args = (opts, p, fs, op, path)" by (cases args) auto
    have par: "max_read_parallelism opts \<noteq> 0"
      using Ok args by (auto simp: result_simps source_read_options_validate_def split: if_splits prod.splits)
    have segment: "open_segment IO flatten s segment op p fs read_metrics_default \<noteq> None" for segment
    proof (cases "segment_files (io_read IO op) (io_gunzip_bytes IO) segment")
      case (Ok fls)
      then have "unat (fst (rm_opened read_metrics_default)) + length fls < 2 ^ 64"
        using assms by (simp add: read_metrics_default_def)
      then obtain r where "files_streams IO op (ws_batch_size s) p fs (of_nat (length fls)) fls
          read_metrics_default = Some r"
        using files_streams_total by blast
      with Ok show ?thesis by (cases r) (simp add: open_segment_def)
    qed (simp add: open_segment_def)
    have indexed: "open_indexed_warc E IO op path gz i (ws_s3_config s) (ws_opendal_config s)
        (ws_batch_size s) p fs (max_read_parallelism opts) read_metrics_default \<noteq> None" for gz i
    proof -
      obtain r m1 where "plan_indexed_warc E IO path i (ws_s3_config s) (ws_opendal_config s)
          (max_read_parallelism opts) read_metrics_default = (Some r, m1)"
        using plan_total [OF par] by (metis option.exhaust prod.exhaust_sel)
      then show ?thesis by (cases r) (simp_all add: open_indexed_warc_def split: prod.split)
    qed
    show ?thesis
      using False segment indexed
      by (simp add: warc_source_open_def Ok args split: option.splits)
  qed
qed

section \<open>A scan through an index\<close>

definition range_slice :: "bytes \<Rightarrow> range64 \<Rightarrow> bytes" where
  "range_slice content r = drop (unat (fst r)) (take (unat (snd r)) content)"

text \<open>
  What the storage and the decoders promise of an archive \<open>content\<close> whose entry \<open>r\<close> holds
  the records \<open>recs r\<close>: a range read returns the bytes of the range, and the bytes of
  adjacent entries decode to the records of one after the other (concatenated gzip members
  are one stream).
\<close>

definition archive_decodes ::
  "'j warc_io \<Rightarrow> operator \<Rightarrow> string \<Rightarrow> bool \<Rightarrow> bytes \<Rightarrow> range64 list \<Rightarrow> (range64 \<Rightarrow> warc_record list) \<Rightarrow> bool" where
  "archive_decodes IO op path gzipped content entries recs \<longleftrightarrow>
     (\<forall>r\<in>set entries. unat (snd r) \<le> length content)
     \<and> (\<forall>r. unat (snd r) \<le> length content \<longrightarrow> io_read_range IO op path r = Ok (range_slice content r))
     \<and> (\<forall>g. g \<noteq> [] \<and> contiguous g \<and> set g \<subseteq> set entries \<longrightarrow>
          reads_records IO (range_slice content (unit_of g), None) gzipped (concat (map recs g)))"

lemma length_range_slice: "fst r \<le> snd r \<Longrightarrow> unat (snd r) \<le> length content \<Longrightarrow> length (range_slice content r) = nat_len r"
  by (simp add: range_slice_def nat_len_def)

lemma unat_saturating_fold: "unat (foldl (\<lambda>acc r. saturating_add acc (range_len r)) a rs)
    = min (unat a + sum_list (map (\<lambda>r. unat (range_len r)) rs)) (2 ^ 64 - 1)"
proof (induction rs arbitrary: a)
  case Nil
  have "unat a < 2 ^ 64" using unsigned_less [of a, where ?'a = nat] by simp
  then show ?case by simp
next
  case (Cons r rs)
  then show ?case by (simp add: unat_saturating_add)
qed

text \<open>The stream of the units of the runs \<open>gs\<close> is the records of \<open>concat gs\<close>.\<close>

lemma units_stream_delivers:
  assumes "projected_schema projection = Ok (p, fs)" "0 < unat n" "try_new_documented (io_batch_check IO)"
    "archive_decodes IO op path gz content entries recs"
    "\<forall>r\<in>set entries. list_all (readable p) (recs r)"
    "\<forall>g\<in>set gs. g \<noteq> [] \<and> contiguous g \<and> set g \<subseteq> set entries \<and> fst (unit_of g) \<le> snd (unit_of g)"
  shows "\<exists>chunks. units_stream IO op path gz n p fs (map unit_of gs) m
      = (map (Ok \<circ> batch_of p fs) chunks,
         m\<lparr>rm_bytes_read := rm_bytes_read m + of_nat (sum_list (map (nat_len \<circ> unit_of) gs))\<rparr>)
    \<and> concat chunks = concat (map recs (concat gs)) \<and> list_all (chunk_fits (unat n) p) chunks"
  using assms(6)
proof (induction gs arbitrary: m)
  case Nil
  show ?case by (intro exI [of _ "[]"]) simp
next
  case (Cons g gs)
  let ?u = "unit_of g"
  have g: "g \<noteq> []" "contiguous g" "set g \<subseteq> set entries" "fst ?u \<le> snd ?u"
    using Cons.prems by simp_all
  have "last g \<in> set entries" using g(1,3) last_in_set by blast
  then have fits: "unat (snd ?u) \<le> length content"
    using assms(4) by (simp add: archive_decodes_def unit_of_def)
  then have rd: "io_read_range IO op path ?u = Ok (range_slice content ?u)"
    using assms(4) unfolding archive_decodes_def by blast
  have recs: "reads_records IO (range_slice content ?u, None) gz (concat (map recs g))"
    using assms(4) g(1-3) unfolding archive_decodes_def by blast
  have "list_all (readable p) (concat (map recs g))"
    using assms(5) g(3) by (auto simp: list_all_iff)
  then obtain cs where cs: "records_stream IO (range_slice content ?u, None) gz n p fs = map (Ok \<circ> batch_of p fs) cs"
    "concat cs = concat (map recs g)" "list_all (chunk_fits (unat n) p) cs"
    by (rule records_stream_delivers [OF assms(1-3) recs])
  let ?m = "m\<lparr>rm_bytes_read := rm_bytes_read m + of_nat (nat_len ?u)\<rparr>"
  have prem: "\<forall>g\<in>set gs. g \<noteq> [] \<and> contiguous g \<and> set g \<subseteq> set entries \<and> fst (unit_of g) \<le> snd (unit_of g)"
    using Cons.prems by simp
  obtain ds where ds: "units_stream IO op path gz n p fs (map unit_of gs) ?m = (map (Ok \<circ> batch_of p fs) ds,
       ?m\<lparr>rm_bytes_read := rm_bytes_read ?m + of_nat (sum_list (map (nat_len \<circ> unit_of) gs))\<rparr>)"
    "concat ds = concat (map recs (concat gs))" "list_all (chunk_fits (unat n) p) ds"
    using Cons.IH [OF prem, of ?m] by blast
  have "unit_stream IO op path gz n p fs ?u m = (map (Ok \<circ> batch_of p fs) cs, ?m)"
    using cs(1) length_range_slice [OF g(4) fits] by (simp add: unit_stream_def rd add_bytes_read_def)
  with ds cs show ?case
    by (intro exI [of _ "cs @ ds"]) (simp add: add.assoc comp_def)
qed

lemma runs_are_runs:
  assumes "\<forall>r\<in>set entries. valid_range r" "pairwise_apart entries" "g \<in> set (runs_of target (sort_key fst entries))"
  shows "g \<noteq> [] \<and> contiguous g \<and> set g \<subseteq> set entries \<and> fst (unit_of g) \<le> snd (unit_of g)"
proof -
  let ?xs = "sort_key fst entries"
  have valid: "\<forall>r\<in>set ?xs. valid_range r" using assms(1) by simp
  note g = runs_of_valid [OF valid assms(3)]
  have "set g \<subseteq> set (concat (runs_of target ?xs))" using assms(3) by auto
  then have "set g \<subseteq> set entries" by (simp add: concat_runs_of)
  moreover have "valid_range (unit_of g)" using contiguous_unit [OF g(3) _ g(2)] g(1) by blast
  ultimately show ?thesis using g by (simp add: valid_range_def)
qed

text \<open>
  C5: Scanning a WARC file through an index yields the records of all its entries, each
  entry once and in archive order whatever the order of the index, in batches within the
  limits; and the counters end at one hundred percent: the bytes read equal the total
  announced, the index plus its entries, however the entries were coalesced into range reads.
\<close>

theorem indexed_scan_delivers_index:
  assumes "projected_schema projection = Ok (p, fs)" "n \<noteq> 0" "max_par \<noteq> 0"
    "try_new_documented (io_batch_check IO)"
    "from_path E index_path s3 config = Ok st" "st_object_path st \<noteq> []"
    "io_read IO (st_operator st) (st_object_path st) = Ok index"
    "parse_warc_index (io_json IO) (io_gunzip_bytes IO) index (is_gzipped (st_object_path st)) path = Ok entries"
    "pairwise_apart entries" "length index + sum_list (map nat_len entries) < 2 ^ 64"
    "archive_decodes IO op path gz content entries recs"
    "\<forall>r\<in>set entries. list_all (readable p) (recs r)"
  shows "\<exists>chunks m'. open_indexed_warc E IO op path gz index_path s3 config n p fs max_par read_metrics_default
        = Some (Ok (map (\<lambda>c. Ok (fs, map (\<lambda>i. column_of i c) p)) chunks), m')
    \<and> concat chunks = concat (map recs (sort_key fst entries))
    \<and> list_all (chunk_fits (unat n) p) chunks
    \<and> unat (rm_total_bytes m') = length index + sum_list (map nat_len entries)
    \<and> rm_bytes_read m' = rm_total_bytes m'"
proof -
  let ?total = "sum_list (map nat_len entries)"
  note valid = parse_warc_index_valid(2) [OF assms(8)]
  obtain target where plan: "build_index_work_units entries max_par
      = Some (Ok (map unit_of (runs_of target (sort_key fst entries))))"
    using build_decides [OF valid assms(3)] assms(9,10) by (auto simp: Let_def)
  let ?gs = "runs_of target (sort_key fst entries)" and ?m1 = "add_bytes_read (of_nat (length index)) read_metrics_default"
  let ?len = "foldl (\<lambda>total r. saturating_add total (range_len r)) 0 (map unit_of ?gs)"
  let ?m2 = "set_total_bytes (saturating_add (of_nat (length index)) ?len) ?m1"
  note units = units_cover [OF valid plan]
  have lens: "map (\<lambda>r. unat (range_len r)) (map unit_of ?gs) = map nat_len (map unit_of ?gs)"
    using units by (intro map_cong) (auto simp: valid_range_def intro!: unat_range_len)
  have "unat ?len = ?total"
    using units assms(10) by (simp only: unat_saturating_fold lens) simp
  then have total: "unat (rm_total_bytes ?m2) = length index + ?total"
    using assms(10) by (simp add: set_total_bytes_def unat_saturating_add unat_of_nat)
  obtain chunks where chunks: "units_stream IO op path gz n p fs (map unit_of ?gs) ?m2
      = (map (Ok \<circ> batch_of p fs) chunks,
         ?m2\<lparr>rm_bytes_read := rm_bytes_read ?m2 + of_nat (sum_list (map (nat_len \<circ> unit_of) ?gs))\<rparr>)"
    "concat chunks = concat (map recs (concat ?gs))" "list_all (chunk_fits (unat n) p) chunks"
    using units_stream_delivers [OF assms(1) _ assms(4,11,12), of n ?gs ?m2]
      runs_are_runs [OF valid assms(9)] assms(2) by (auto simp: unat_gt_0)
  have sum: "sum_list (map (nat_len \<circ> unit_of) ?gs) = ?total" using units by simp
  let ?m3 = "?m2\<lparr>rm_bytes_read := rm_bytes_read ?m2 + of_nat ?total\<rparr>"
  have "rm_bytes_read ?m3 = of_nat (length index + ?total)"
    by (simp add: set_total_bytes_def add_bytes_read_def read_metrics_default_def)
  moreover have "unat (of_nat (length index + ?total) :: u64) = length index + ?total"
    using assms(10) by (simp add: unat_of_nat del: of_nat_add)
  ultimately have read: "rm_bytes_read ?m3 = rm_total_bytes ?m3"
    using total by (simp add: word_unat_eq_iff del: of_nat_add)
  have "open_indexed_warc E IO op path gz index_path s3 config n p fs max_par read_metrics_default
      = Some (Ok (map (Ok \<circ> batch_of p fs) chunks), ?m3)"
    using chunks(1) by (simp add: open_indexed_warc_def plan_indexed_warc_def assms(5-8) plan sum)
  with chunks total read show ?thesis
    by (intro exI [of _ chunks] exI [of _ ?m3]) (simp add: map_batch_of concat_runs_of del: of_nat_add)
qed

text \<open>An archive of one-byte records, with two entries that are adjacent.\<close>

lemma range_slice_append:
  assumes "i \<le> j" "j \<le> k"
  shows "range_slice content (i, j) @ range_slice content (j, k) = range_slice content (i, k)"
proof -
  have le: "unat i \<le> unat j" "unat j \<le> unat k" using assms by (simp_all add: word_le_nat_alt)
  let ?t = "take (unat k) content"
  have "take (unat j) content = take (unat j) ?t" using le by (simp add: min_def)
  moreover have "drop (unat i) (take (unat j) ?t) @ drop (unat j) ?t = drop (unat i) ?t"
  proof (cases "unat i \<le> length ?t")
    case True
    then have "unat i - length (take (unat j) ?t) = 0" using le by (auto simp: min_def)
    then have "drop (unat i) (take (unat j) ?t @ drop (unat j) ?t)
        = drop (unat i) (take (unat j) ?t) @ drop (unat j) ?t"
      by (simp only: drop_append drop_0)
    then show ?thesis by (simp only: append_take_drop_id)
  next
    case False
    with le show ?thesis by simp
  qed
  ultimately show ?thesis by (simp add: range_slice_def)
qed

lemma range_slice_contiguous:
  "g \<noteq> [] \<Longrightarrow> contiguous g \<Longrightarrow> \<forall>r\<in>set g. valid_range r \<Longrightarrow>
   concat (map (range_slice content) g) = range_slice content (unit_of g)"
proof (induction g)
  case (Cons a g)
  show ?case
  proof (cases "g = []")
    case True
    then show ?thesis by (simp add: unit_of_def)
  next
    case False
    then have g: "contiguous g" "snd a = fst (hd g)" using Cons.prems
      by (cases g; simp add: contiguous_def)+
    have "valid_range (unit_of g)" using contiguous_unit(3) [OF g(1) False] Cons.prems by simp
    then have "snd a \<le> snd (last g)" using g(2) by (simp add: valid_range_def unit_of_def)
    moreover have "fst a \<le> snd a" using Cons.prems by (simp add: valid_range_def less_imp_le)
    ultimately have "range_slice content a @ range_slice content (unit_of g) = range_slice content (unit_of (a # g))"
      using range_slice_append [of "fst a" "snd a" "snd (last g)" content] g(2) False
      by (cases a) (simp add: unit_of_def)
    with Cons False g show ?thesis by simp
  qed
qed simp

definition byte_records :: "bytes \<Rightarrow> warc_record list" where
  "byte_records b = map (\<lambda>c. example_record [c] []) b"

definition example_io :: "nat warc_io" where
  "example_io = \<lparr>io_stat = (\<lambda>_ _. Ok 4),
     io_read = (\<lambda>_ _. Ok [CHR ''{'', CHR 0x0A, CHR ''{'', CHR ''}'']),
     io_read_range = (\<lambda>_ _ r. Ok (range_slice ''abcd'' r)), io_object = (\<lambda>_ _ _. Ok (''abcd'', None)),
     io_gunzip = id, io_gunzip_bytes = (\<lambda>b. (b, None)), io_json = json_ref,
     io_records = (\<lambda>rd. map Ok (byte_records (fst rd))),
     io_parser_panic = (\<lambda>_. None), io_batch_check = check_batch\<rparr>"

lemma example_archive: "archive_decodes example_io op path False ''abcd'' [(1, 2), (2, 4)]
    (\<lambda>r. byte_records (range_slice ''abcd'' r))"
proof -
  have "concat (map (\<lambda>r. byte_records (range_slice ''abcd'' r)) g) = byte_records (range_slice ''abcd'' (unit_of g))"
    if g: "g \<noteq> []" "contiguous g" "set g \<subseteq> {(1, 2), (2, 4)}" for g
  proof -
    have "\<forall>r\<in>set g. valid_range r" using g(3) by (auto simp: valid_range_def)
    from range_slice_contiguous [OF g(1,2) this, of "''abcd''"] show ?thesis
      by (simp add: byte_records_def map_concat comp_def flip: \<open>concat _ = _\<close>)
  qed
  then show ?thesis
    by (simp add: archive_decodes_def reads_records_def example_io_def decompressed_input_def)
qed

lemma example_index: "parse_warc_index json_ref (\<lambda>b. (b, None)) [CHR ''{'', CHR 0x0A, CHR ''{'', CHR ''}'']
    (is_gzipped ''work/i.json'') path = Ok [(1, 2), (2, 4)]"
proof -
  have lines: "buf_lines ([CHR ''{'', CHR 0x0A, CHR ''{'', CHR ''}''], None) = [Ok ''{'', Ok ''{}'']"
    by code_simp
  have trims: "trim ''{'' = ''{''" "trim ''{}'' = ''{}''" "is_gzipped ''work/i.json'' = False"
    by code_simp+
  show ?thesis
    unfolding parse_warc_index_def
    by (simp add: lines index_line_def trims index_entry_def json_u64_def json_ref_def
      checked_add_def map_filter_simps)
qed

lemma example_index_file: "\<exists>st. from_path (storage_ref []) ''i.json'' None opendal_config_default = Ok st
    \<and> st_object_path st = ''work/i.json''"
proof -
  have "\<not> is_s3_uri ''i.json''" by code_simp
  then show ?thesis
    by (simp add: from_path_def from_local_path_def path_is_absolute_def path_push_def operator_new_def
        trim_start_slashes_def context_of_def validate_Ok default_config_sound result_simps)
      (simp add: storage_ref_def)
qed

definition work_root :: operator where
  "work_root = \<lparr>op_service = FsRoot ''/'', op_layers = []\<rparr>"

theorem indexed_scan_delivers_index_witness:
  "\<exists>chunks m'. open_indexed_warc (storage_ref []) example_io work_root ''a.warc'' False ''i.json'' None
        opendal_config_default 10 [0] [Field ''id'' Utf8 False []] 2 read_metrics_default
      = Some (Ok (map (\<lambda>c. Ok ([Field ''id'' Utf8 False []], map (\<lambda>i. column_of i c) [0])) chunks), m')
    \<and> concat chunks = byte_records ''bcd'' \<and> unat (rm_total_bytes m') = 7
    \<and> rm_bytes_read m' = rm_total_bytes m'"
proof -
  obtain st where st: "from_path (storage_ref []) ''i.json'' None opendal_config_default = Ok st"
    "st_object_path st = ''work/i.json''" using example_index_file by blast
  have proj: "projected_schema (Some [0]) = Ok ([0], [Field ''id'' Utf8 False []])"
    by (simp add: projected_schema_Ok requested_columns_def well_projected_def warc_schema_def)
  have recs: "concat (map (\<lambda>r. byte_records (range_slice ''abcd'' r)) (sort_key fst [(1, 2), (2, 4)])) = byte_records ''bcd''"
    by (simp add: sort_key_def byte_records_def range_slice_def)
  show ?thesis
    using indexed_scan_delivers_index [OF proj, of 10 2 example_io "storage_ref []" "''i.json''" None
        opendal_config_default st "[CHR ''{'', CHR 0x0A, CHR ''{'', CHR ''}'']" "''a.warc''" "[(1, 2), (2, 4)]"
        work_root False "''abcd''" "\<lambda>r. byte_records (range_slice ''abcd'' r)", OF _ _ _ st(1) _ _ _ _ _ example_archive]
      st(2) example_index recs
    by (auto simp: example_io_def pairwise_apart_def apart_def nat_len_def readable_def list_all_iff)
qed

section \<open>A scan of a segment\<close>

definition file_decodes ::
  "'j warc_io \<Rightarrow> operator \<Rightarrow> nat list \<Rightarrow> string \<Rightarrow> warc_record list \<Rightarrow> u64 \<Rightarrow> bool" where
  "file_decodes IO op p file rs sz \<longleftrightarrow> io_stat IO op file = Ok sz
     \<and> (\<exists>rd. io_object IO op file sz = Ok rd \<and> length (fst rd) = unat sz
          \<and> reads_records IO rd (is_gzipped file) rs)
     \<and> list_all (readable p) rs"

lemma file_stream_delivers:
  assumes "projected_schema projection = Ok (p, fs)" "n \<noteq> 0" "try_new_documented (io_batch_check IO)"
    "file_decodes IO op p file rs sz"
  shows "\<exists>cs. file_stream IO op n p fs objects file m
      = map_option (Pair (map (Ok \<circ> batch_of p fs) cs)) (metric_run objects [Opened sz, Received sz] m)
    \<and> concat cs = rs \<and> list_all (chunk_fits (unat n) p) cs"
proof -
  obtain rd where rd: "io_object IO op file sz = Ok rd" "length (fst rd) = unat sz"
    "reads_records IO rd (is_gzipped file) rs"
    using assms(4) unfolding file_decodes_def by blast
  have n: "0 < unat n" and readable: "list_all (readable p) rs"
    using assms(2,4) by (auto simp: unat_gt_0 file_decodes_def)
  obtain cs where cs: "records_stream IO rd (is_gzipped file) n p fs = map (Ok \<circ> batch_of p fs) cs"
    "concat cs = rs" "list_all (chunk_fits (unat n) p) cs"
    by (rule records_stream_delivers [OF assms(1) n assms(3) rd(3) readable])
  have "file_stream IO op n p fs objects file m
      = map_option (Pair (map (Ok \<circ> batch_of p fs) cs)) (metric_run objects [Opened sz, Received sz] m)"
    using assms(4) rd cs(1)
    by (cases "add_object sz objects m") (simp_all add: file_stream_def file_decodes_def context_of_def)
  with cs show ?thesis by blast
qed

lemma metric_run_append: "metric_run objects (es @ es') m = Option.bind (metric_run objects es m) (metric_run objects es')"
  by (induction es arbitrary: m) (simp_all add: Option.bind_assoc cong: Option.bind_cong)

lemma files_streams_deliver:
  assumes "projected_schema projection = Ok (p, fs)" "n \<noteq> 0" "try_new_documented (io_batch_check IO)"
    "\<forall>f\<in>set fls. file_decodes IO op p f (recs f) (sizes f)"
  shows "\<exists>css. files_streams IO op n p fs objects fls m
      = map_option (Pair (map (map (Ok \<circ> batch_of p fs)) css))
          (metric_run objects (concat (map (\<lambda>f. [Opened (sizes f), Received (sizes f)]) fls)) m)
    \<and> list_all2 (\<lambda>f cs. concat cs = recs f \<and> list_all (chunk_fits (unat n) p) cs) fls css"
  using assms(4)
proof (induction fls arbitrary: m)
  case Nil
  show ?case by (intro exI [of _ "[]"]) simp
next
  case (Cons f fls)
  let ?es = "[Opened (sizes f), Received (sizes f)]"
  let ?all = "concat (map (\<lambda>f. [Opened (sizes f), Received (sizes f)]) fls)"
  have run: "metric_run objects (concat (map (\<lambda>f. [Opened (sizes f), Received (sizes f)]) (f # fls))) m
      = Option.bind (metric_run objects ?es m) (metric_run objects ?all)"
    by (simp only: metric_run_append list.map concat.simps)
  have fd: "file_decodes IO op p f (recs f) (sizes f)" using Cons.prems by simp
  obtain cs where cs: "file_stream IO op n p fs objects f m
      = map_option (Pair (map (Ok \<circ> batch_of p fs) cs)) (metric_run objects ?es m)"
    "concat cs = recs f" "list_all (chunk_fits (unat n) p) cs"
    using file_stream_delivers [OF assms(1-3) fd] by blast
  show ?case
  proof (cases "metric_run objects ?es m")
    case None
    obtain css where "list_all2 (\<lambda>f cs. concat cs = recs f \<and> list_all (chunk_fits (unat n) p) cs) fls css"
      using Cons.IH Cons.prems by fastforce
    with None cs show ?thesis
      unfolding run by (intro exI [of _ "cs # css"]) (simp del: metric_run.simps)
  next
    case (Some m1)
    obtain css where "files_streams IO op n p fs objects fls m1
      = map_option (Pair (map (map (Ok \<circ> batch_of p fs)) css))
          (metric_run objects (concat (map (\<lambda>f. [Opened (sizes f), Received (sizes f)]) fls)) m1)"
      "list_all2 (\<lambda>f cs. concat cs = recs f \<and> list_all (chunk_fits (unat n) p) cs) fls css"
      using Cons.IH [of m1] Cons.prems by fastforce
    with Some cs show ?thesis
      unfolding run
      by (intro exI [of _ "cs # css"]) (simp add: option.map_comp comp_def del: metric_run.simps)
  qed
qed

lemma events_of_files:
  "opened_sizes (concat (map (\<lambda>f. [Opened (sizes f), Received (sizes f)]) fls)) = map sizes fls"
  "received_chunks (concat (map (\<lambda>f. [Opened (sizes f), Received (sizes f)]) fls)) = map sizes fls"
  by (induction fls) (simp_all add: opened_sizes_def received_chunks_def)

text \<open>
  C6: Scanning a segment, or a whole crawl, reads every file the manifest selects: the stream
  is an interleaving of one stream per file, no item of which is an error, the batches of a
  file hold exactly its records in order and within the limits, whatever interleaving the
  concurrent reads produce; and the counters end at one hundred percent of the files' sizes.
\<close>

theorem segment_scan_complete:
  assumes "projected_schema projection = Ok (p, fs)" "ws_batch_size s \<noteq> 0"
    "try_new_documented (io_batch_check IO)" "ws_index_path s = None"
    "segment_files (io_read IO op) (io_gunzip_bytes IO) segment = Ok fls"
    "length fls < 2 ^ 64" "fls \<noteq> []" "\<forall>k xss. flatten k xss \<in> merges xss"
    "\<forall>f\<in>set fls. file_decodes IO op p f (recs f) (sizes f)"
    "sum_list (map (unat \<circ> sizes) fls) < 2 ^ 64"
  shows "\<exists>css stream m'. open_segment IO flatten s segment op p fs read_metrics_default
        = Some (Ok stream, m')
    \<and> stream \<in> merges (map (map (\<lambda>c. Ok (fs, map (\<lambda>i. column_of i c) p))) css)
    \<and> list_all2 (\<lambda>f cs. concat cs = recs f \<and> list_all (chunk_fits (unat (ws_batch_size s)) p) cs) fls css
    \<and> unat (rm_total_bytes m') = sum_list (map (unat \<circ> sizes) fls)
    \<and> rm_bytes_read m' = rm_total_bytes m'"
proof -
  let ?objects = "of_nat (length fls) :: u64"
  let ?es = "concat (map (\<lambda>f. [Opened (sizes f), Received (sizes f)]) fls)"
  have objects: "unat ?objects = length fls" "?objects \<noteq> 0"
    using assms(6,7) by (simp_all add: unat_of_nat word_unat_eq_iff)
  have "\<exists>m'. metric_run ?objects ?es read_metrics_default = Some m'
    \<and> unat (snap_total_bytes (snapshot m')) = min (sum_list (map unat (opened_sizes ?es))) (2 ^ 64 - 1)
    \<and> (sum_list (map unat (received_chunks ?es)) = sum_list (map unat (opened_sizes ?es))
       \<and> sum_list (map unat (opened_sizes ?es)) < 2 ^ 64
       \<longrightarrow> snap_bytes_read (snapshot m') = snap_total_bytes (snapshot m'))"
    using objects by (intro metric_run_exact) (simp_all add: events_of_files)
  then obtain m' where m': "metric_run ?objects ?es read_metrics_default = Some m'"
    "unat (rm_total_bytes m') = sum_list (map (unat \<circ> sizes) fls)" "rm_bytes_read m' = rm_total_bytes m'"
    using assms(10) by (auto simp: events_of_files snapshot_def)
  obtain css where css: "files_streams IO op (ws_batch_size s) p fs ?objects fls read_metrics_default
      = map_option (Pair (map (map (Ok \<circ> batch_of p fs)) css)) (metric_run ?objects ?es read_metrics_default)"
    "list_all2 (\<lambda>f cs. concat cs = recs f \<and> list_all (chunk_fits (unat (ws_batch_size s)) p) cs) fls css"
    using files_streams_deliver [OF assms(1-3,9)] by blast
  have batches: "map (map (Ok \<circ> batch_of p fs)) css = map (map (\<lambda>c. Ok (fs, map (\<lambda>i. column_of i c) p))) css"
    by (simp add: map_batch_of [abs_def])
  let ?stream = "flatten (max_read_parallelism (ws_read_options s))
    (map (map (\<lambda>c. Ok (fs, map (\<lambda>i. column_of i c) p))) css)"
  have "open_segment IO flatten s segment op p fs read_metrics_default = Some (Ok ?stream, m')"
    using css(1) m'(1) by (simp only: open_segment_def assms(4,5) batches) simp
  with css(2) m'(2,3) assms(8) show ?thesis by blast
qed

definition segment_source :: warc_source where
  "segment_source = with_projection [0] (with_batch_size 10 (warc_source_new ''r/crawl-data/c/segments/1''))"

definition segment_io :: "nat warc_io" where
  "segment_io = example_io\<lparr>io_read := (\<lambda>_ _. Ok ''crawl-data/c/segments/1/warc/a.warc''),
     io_stat := (\<lambda>_ _. Ok 4), io_object := (\<lambda>_ _ _. Ok (''abcd'', None))\<rparr>"

lemma segment_io_lists: "segment_files (io_read segment_io work_root) (io_gunzip_bytes segment_io)
    \<lparr>seg_root = ''r/'', seg_crawl = ''c'', seg_segment = Some ''1''\<rparr> = Ok [''r/crawl-data/c/segments/1/warc/a.warc'']"
proof -
  have "select_entries \<lparr>seg_root = ''r/'', seg_crawl = ''c'', seg_segment = Some ''1''\<rparr>
      ''crawl-data/c/segments/1/warc/a.warc'' = [''r/crawl-data/c/segments/1/warc/a.warc'']" by code_simp
  moreover have "utf8_valid ''crawl-data/c/segments/1/warc/a.warc''" by code_simp
  ultimately show ?thesis
    by (simp add: segment_files_def segment_io_def example_io_def context_of_def decode_manifest_def Let_def)
qed

theorem segment_scan_complete_witness:
  "\<exists>css stream m'. open_segment segment_io (\<lambda>_. concat) segment_source
        \<lparr>seg_root = ''r/'', seg_crawl = ''c'', seg_segment = Some ''1''\<rparr> work_root [0]
        [Field ''id'' Utf8 False []] read_metrics_default = Some (Ok stream, m')
    \<and> concat (concat css) = byte_records ''abcd''
    \<and> unat (rm_total_bytes m') = 4 \<and> rm_bytes_read m' = rm_total_bytes m'"
proof -
  let ?seg = "\<lparr>seg_root = ''r/'', seg_crawl = ''c'', seg_segment = Some ''1''\<rparr>"
  let ?f = "''r/crawl-data/c/segments/1/warc/a.warc''"
  have proj: "projected_schema (Some [0]) = Ok ([0], [Field ''id'' Utf8 False []])"
    by (simp add: projected_schema_Ok requested_columns_def well_projected_def warc_schema_def)
  note fls = segment_io_lists
  have gz: "\<not> is_gzipped ?f" by code_simp
  have decodes: "\<forall>f\<in>set [?f]. file_decodes segment_io work_root [0] f (byte_records ''abcd'') 4"
    using gz by (simp add: file_decodes_def reads_records_def segment_io_def example_io_def decompressed_input_def
        readable_def list_all_iff)
  have flat: "\<forall>k xss. (\<lambda>_. concat) k xss \<in> merges xss" using concat_in_merges by blast
  have src: "ws_batch_size segment_source \<noteq> 0" "try_new_documented (io_batch_check segment_io)"
    "ws_index_path segment_source = None"
    by (simp_all add: segment_source_def with_projection_def with_batch_size_def warc_source_new_def
        segment_io_def example_io_def)
  have small: "length [?f] < 2 ^ 64" "[?f] \<noteq> []" "sum_list (map (unat \<circ> (\<lambda>_. 4 :: u64)) [?f]) < 2 ^ 64"
    by simp_all
  obtain css stream m' where "open_segment segment_io (\<lambda>_. concat) segment_source ?seg work_root [0]
      [Field ''id'' Utf8 False []] read_metrics_default = Some (Ok stream, m')"
    "list_all2 (\<lambda>f cs. concat cs = byte_records ''abcd''
       \<and> list_all (chunk_fits (unat (ws_batch_size segment_source)) [0]) cs) [?f] css"
    "unat (rm_total_bytes m') = sum_list (map (unat \<circ> (\<lambda>_. 4 :: u64)) [?f])" "rm_bytes_read m' = rm_total_bytes m'"
    using segment_scan_complete [OF proj src fls small(1,2) flat decodes small(3)] by blast
  then show ?thesis
    by (intro exI [of _ css] exI [of _ stream] exI [of _ m']) (auto simp: list_all2_Cons1)
qed

lemma segment_io_files:
  assumes "segment_files (io_read segment_io op) (io_gunzip_bytes segment_io) segment = Ok files"
  shows "length files < 2 ^ 64"
proof -
  obtain body where body: "decode_manifest (io_gunzip_bytes segment_io) ''crawl-data/c/segments/1/warc/a.warc'' = Ok body"
    "files = select_entries segment body"
    using assms by (auto simp: segment_files_def segment_io_def context_of_def and_then_Ok Let_def split: if_splits)
  then have "body = ''crawl-data/c/segments/1/warc/a.warc''"
    by (simp add: segment_io_def example_io_def decode_manifest_def split: if_splits)
  moreover have "length (str_lines ''crawl-data/c/segments/1/warc/a.warc'') = 1" by code_simp
  moreover have "length files \<le> length (str_lines body)"
    using order_trans [OF length_filter_le] by (simp add: body(2) select_entries_def Let_def)
  ultimately show ?thesis by simp
qed

text \<open>A segment whose manifest lists a file is opened.\<close>

theorem warc_open_never_panics_witness:
  "segment_files (io_read segment_io work_root) (io_gunzip_bytes segment_io)
      \<lparr>seg_root = ''r/'', seg_crawl = ''c'', seg_segment = Some ''1''\<rparr> = Ok [''r/crawl-data/c/segments/1/warc/a.warc'']
    \<and> warc_source_open (storage_ref []) segment_io (\<lambda>_. concat) segment_source read_metrics_default \<noteq> None"
proof
  show "segment_files (io_read segment_io work_root) (io_gunzip_bytes segment_io)
      \<lparr>seg_root = ''r/'', seg_crawl = ''c'', seg_segment = Some ''1''\<rparr> = Ok [''r/crawl-data/c/segments/1/warc/a.warc'']"
    by (rule segment_io_lists)
  show "warc_source_open (storage_ref []) segment_io (\<lambda>_. concat) segment_source read_metrics_default \<noteq> None"
    using segment_io_files by (intro warc_open_never_panics) blast
qed

end
