(* ===== verification/ColumnEncoding.thy ===== *)
theory ColumnEncoding
  imports Arrow
begin

text \<open>
  \<open>rust/src/sink/lance/column_encoding.rs\<close>: the encoding settings of columns, applied as field
  metadata at a dotted path that crosses lists. Specification: the field at a path, the
  field without metadata, and the metadata in reading order. Lemmas: encoding changes the
  metadata of one field and nothing else, so all settings of one write are in force at the end.
\<close>

definition COMPRESSION_META_KEY :: string where
  "COMPRESSION_META_KEY = ''lance-encoding:compression''"

definition COMPRESSION_LEVEL_META_KEY :: string where
  "COMPRESSION_LEVEL_META_KEY = ''lance-encoding:compression-level''"

definition STRUCTURAL_ENCODING_META_KEY :: string where
  "STRUCTURAL_ENCODING_META_KEY = ''lance-encoding:structural-encoding''"

datatype structural_encoding = MiniBlock | FullZip

fun structural_encoding_as_str :: "structural_encoding \<Rightarrow> string" where
  "structural_encoding_as_str MiniBlock = ''miniblock''"
| "structural_encoding_as_str FullZip = ''fullzip''"

record column_encoding =
  ce_compression :: "string option"
  ce_compression_level :: "i32 option"
  ce_structural_encoding :: "structural_encoding option"

definition column_encoding_default :: column_encoding where
  "column_encoding_default =
     \<lparr>ce_compression = None, ce_compression_level = None, ce_structural_encoding = None\<rparr>"

definition encoding_metadata :: "column_encoding \<Rightarrow> (string \<times> string) list" where
  "encoding_metadata e = [(k, v). (k, Some v) \<leftarrow>
     [(COMPRESSION_META_KEY, ce_compression e),
      (COMPRESSION_LEVEL_META_KEY, map_option (\<lambda>l. show_int (sint l)) (ce_compression_level e)),
      (STRUCTURAL_ENCODING_META_KEY, map_option structural_encoding_as_str (ce_structural_encoding e))]]"

definition field_not_found :: "string \<Rightarrow> error" where
  "field_not_found name = error_message (''column encoding field not found: '' @ name)"

lemma size_below:
  "field_type f = Struct fs \<Longrightarrow> find_index p fs = Some i \<Longrightarrow> size (fs ! i) < size f"
  "field_type f = List item \<Longrightarrow> size item < size f"
  "field_type f = LargeList item \<Longrightarrow> size item < size f"
  "field_type f = FixedSizeList item n \<Longrightarrow> size item < size f"
proof -
  show "size (fs ! i) < size f" if "field_type f = Struct fs" "find_index p fs = Some i"
  proof -
    have "fs ! i \<in> set fs" using find_index_Some [OF that(2)] by simp
    then have "size (fs ! i) < size (field_type f)"
      using that(1) size_list_estimation' [of "fs ! i" fs "size (fs ! i)" size] by simp
    then show ?thesis using size_field_type [of f] by linarith
  qed
qed (use size_field_type [of f] in simp_all)

function encode_field :: "field \<Rightarrow> string list \<Rightarrow> column_encoding \<Rightarrow> field res" where
  "encode_field f path e =
    (case path of
       [] \<Rightarrow> Ok (with_metadata f (sm_extend (field_metadata f) (encoding_metadata e)))
     | name # rest \<Rightarrow> and_then
        (case field_type f of
           Struct fs \<Rightarrow> (case find_index (\<lambda>g. field_name g = name) fs of
               None \<Rightarrow> Err (field_not_found name)
             | Some i \<Rightarrow> map_ok (\<lambda>g. Struct (fs[i := g])) (encode_field (fs ! i) rest e))
         | List item \<Rightarrow> map_ok List (encode_field item path e)
         | LargeList item \<Rightarrow> map_ok LargeList (encode_field item path e)
         | FixedSizeList item n \<Rightarrow> map_ok (\<lambda>g. FixedSizeList g n) (encode_field item path e)
         | _ \<Rightarrow> Err (field_not_found name))
        (\<lambda>t. Ok (with_data_type f t)))"
  by pat_completeness auto

termination
  by (relation "measure (\<lambda>(f, _, _). size f)") (simp_all add: size_below)

declare encode_field.simps [simp del]

text \<open>Where a column setting's name points: a top-level column, or a path below one.\<close>

definition resolve_column :: "arrow_api \<Rightarrow> schema \<Rightarrow> string \<Rightarrow> (nat \<times> string list) res" where
  "resolve_column A s name = (case aa_index_of A s name of
     Ok index \<Rightarrow> Ok (index, [])
   | Err _ \<Rightarrow> (let parts = split_on (CHR ''.'') name in
       and_then (map_err (\<lambda>_. error_message (''column encoding column not found: '' @ name))
           (aa_index_of A s (hd parts)))
         (\<lambda>index. Ok (index, tl parts))))"

definition encode_column ::
  "arrow_api \<Rightarrow> schema \<Rightarrow> field list \<Rightarrow> string \<times> column_encoding \<Rightarrow> field list res" where
  "encode_column A s fs ne = (case ne of (name, e) \<Rightarrow>
     and_then (resolve_column A s name) (\<lambda>(index, path).
     if path \<noteq> [] \<and> ce_structural_encoding e \<noteq> None
     then Err (error_message
       ''COLUMN_STRUCTURAL_ENCODING applies to top-level columns, not nested fields'')
     else map_ok (\<lambda>g. fs[index := g]) (encode_field (fs ! index) path e)))"

definition configure_column_encoding ::
  "arrow_api \<Rightarrow> schema \<Rightarrow> (string, column_encoding) smap \<Rightarrow> schema res" where
  "configure_column_encoding A s encodings =
     (if encodings = [] then Ok s
      else map_ok (\<lambda>fs. new_with_metadata fs (schema_metadata s))
             (try_fold (encode_column A s) (schema_fields s) encodings))"

section \<open>Specification: paths, shape, metadata\<close>

function field_at :: "field \<Rightarrow> string list \<Rightarrow> field option" where
  "field_at f path = (case path of
     [] \<Rightarrow> Some f
   | name # rest \<Rightarrow> (case field_type f of
       Struct fs \<Rightarrow> (case find_index (\<lambda>g. field_name g = name) fs of
           None \<Rightarrow> None | Some i \<Rightarrow> field_at (fs ! i) rest)
     | List item \<Rightarrow> field_at item path
     | LargeList item \<Rightarrow> field_at item path
     | FixedSizeList item n \<Rightarrow> field_at item path
     | _ \<Rightarrow> None))"
  by pat_completeness auto

termination
  by (relation "measure (\<lambda>(f, _). size f)") (simp_all add: size_below)

declare field_at.simps [simp del]

text \<open>A field without the metadata at any level, and the metadata of all levels.\<close>

fun shape_type :: "data_type \<Rightarrow> data_type" and shape :: "field \<Rightarrow> field" where
  "shape_type (List f) = List (shape f)"
| "shape_type (LargeList f) = LargeList (shape f)"
| "shape_type (FixedSizeList f n) = FixedSizeList (shape f) n"
| "shape_type (Map f b) = Map (shape f) b"
| "shape_type (Dictionary k v) = Dictionary (shape_type k) (shape_type v)"
| "shape_type (Struct fs) = Struct (map shape fs)"
| "shape_type t = t"
| "shape (Field n t nl m) = Field n (shape_type t) nl []"

fun metas_type :: "data_type \<Rightarrow> metadata list" and metas :: "field \<Rightarrow> metadata list" where
  "metas_type (List f) = metas f"
| "metas_type (LargeList f) = metas f"
| "metas_type (FixedSizeList f n) = metas f"
| "metas_type (Map f b) = metas f"
| "metas_type (Dictionary k v) = metas_type k @ metas_type v"
| "metas_type (Struct fs) = concat (map metas fs)"
| "metas_type t = []"
| "metas (Field n t nl m) = m # metas_type t"

lemma shape_eq: "shape f = Field (field_name f) (shape_type (field_type f)) (field_nullable f) []"
  by (cases f) simp

lemma metas_eq: "metas f = field_metadata f # metas_type (field_type f)"
  by (cases f) simp

text \<open>One metadata of a list of them replaced.\<close>

definition meta_changed :: "metadata \<Rightarrow> metadata \<Rightarrow> metadata list \<Rightarrow> metadata list \<Rightarrow> bool" where
  "meta_changed m m' ms ms' \<longleftrightarrow> (\<exists>us vs. ms = us @ m # vs \<and> ms' = us @ m' # vs)"

lemma meta_changed_frame: "meta_changed m m' ms ms' \<Longrightarrow> meta_changed m m' (xs @ ms @ ys) (xs @ ms' @ ys)"
  unfolding meta_changed_def by (metis append.assoc append_Cons)

lemma meta_changed_Cons: "meta_changed m m' ms ms' \<Longrightarrow> meta_changed m m' (x # ms) (x # ms')"
  unfolding meta_changed_def by (metis append_Cons)

section \<open>The effect of one setting\<close>

lemma shape_sel:
  assumes "shape g = shape f"
  shows "field_name g = field_name f" "field_nullable g = field_nullable f"
    "shape_type (field_type g) = shape_type (field_type f)"
  using assms by (simp_all add: shape_eq)

lemma find_index_update:
  "field_name g = field_name (fs ! i) \<Longrightarrow>
   find_index (\<lambda>h. field_name h = n) (fs[i := g]) = find_index (\<lambda>h. field_name h = n) fs"
  by (induction fs arbitrary: i) (auto split: nat.split)

definition encoded :: "column_encoding \<Rightarrow> field \<Rightarrow> field" where
  "encoded e h = with_metadata h (sm_extend (field_metadata h) (encoding_metadata e))"

lemma field_at_Nil [simp]: "field_at f [] = Some f"
  by (subst field_at.simps) simp

lemma encode_field_Nil [simp]: "encode_field f [] e = Ok (encoded e f)"
  by (subst encode_field.simps) (simp add: encoded_def)

lemma shape_encoded: "shape (encoded e f) = shape f"
  by (simp add: encoded_def shape_eq)

lemma metas_encoded: "metas (encoded e f) = field_metadata (encoded e f) # metas_type (field_type f)"
  by (simp add: encoded_def metas_eq)

text \<open>What one step below a field, into a struct member or a list's items, preserves.\<close>

definition effect :: "field \<Rightarrow> string list \<Rightarrow> column_encoding \<Rightarrow> field \<Rightarrow> bool" where
  "effect f path e g \<longleftrightarrow> shape g = shape f
     \<and> (\<exists>h. field_at f path = Some h \<and> field_at g path = Some (encoded e h)
          \<and> meta_changed (field_metadata h) (field_metadata (encoded e h)) (metas f) (metas g))
     \<and> (\<forall>q. q \<noteq> path \<longrightarrow> map_option field_metadata (field_at g q) = map_option field_metadata (field_at f q))"

lemma effectI:
  assumes "shape g = shape f" "field_at f path = Some h" "field_at g path = Some (encoded e h)"
    "meta_changed (field_metadata h) (field_metadata (encoded e h)) (metas f) (metas g)"
    "\<And>q. q \<noteq> path \<Longrightarrow> map_option field_metadata (field_at g q) = map_option field_metadata (field_at f q)"
  shows "effect f path e g"
  using assms unfolding effect_def by blast

lemma effectE:
  assumes "effect f path e g"
  obtains h where "shape g = shape f" "field_at f path = Some h" "field_at g path = Some (encoded e h)"
    "meta_changed (field_metadata h) (field_metadata (encoded e h)) (metas f) (metas g)"
    "\<And>q. q \<noteq> path \<Longrightarrow> map_option field_metadata (field_at g q) = map_option field_metadata (field_at f q)"
  using assms unfolding effect_def by blast

definition is_list_of :: "(field \<Rightarrow> data_type) \<Rightarrow> bool" where
  "is_list_of C \<longleftrightarrow> C = List \<or> C = LargeList \<or> (\<exists>n. C = (\<lambda>f. FixedSizeList f n))"

lemma effect_container:
  assumes "effect item (name # rest) e g" "field_type f = C item" "is_list_of C"
  shows "effect f (name # rest) e (with_data_type f (C g))"
  using assms(1)
proof (rule effectE)
  let ?f = "with_data_type f (C g)"
  fix h assume h: "shape g = shape item" "field_at item (name # rest) = Some h"
    "field_at g (name # rest) = Some (encoded e h)"
    "meta_changed (field_metadata h) (field_metadata (encoded e h)) (metas item) (metas g)"
    "\<And>q. q \<noteq> name # rest \<Longrightarrow> map_option field_metadata (field_at g q) = map_option field_metadata (field_at item q)"
  have at: "field_at k (n # q) = field_at i (n # q)" if "field_type k = C i" for k i n q
    using assms(3) that by (subst field_at.simps) (auto simp: is_list_of_def)
  have C: "shape_type (C k) = C (shape k)" "metas_type (C k) = metas k" for k
    using assms(3) by (auto simp: is_list_of_def)
  show ?thesis
  proof (rule effectI [of _ _ _ h])
    show "shape ?f = shape f" by (simp add: shape_eq [of f] shape_eq [of ?f] assms(2) C h(1))
    show "field_at f (name # rest) = Some h" using at [OF assms(2)] h(2) by simp
    show "field_at ?f (name # rest) = Some (encoded e h)" using at [of ?f g] h(3) by simp
    show "meta_changed (field_metadata h) (field_metadata (encoded e h)) (metas f) (metas ?f)"
      using h(4) by (simp add: metas_eq [of f] metas_eq [of ?f] assms(2) C meta_changed_Cons)
    show "map_option field_metadata (field_at ?f q) = map_option field_metadata (field_at f q)"
      if "q \<noteq> name # rest" for q
      using that h(5) at [OF assms(2)] at [of ?f g] by (cases q) simp_all
  qed
qed

lemma metas_members:
  "i < length fs \<Longrightarrow> concat (map metas (fs[i := g]))
     = concat (map metas (take i fs)) @ metas g @ concat (map metas (drop (Suc i) fs))"
  by (simp add: upd_conv_take_nth_drop)

lemma effect_struct:
  assumes "effect (fs ! i) rest e g" "field_type f = Struct fs"
    "find_index (\<lambda>h. field_name h = name) fs = Some i"
  shows "effect f (name # rest) e (with_data_type f (Struct (fs[i := g])))"
  using assms(1)
proof (rule effectE)
  let ?f = "with_data_type f (Struct (fs[i := g]))"
  fix h assume h: "shape g = shape (fs ! i)" "field_at (fs ! i) rest = Some h"
    "field_at g rest = Some (encoded e h)"
    "meta_changed (field_metadata h) (field_metadata (encoded e h)) (metas (fs ! i)) (metas g)"
    "\<And>q. q \<noteq> rest \<Longrightarrow> map_option field_metadata (field_at g q) = map_option field_metadata (field_at (fs ! i) q)"
  have i: "i < length fs" "field_name (fs ! i) = name" using find_index_Some [OF assms(3)] by auto
  have same: "find_index (\<lambda>h. field_name h = n) (fs[i := g]) = find_index (\<lambda>h. field_name h = n) fs" for n
    using find_index_update shape_sel(1) [OF h(1)] by blast
  have at: "field_at f (n # q) = (case find_index (\<lambda>h. field_name h = n) fs of
      None \<Rightarrow> None | Some j \<Rightarrow> field_at (fs ! j) q)" for n q
    using assms(2) by (subst field_at.simps) simp
  have at': "field_at ?f (n # q) = (case find_index (\<lambda>h. field_name h = n) fs of
      None \<Rightarrow> None | Some j \<Rightarrow> field_at (fs[i := g] ! j) q)" for n q
    by (subst field_at.simps) (simp add: same)
  have shapes: "map shape (fs[i := g]) = map shape fs"
    using i(1) h(1) by (simp add: map_update list_update_same_conv)
  have old: "concat (map metas fs) = concat (map metas (take i fs)) @ metas (fs ! i) @ concat (map metas (drop (Suc i) fs))"
    using metas_members [OF i(1), of "fs ! i"] by simp
  show ?thesis
  proof (rule effectI [of _ _ _ h])
    show "shape ?f = shape f" by (simp add: shape_eq [of f] shape_eq [of ?f] assms(2) shapes)
    show "field_at f (name # rest) = Some h" using h(2) by (simp add: at assms(3))
    show "field_at ?f (name # rest) = Some (encoded e h)" using h(3) i(1) by (simp add: at' assms(3))
    show "meta_changed (field_metadata h) (field_metadata (encoded e h)) (metas f) (metas ?f)"
      unfolding metas_eq [of f] metas_eq [of ?f]
      using meta_changed_frame [OF h(4)] old
      by (simp add: assms(2) metas_members [OF i(1)] meta_changed_Cons)
    show "map_option field_metadata (field_at ?f q) = map_option field_metadata (field_at f q)"
      if q: "q \<noteq> name # rest" for q
    proof (cases q)
      case (Cons n ns)
      show ?thesis
      proof (cases "find_index (\<lambda>h. field_name h = n) fs")
        case (Some j)
        have "n = name" if "j = i" using find_index_Some [OF Some] i(2) that by simp
        with Some Cons q h(5) i(1) show ?thesis
          by (cases "j = i") (simp_all add: at at')
      qed (simp add: Cons at at')
    qed simp
  qed
qed

lemma encode_field_cases:
  assumes "encode_field f (name # rest) e = Ok g"
  obtains (container) C item h where "is_list_of C" "field_type f = C item" "encode_field item (name # rest) e = Ok h"
      "g = with_data_type f (C h)"
  | (struct) fs i h where "field_type f = Struct fs" "find_index (\<lambda>h. field_name h = name) fs = Some i"
      "encode_field (fs ! i) rest e = Ok h" "g = with_data_type f (Struct (fs[i := h]))"
proof (cases "field_type f")
  case (List item)
  with assms show thesis
    by (subst (asm) encode_field.simps) (auto simp: result_simps is_list_of_def intro: container [of List])
next
  case (LargeList item)
  with assms show thesis
    by (subst (asm) encode_field.simps) (auto simp: result_simps is_list_of_def intro: container [of LargeList])
next
  case (FixedSizeList item n)
  have "is_list_of (\<lambda>f. FixedSizeList f n)" by (auto simp: is_list_of_def)
  from container [OF this] FixedSizeList assms show thesis
    by (subst (asm) encode_field.simps) (auto simp: result_simps)
next
  case (Struct fs)
  with assms show thesis
    by (subst (asm) encode_field.simps) (auto simp: result_simps split: option.splits intro: struct)
qed (use assms in \<open>simp_all add: encode_field.simps [of f "name # rest" e]\<close>)

lemma encode_here: "effect f [] e (encoded e f)"
proof (rule effectI)
  show "meta_changed (field_metadata f) (field_metadata (encoded e f)) (metas f) (metas (encoded e f))"
    unfolding meta_changed_def metas_encoded metas_eq [of f]
    by (intro exI [of _ "[]"] exI [of _ "metas_type (field_type f)"]) simp
  fix q :: "string list" assume "q \<noteq> []"
  then show "map_option field_metadata (field_at (encoded e f) q) = map_option field_metadata (field_at f q)"
    by (cases q; subst (1 2) field_at.simps) (simp_all add: encoded_def)
qed (simp_all add: shape_encoded)

lemma encode_field_effect: "encode_field f path e = Ok g \<Longrightarrow> effect f path e g"
proof (induction f path e arbitrary: g rule: encode_field.induct)
  case (1 f path e)
  show ?case
  proof (cases path)
    case Nil
    with 1(5) encode_here [of f e] show ?thesis by simp
  next
    case (Cons name rest)
    from 1(5) [unfolded Cons] show ?thesis
    proof (cases rule: encode_field_cases)
      case (container C item h)
      then have "effect item (name # rest) e h" using 1(1-4) Cons by (auto simp: is_list_of_def)
      with container Cons show ?thesis using effect_container by blast
    next
      case (struct fs i h)
      then have "effect (fs ! i) rest e h" using 1(1-4) Cons by simp
      with struct Cons show ?thesis by (auto intro: effect_struct)
    qed
  qed
qed

lemma find_index_map_shape:
  "find_index (\<lambda>h. field_name h = n) (map shape fs) = find_index (\<lambda>h. field_name h = n) fs"
  by (induction fs) (auto simp: shape_eq)

lemma field_at_shape: "field_at (shape f) q = map_option shape (field_at f q)"
proof (induction f q rule: field_at.induct)
  case (1 f q)
  show ?case
  proof (cases q)
    case (Cons name rest)
    show ?thesis
    proof (cases "field_type f")
      case (Struct fs)
      show ?thesis
      proof (cases "find_index (\<lambda>h. field_name h = name) fs")
        case (Some i)
        with 1 Cons Struct have "field_at (shape (fs ! i)) rest = map_option shape (field_at (fs ! i) rest)"
          by simp
        with Some Cons Struct find_index_Some [OF Some] show ?thesis
          by (subst (1 2) field_at.simps) (simp add: shape_eq [of f] find_index_map_shape)
      qed (subst (1 2) field_at.simps, simp add: Cons Struct shape_eq [of f] find_index_map_shape)
    qed ((subst (1 2) field_at.simps, use 1 Cons in \<open>simp add: shape_eq [of f]\<close>) [1])+
  qed simp
qed

lemma field_at_same_shape: "shape f = shape g \<Longrightarrow> field_at f q = None \<longleftrightarrow> field_at g q = None"
  using field_at_shape [of f q] field_at_shape [of g q] by auto

lemma encode_field_exists: "(\<exists>g. encode_field f path e = Ok g) \<longleftrightarrow> field_at f path \<noteq> None"
proof (induction f path e rule: encode_field.induct)
  case (1 f path e)
  show ?case
  proof (cases path)
    case (Cons name rest)
    show ?thesis
    proof (cases "field_type f")
      case (Struct fs)
      show ?thesis
      proof (cases "find_index (\<lambda>h. field_name h = name) fs")
        case (Some i)
        with 1 Cons Struct have "(\<exists>g. encode_field (fs ! i) rest e = Ok g) \<longleftrightarrow> field_at (fs ! i) rest \<noteq> None"
          by simp
        with Some Cons Struct show ?thesis
          by (subst encode_field.simps, subst field_at.simps) (auto simp: result_simps)
      qed (subst encode_field.simps, subst field_at.simps, simp add: Cons Struct)
    qed ((subst encode_field.simps, subst field_at.simps, use 1 Cons in \<open>simp add: result_simps\<close>) [1])+
  qed simp
qed

section \<open>All settings of a write\<close>

lemma sm_get_insert_any: "map_of (sm_insert k v m) = (map_of m)(k := Some v)"
  by (induction k v m rule: sm_insert.induct) (auto simp: fun_eq_iff)

lemma sm_get_extend_any: "map_of (sm_extend m kvs) = map_of m ++ map_of (rev kvs)"
proof (induction kvs arbitrary: m)
  case (Cons kv kvs)
  then show ?case by (simp add: sm_get_insert_any) (simp add: map_add_def fun_eq_iff split: option.split)
qed simp

lemma encoding_metadata_distinct: "distinct (map fst (encoding_metadata e))"
  by (cases "ce_compression e"; cases "ce_compression_level e"; cases "ce_structural_encoding e")
    (simp_all add: encoding_metadata_def COMPRESSION_META_KEY_def COMPRESSION_LEVEL_META_KEY_def
      STRUCTURAL_ENCODING_META_KEY_def)

lemma encoded_in_force: "(k, v) \<in> set (encoding_metadata e) \<Longrightarrow> map_of (field_metadata (encoded e h)) k = Some v"
  using encoding_metadata_distinct [of e] map_of_is_SomeI [of "rev (encoding_metadata e)" k v]
  by (simp add: encoded_def sm_get_extend_any rev_map [symmetric])

lemma resolve_column_address:
  assumes "arrow_ok A" "resolve_column A s name = Ok (i, p)"
  shows "i < length (schema_fields s)" "name = join_with (CHR ''.'') (field_name (schema_fields s ! i) # p)"
proof -
  have "i < length (schema_fields s) \<and> name = join_with (CHR ''.'') (field_name (schema_fields s ! i) # p)"
  proof (cases "aa_index_of A s name")
    case (Ok j)
    with assms index_of_Ok [OF assms(1) Ok] show ?thesis by (simp add: resolve_column_def)
  next
    case (Err e)
    let ?ps = "split_on (CHR ''.'') name"
    from assms(2) Err have "aa_index_of A s (hd ?ps) = Ok i" "p = tl ?ps"
      by (simp_all add: resolve_column_def Let_def result_simps)
    with index_of_Ok [OF assms(1) this(1)] join_split [of "CHR ''.''" name] show ?thesis
      by (cases ?ps) simp_all
  qed
  then show "i < length (schema_fields s)"
    "name = join_with (CHR ''.'') (field_name (schema_fields s ! i) # p)" by simp_all
qed

definition setting_applies :: "arrow_api \<Rightarrow> schema \<Rightarrow> string \<times> column_encoding \<Rightarrow> bool" where
  "setting_applies A s ne = (case resolve_column A s (fst ne) of
     Ok (i, p) \<Rightarrow> field_at (schema_fields s ! i) p \<noteq> None \<and> (p = [] \<or> ce_structural_encoding (snd ne) = None)
   | Err _ \<Rightarrow> False)"

lemma encode_column_exists:
  assumes "arrow_ok A" "map shape fs = map shape (schema_fields s)"
  shows "(\<exists>fs'. encode_column A s fs ne = Ok fs') \<longleftrightarrow> setting_applies A s ne"
proof (cases "resolve_column A s (fst ne)")
  case (Ok ip)
  obtain i p where ip: "ip = (i, p)" by fastforce
  have i: "i < length (schema_fields s)" using resolve_column_address [OF assms(1)] Ok ip by blast
  then have "shape (fs ! i) = shape (schema_fields s ! i)"
    using assms(2) by (metis length_map nth_map)
  then have "field_at (fs ! i) p \<noteq> None \<longleftrightarrow> field_at (schema_fields s ! i) p \<noteq> None"
    using field_at_same_shape [of "fs ! i" "schema_fields s ! i" p] by simp
  with encode_field_exists [of "fs ! i" p "snd ne"] Ok ip show ?thesis
    by (cases ne) (auto simp: encode_column_def setting_applies_def result_simps)
qed (cases ne; simp add: encode_column_def setting_applies_def result_simps)

lemma encode_column_effect:
  assumes "arrow_ok A" "encode_column A s fs (name, e) = Ok fs'" "length fs = length (schema_fields s)"
  obtains i p where "resolve_column A s name = Ok (i, p)" "i < length fs" "fs' = fs[i := fs' ! i]"
    "effect (fs ! i) p e (fs' ! i)"
proof -
  obtain i p g where r: "resolve_column A s name = Ok (i, p)" "encode_field (fs ! i) p e = Ok g" "fs' = fs[i := g]"
    using assms(2) by (auto simp: encode_column_def result_simps split: if_splits)
  have "i < length fs" using resolve_column_address(1) [OF assms(1) r(1)] assms(3) by simp
  with r encode_field_effect [OF r(2)] show thesis by (intro that [of i p]) simp_all
qed

lemma encode_fold_exists:
  assumes "arrow_ok A" "map shape fs = map shape (schema_fields s)"
  shows "(\<exists>fs'. try_fold (encode_column A s) fs nes = Ok fs') \<longleftrightarrow> list_all (setting_applies A s) nes"
  using assms(2)
proof (induction nes arbitrary: fs)
  case (Cons ne nes)
  show ?case
  proof (cases "encode_column A s fs ne")
    case (Ok fs1)
    obtain name e where ne: "ne = (name, e)" by fastforce
    obtain i p where i: "i < length fs" "fs1 = fs[i := fs1 ! i]" "effect (fs ! i) p e (fs1 ! i)"
      using encode_column_effect [OF assms(1)] Ok Cons.prems ne by (metis length_map)
    then have "map shape fs1 = map shape (schema_fields s)"
      using Cons.prems by (metis effect_def list_update_id map_update)
    moreover have "setting_applies A s ne"
      using encode_column_exists [OF assms(1) Cons.prems, of ne] Ok by blast
    ultimately show ?thesis using Ok Cons.IH [of fs1] by (simp add: result_simps)
  next
    case (Err er)
    with encode_column_exists [OF assms(1) Cons.prems, of ne] show ?thesis by simp
  qed
qed simp

definition in_force :: "arrow_api \<Rightarrow> schema \<Rightarrow> field list \<Rightarrow> string \<times> column_encoding \<Rightarrow> bool" where
  "in_force A s fs ne \<longleftrightarrow> (\<exists>i p h. resolve_column A s (fst ne) = Ok (i, p) \<and> field_at (fs ! i) p = Some h
     \<and> (\<forall>(k, v)\<in>set (encoding_metadata (snd ne)). map_of (field_metadata h) k = Some v))"

lemma encode_column_step:
  assumes "arrow_ok A" "encode_column A s fs (name, e) = Ok fs1" "length fs = length (schema_fields s)"
  shows "map shape fs1 = map shape fs \<and> in_force A s fs1 (name, e)
    \<and> (\<forall>j q. resolve_column A s name \<noteq> Ok (j, q) \<longrightarrow>
         map_option field_metadata (field_at (fs1 ! j) q) = map_option field_metadata (field_at (fs ! j) q))"
proof -
  obtain i p where i: "resolve_column A s name = Ok (i, p)" "i < length fs" "fs1 = fs[i := fs1 ! i]"
    "effect (fs ! i) p e (fs1 ! i)"
    using encode_column_effect [OF assms] by metis
  obtain h where "field_at (fs1 ! i) p = Some (encoded e h)" using i(4) by (rule effectE)
  then have "in_force A s fs1 (name, e)" using i(1) encoded_in_force [of _ _ e h] by (auto simp: in_force_def)
  moreover have "map shape fs1 = map shape fs" using i(3,4) by (metis effect_def list_update_id map_update)
  moreover have "map_option field_metadata (field_at (fs1 ! j) q) = map_option field_metadata (field_at (fs ! j) q)"
    if "resolve_column A s name \<noteq> Ok (j, q)" for j q
  proof (cases "j = i")
    case True
    with that i(1,4) show ?thesis by (auto elim: effectE)
  next
    case False
    then have "fs1 ! j = fs ! j" using i(3) by (metis nth_list_update_neq)
    then show ?thesis by simp
  qed
  ultimately show ?thesis by blast
qed

lemma in_force_kept:
  assumes "in_force A s fs ne" "\<And>i p. resolve_column A s (fst ne) = Ok (i, p) \<Longrightarrow>
    map_option field_metadata (field_at (fs' ! i) p) = map_option field_metadata (field_at (fs ! i) p)"
  shows "in_force A s fs' ne"
proof -
  obtain i p h where h: "resolve_column A s (fst ne) = Ok (i, p)" "field_at (fs ! i) p = Some h"
    "\<forall>(k, v)\<in>set (encoding_metadata (snd ne)). map_of (field_metadata h) k = Some v"
    using assms(1) by (auto simp: in_force_def)
  from assms(2) [OF h(1)] h(2) obtain h' where "field_at (fs' ! i) p = Some h'" "field_metadata h' = field_metadata h" by auto
  with h show ?thesis by (auto simp: in_force_def)
qed

text \<open>The settings in force after a prefix of them stay in force.\<close>

lemma encode_fold_effect:
  assumes "arrow_ok A" "try_fold (encode_column A s) fs nes = Ok fs'" "distinct (map fst nes)"
    "length fs = length (schema_fields s)"
  shows "map shape fs' = map shape fs \<and> list_all (in_force A s fs') nes
    \<and> (\<forall>i q. i < length fs \<and> (\<forall>ne\<in>set nes. resolve_column A s (fst ne) \<noteq> Ok (i, q)) \<longrightarrow>
         map_option field_metadata (field_at (fs' ! i) q) = map_option field_metadata (field_at (fs ! i) q))"
  using assms(2-4)
proof (induction nes arbitrary: fs)
  case (Cons ne nes)
  obtain name e where ne: "ne = (name, e)" by fastforce
  obtain fs1 where fs1: "encode_column A s fs (name, e) = Ok fs1" "try_fold (encode_column A s) fs1 nes = Ok fs'"
    using Cons.prems(1) ne by (auto simp: result_simps)
  note step = encode_column_step [OF assms(1) fs1(1) Cons.prems(3)]
  then have len: "length fs1 = length fs" by (metis length_map)
  have IH: "map shape fs' = map shape fs1" "list_all (in_force A s fs') nes"
    "\<forall>i q. i < length fs1 \<and> (\<forall>ne\<in>set nes. resolve_column A s (fst ne) \<noteq> Ok (i, q)) \<longrightarrow>
         map_option field_metadata (field_at (fs' ! i) q) = map_option field_metadata (field_at (fs1 ! i) q)"
    using Cons.IH [OF fs1(2)] Cons.prems(2,3) len by auto
  have "in_force A s fs' ne"
  proof (rule in_force_kept)
    show "in_force A s fs1 ne" using step by (simp add: ne)
    fix i p assume at: "resolve_column A s (fst ne) = Ok (i, p)"
    have "resolve_column A s (fst ne') \<noteq> Ok (i, p)" if "ne' \<in> set nes" for ne'
    proof -
      have "fst ne' \<noteq> fst ne" using that Cons.prems(2) by (auto simp: rev_image_eqI)
      then show ?thesis using resolve_column_address(2) [OF assms(1)] at by metis
    qed
    with IH(3) resolve_column_address(1) [OF assms(1) at] len Cons.prems(3)
    show "map_option field_metadata (field_at (fs' ! i) p) = map_option field_metadata (field_at (fs1 ! i) p)" by simp
  qed
  with IH step len show ?case by (auto simp: ne)
qed simp

text \<open>
  C34: The settings of a write are accepted exactly when each names a column or a field below
  one (and a structural encoding only a column). Then every one of them is in force in the
  resulting schema, whatever their number and order; names, types, nesting and nullability of
  all fields and the schema's own metadata are unchanged; and so is the metadata of every
  field that no setting names.
\<close>

theorem configure_column_encoding_outcome:
  assumes "arrow_ok A" "distinct (map fst encodings)"
  shows "case configure_column_encoding A s encodings of
      Err _ \<Rightarrow> \<not> list_all (setting_applies A s) encodings
    | Ok s' \<Rightarrow> list_all (setting_applies A s) encodings
        \<and> list_all (in_force A s (schema_fields s')) encodings
        \<and> map shape (schema_fields s') = map shape (schema_fields s)
        \<and> schema_metadata s' = schema_metadata s
        \<and> (\<forall>i q. i < length (schema_fields s)
              \<and> (\<forall>ne\<in>set encodings. resolve_column A s (fst ne) \<noteq> Ok (i, q)) \<longrightarrow>
            map_option field_metadata (field_at (schema_fields s' ! i) q)
              = map_option field_metadata (field_at (schema_fields s ! i) q))"
proof (cases "encodings = []")
  case True
  then show ?thesis by (simp add: configure_column_encoding_def)
next
  case False
  note exists = encode_fold_exists [OF assms(1) refl, of s encodings]
  show ?thesis
  proof (cases "try_fold (encode_column A s) (schema_fields s) encodings")
    case (Ok fs)
    with False have "configure_column_encoding A s encodings = Ok (new_with_metadata fs (schema_metadata s))"
      by (simp add: configure_column_encoding_def)
    moreover have "list_all (setting_applies A s) encodings" using exists Ok by blast
    ultimately show ?thesis
      using encode_fold_effect [OF assms(1) Ok assms(2) refl] by (simp add: new_with_metadata_def)
  next
    case (Err e)
    with False have "configure_column_encoding A s encodings = Err e"
      by (simp add: configure_column_encoding_def)
    moreover have "\<not> list_all (setting_applies A s) encodings" using exists Err by simp
    ultimately show ?thesis by simp
  qed
qed

definition nested_schema :: schema where
  "nested_schema = \<lparr>schema_fields = [Field ''a'' (List (Field ''item'' (Struct [Field ''b'' Utf8 True []]) True [])) True []],
     schema_metadata = []\<rparr>"

definition zstd :: column_encoding where
  "zstd = column_encoding_default\<lparr>ce_compression := Some ''zstd''\<rparr>"

theorem configure_column_encoding_outcome_witness:
  "\<exists>s'. configure_column_encoding arrow_ref nested_schema [(''a.b'', zstd)] = Ok s'
    \<and> in_force arrow_ref nested_schema (schema_fields s') (''a.b'', zstd)"
proof -
  have "setting_applies arrow_ref nested_schema (''a.b'', zstd)" by code_simp
  with configure_column_encoding_outcome [OF arrow_ref_ok, of "[(''a.b'', zstd)]" nested_schema]
  show ?thesis
    by (cases "configure_column_encoding arrow_ref nested_schema [(''a.b'', zstd)]") simp_all
qed

end
