(* ===== verification/WriteOptions.thy ===== *)
theory WriteOptions
  imports ColumnEncoding Storage
begin

text \<open>
  \<open>rust/src/sink/lance.rs\<close>, the options of a write and their defaults, and \<open>IndexKind\<close> of
  \<open>sink/lance/index.rs\<close>. \<open>WriteMode\<close> is Lance's enumeration of three modes.
\<close>

datatype write_mode = ModeCreate | ModeAppend | ModeOverwrite

datatype index_kind = Scalar | Vector | Text | BloomFilter

definition DEFAULT_BLOB_INLINE_SIZE_THRESHOLD :: usize where
  "DEFAULT_BLOB_INLINE_SIZE_THRESHOLD = 2 * 1024 * 1024"

definition DEFAULT_BLOB_DEDICATED_SIZE_THRESHOLD :: usize where
  "DEFAULT_BLOB_DEDICATED_SIZE_THRESHOLD = 16 * 1024 * 1024"

definition DEFAULT_TARGET_FILE_SIZE :: usize where
  "DEFAULT_TARGET_FILE_SIZE = 512 * 1024 * 1024"

definition DEFAULT_STORAGE_VERSION :: string where
  "DEFAULT_STORAGE_VERSION = ''2.2''"

record write_options =
  wo_mode :: write_mode
  wo_s3_config :: "s3_config option"
  wo_opendal_config :: opendal_config
  wo_blob_inline_size_threshold :: "usize option"
  wo_blob_dedicated_size_threshold :: "usize option"
  wo_target_file_size :: usize
  wo_storage_version :: string
  wo_column_encoding :: "(string, column_encoding) smap"
  wo_blob_columns :: "string list"
  wo_indexes :: "(string \<times> index_kind) list"

definition write_options_default :: write_options where
  "write_options_default = \<lparr>wo_mode = ModeCreate, wo_s3_config = None,
     wo_opendal_config = opendal_config_default,
     wo_blob_inline_size_threshold = Some DEFAULT_BLOB_INLINE_SIZE_THRESHOLD,
     wo_blob_dedicated_size_threshold = Some DEFAULT_BLOB_DEDICATED_SIZE_THRESHOLD,
     wo_target_file_size = DEFAULT_TARGET_FILE_SIZE, wo_storage_version = DEFAULT_STORAGE_VERSION,
     wo_column_encoding = [], wo_blob_columns = [], wo_indexes = []\<rparr>"

end
