(* ===== verification/ColumnStorage.thy ===== *)
theory ColumnStorage
  imports WriteOptions
begin

text \<open>
  \<open>rust/src/sink/lance/column_storage.rs\<close>, its \<open>atif.rs\<close> and the storage names of
  \<open>rust/src/atif.rs\<close>: which columns are stored as blobs, and the rewriting of arrays into the
  stored types. Lance's \<open>blob_field_with_options\<close> is the argument \<open>lance_blob\<close>; the arrow
  functions on arrays are the record \<open>array_api\<close>. An array is its type, length, validity,
  child arrays and the rest of its buffers, which nothing here looks into.
\<close>

definition SOURCE_TYPE :: string where
  "SOURCE_TYPE = ''lance_conversion:source_type''"

definition STORAGE_POLICY :: string where
  "STORAGE_POLICY = ''lance_conversion:storage_policy''"

datatype storage_policy = PolicyText | PolicyBlob

fun storage_policy_as_str :: "storage_policy \<Rightarrow> string" where
  "storage_policy_as_str PolicyText = ''text''"
| "storage_policy_as_str PolicyBlob = ''blob''"

record blob_options =
  bo_inline_size_threshold :: "usize option"
  bo_dedicated_size_threshold :: "usize option"

type_synonym lance_blob = "string \<Rightarrow> bool \<Rightarrow> blob_options \<Rightarrow> field"

section \<open>The stored schema\<close>

definition is_binary :: "data_type \<Rightarrow> bool" where
  "is_binary t \<longleftrightarrow> t \<in> {Binary, LargeBinary, BinaryView}"

definition is_blob :: "field \<Rightarrow> bool" where
  "is_blob f \<longleftrightarrow> map_of (field_metadata f) ''ARROW:extension:name'' = Some ''lance.blob.v2''"

definition blob_field :: "lance_blob \<Rightarrow> field \<Rightarrow> blob_options \<Rightarrow> field" where
  "blob_field B f opts =
     (let blob = B (field_name f) (field_nullable f) opts
      in with_metadata blob (sm_extend (field_metadata f) (field_metadata blob)))"

definition field_storage_policy :: "field \<Rightarrow> storage_policy option res" where
  "field_storage_policy f =
     (if map_of (field_metadata f) SOURCE_TYPE \<noteq> Some ''atif'' then Ok None
      else (case map_of (field_metadata f) STORAGE_POLICY of
          None \<Rightarrow> Ok None
        | Some policy \<Rightarrow>
            (if policy = ''text'' then Ok (Some PolicyText)
             else if policy = ''blob'' then Ok (Some PolicyBlob)
             else Err (error_message (''invalid ATIF storage policy: '' @ policy)))))"

definition atif_text :: "field \<Rightarrow> field" where
  "atif_text f = with_metadata (with_data_type f LargeBinary)
     (sm_or_insert ''lance-encoding:compression'' ''lz4'' (field_metadata f))"

lemma size_struct_member: "field_type f = Struct fs \<Longrightarrow> g \<in> set fs \<Longrightarrow> size g < size f"
proof -
  assume "field_type f = Struct fs" "g \<in> set fs"
  then have "size g < size (field_type f)"
    using size_list_estimation' [of g fs "size g" size] by simp
  then show ?thesis using size_field_type [of f] by linarith
qed

lemma size_list_item:
  "field_type f = List c \<Longrightarrow> size c < size f" "field_type f = LargeList c \<Longrightarrow> size c < size f"
  "field_type f = FixedSizeList c n \<Longrightarrow> size c < size f"
  using size_field_type [of f] by simp_all

text \<open>The second half of \<open>configure_field\<close>: a field that is not handled as a whole.\<close>

function configure_field :: "lance_blob \<Rightarrow> blob_options option \<Rightarrow> field \<Rightarrow> field res" where
  "configure_field B opts f =
    (if is_blob f then Ok f
     else and_then (if is_binary (field_type f) then field_storage_policy f else Ok None) (\<lambda>policy.
       case policy of
         Some PolicyText \<Rightarrow> Ok (atif_text f)
       | Some PolicyBlob \<Rightarrow> Ok (case opts of None \<Rightarrow> f | Some o' \<Rightarrow> blob_field B f o')
       | None \<Rightarrow> (case field_type f of
           Struct fs \<Rightarrow> map_ok (\<lambda>gs. with_data_type f (Struct gs)) (try_map (configure_field B opts) fs)
         | List c \<Rightarrow> map_ok (\<lambda>g. with_data_type f (List g)) (configure_field B opts c)
         | LargeList c \<Rightarrow> map_ok (\<lambda>g. with_data_type f (LargeList g)) (configure_field B opts c)
         | _ \<Rightarrow> Ok f)))"
  by pat_completeness auto

termination
  by (relation "measure (\<lambda>(_, _, f). size f)") (simp_all add: size_struct_member size_list_item)

declare configure_field.simps [simp del]

definition ensure_uri_column :: "data_type \<Rightarrow> string \<Rightarrow> unit res" where
  "ensure_uri_column t name =
     (if t \<in> {Utf8, LargeUtf8, Utf8View} then Ok ()
      else Err (error_message (''BLOB_COLUMNS column must be a string: '' @ name)))"

definition promote_binary :: "write_options \<Rightarrow> bool" where
  "promote_binary w \<longleftrightarrow> wo_blob_inline_size_threshold w \<noteq> None
     \<or> wo_blob_dedicated_size_threshold w \<noteq> None \<or> wo_blob_columns w \<noteq> []"

definition blob_options_of :: "write_options \<Rightarrow> blob_options res" where
  "blob_options_of w =
     (if wo_blob_dedicated_size_threshold w = Some 0
      then Err (error_message ''blob dedicated size threshold must be greater than zero'')
      else Ok \<lparr>bo_inline_size_threshold = wo_blob_inline_size_threshold w,
               bo_dedicated_size_threshold = wo_blob_dedicated_size_threshold w\<rparr>)"

definition uri_column_step :: "arrow_api \<Rightarrow> schema \<Rightarrow> nat list \<Rightarrow> string \<Rightarrow> nat list res" where
  "uri_column_step A s seen name =
     and_then (map_err (\<lambda>_. error_message (''BLOB_COLUMNS column not found: '' @ name)) (aa_index_of A s name)) (\<lambda>index.
     and_then (ensure_uri_column (field_type (schema_fields s ! index)) name) (\<lambda>_.
     if index \<in> set seen then Err (error_message ''BLOB_COLUMNS cannot contain duplicate columns'')
     else Ok (index # seen)))"

definition stored_field ::
  "lance_blob \<Rightarrow> bool \<Rightarrow> blob_options \<Rightarrow> nat list \<Rightarrow> nat \<times> field \<Rightarrow> field res" where
  "stored_field B promote opts uris ix = (case ix of (index, f) \<Rightarrow>
     and_then (if index \<in> set uris then Ok True
               else if promote \<and> is_binary (field_type f)
                 then map_ok (\<lambda>policy. policy \<noteq> Some PolicyText) (field_storage_policy f)
               else Ok False) (\<lambda>whole.
     if whole then Ok (blob_field B f opts)
     else configure_field B (if promote then Some opts else None) f))"

definition blob_schema :: "arrow_api \<Rightarrow> lance_blob \<Rightarrow> schema \<Rightarrow> write_options \<Rightarrow> schema res" where
  "blob_schema A B s w =
     and_then (blob_options_of w) (\<lambda>opts.
     and_then (try_fold (uri_column_step A s) [] (wo_blob_columns w)) (\<lambda>uris.
     and_then (try_map (stored_field B (promote_binary w) opts uris) (enumerate 0 (schema_fields s))) (\<lambda>fs.
     Ok (new_with_metadata fs (schema_metadata s)))))"

section \<open>Rewriting arrays\<close>

datatype 'p array = Array (arr_type: data_type) (arr_len: nat) (arr_nulls: "bool list option")
  (arr_children: "'p array list") (arr_buffers: 'p)

record 'p array_api =
  ap_cast :: "'p array \<Rightarrow> data_type \<Rightarrow> ('p array, string) result"
  ap_null :: "data_type \<Rightarrow> nat \<Rightarrow> 'p array"
  ap_struct :: "field list \<Rightarrow> 'p array list \<Rightarrow> bool list option \<Rightarrow> ('p array, string) result"
  ap_build :: "'p array \<Rightarrow> ('p array, string) result"
  ap_batch :: "schema \<Rightarrow> 'p array list \<Rightarrow> string option"
  ap_small :: "'p array \<Rightarrow> bool"

definition container_children :: "data_type \<Rightarrow> field list option" where
  "container_children t = (case t of
     Struct fs \<Rightarrow> Some fs | List f \<Rightarrow> Some [f] | LargeList f \<Rightarrow> Some [f]
   | FixedSizeList f _ \<Rightarrow> Some [f] | _ \<Rightarrow> None)"

definition blob_array :: "'p array_api \<Rightarrow> 'p array \<Rightarrow> field \<Rightarrow> ('p array, string) result" where
  "blob_array P a target = (case field_type target of
     Struct children \<Rightarrow>
       and_then (if is_binary (arr_type a)
         then map_ok (\<lambda>data. [data, ap_null P Utf8 (arr_len a)]) (ap_cast P a LargeBinary)
         else map_ok (\<lambda>uri. [ap_null P LargeBinary (arr_len a), uri]) (ap_cast P a Utf8))
       (\<lambda>columns. ap_struct P children columns (arr_nulls a))
   | _ \<Rightarrow> Err ''Schema error: blob field is not a struct'')"

lemma container_children_size: "container_children (field_type f) = Some cs \<Longrightarrow> c \<in> set cs \<Longrightarrow> size c < size f"
  by (cases "field_type f") (auto simp: container_children_def intro: size_struct_member size_list_item)

function transform_array :: "arrow_api \<Rightarrow> 'p array_api \<Rightarrow> 'p array \<Rightarrow> field \<Rightarrow> ('p array, string) result" where
  "transform_array A P a target =
    (if arr_type a = field_type target then Ok a
     else if is_binary (arr_type a) \<and> field_type target = LargeBinary then ap_cast P a (field_type target)
     else if is_blob target then blob_array P a target
     else (case container_children (field_type target) of
        None \<Rightarrow> Err (''Schema error: unsupported Arrow container '' @ aa_show_type A (field_type target))
      | Some children \<Rightarrow>
          (if length (arr_children a) \<noteq> length children then Err ''Schema error: blob container child count mismatch''
           else and_then (try_map (\<lambda>(child, field). transform_array A P child field) (zip (arr_children a) children))
             (\<lambda>transformed. ap_build P (Array (field_type target) (arr_len a) (arr_nulls a) transformed (arr_buffers a))))))"
  by pat_completeness auto

termination
  by (relation "measure (\<lambda>(_, _, _, f). size f)")
    (auto dest: set_zip_rightD intro: container_children_size)

declare transform_array.simps [simp del]

text \<open>
  \<open>configure_column_storage\<close>: the stored schema, and the rewriting of each batch of the stream
  (a list of columns of one row count); batches pass through when nothing changes.
\<close>

definition stored_schema :: "arrow_api \<Rightarrow> lance_blob \<Rightarrow> schema \<Rightarrow> write_options \<Rightarrow> schema res" where
  "stored_schema A B s w = and_then (blob_schema A B s w)
     (\<lambda>s1. configure_column_encoding A s1 (wo_column_encoding w))"

definition transform_batch ::
  "arrow_api \<Rightarrow> 'p array_api \<Rightarrow> schema \<Rightarrow> schema \<Rightarrow> 'p array list \<Rightarrow> ('p array list, string) result" where
  "transform_batch A P s output columns =
     (if output = s then Ok columns
      else and_then (try_map (\<lambda>(array, field). transform_array A P array field) (zip columns (schema_fields output)))
             (\<lambda>transformed. case ap_batch P output transformed of None \<Rightarrow> Ok transformed | Some e \<Rightarrow> Err e))"

section \<open>Types that fit\<close>

definition string_type :: "data_type \<Rightarrow> bool" where
  "string_type t \<longleftrightarrow> t \<in> {Utf8, LargeUtf8, Utf8View}"

definition blob_layout :: "data_type \<Rightarrow> bool" where
  "blob_layout t \<longleftrightarrow> (case t of
     Struct [d, u] \<Rightarrow> field_type d = LargeBinary \<and> field_type u = Utf8 \<and> field_nullable d \<and> field_nullable u
   | _ \<Rightarrow> False)"

text \<open>The source types whose arrays can be rewritten for a stored field.\<close>

inductive adapts :: "data_type \<Rightarrow> field \<Rightarrow> bool" where
  adapts_same: "t = field_type g \<Longrightarrow> adapts t g"
| adapts_text: "is_binary t \<Longrightarrow> field_type g = LargeBinary \<Longrightarrow> adapts t g"
| adapts_blob: "is_blob g \<Longrightarrow> blob_layout (field_type g) \<Longrightarrow> is_binary t \<or> string_type t \<Longrightarrow> adapts t g"
| adapts_struct: "\<not> is_blob g \<Longrightarrow> field_type g = Struct gs \<Longrightarrow>
    list_all2 (\<lambda>f g. field_nullable f = field_nullable g \<and> adapts (field_type f) g) fs gs \<Longrightarrow> adapts (Struct fs) g"
| adapts_list: "\<not> is_blob g \<Longrightarrow> field_type g = List h \<Longrightarrow> field_nullable f = field_nullable h \<Longrightarrow>
    adapts (field_type f) h \<Longrightarrow> adapts (List f) g"
| adapts_large_list: "\<not> is_blob g \<Longrightarrow> field_type g = LargeList h \<Longrightarrow> field_nullable f = field_nullable h \<Longrightarrow>
    adapts (field_type f) h \<Longrightarrow> adapts (LargeList f) g"

text \<open>What Lance documents of a blob field, and arrow of its array functions.\<close>

definition blob_documented :: "lance_blob \<Rightarrow> bool" where
  "blob_documented B \<longleftrightarrow> (\<forall>n nl opts. field_name (B n nl opts) = n \<and> field_nullable (B n nl opts) = nl
     \<and> blob_layout (field_type (B n nl opts))
     \<and> map_of (field_metadata (B n nl opts)) ''ARROW:extension:name'' = Some ''lance.blob.v2''
     \<and> distinct (map fst (field_metadata (B n nl opts))))"

lemma blob_field_sel:
  assumes "blob_documented B"
  shows "field_name (blob_field B f opts) = field_name f" "field_nullable (blob_field B f opts) = field_nullable f"
    "is_blob (blob_field B f opts)" "blob_layout (field_type (blob_field B f opts))"
proof -
  let ?b = "B (field_name f) (field_nullable f) opts"
  note d = assms [unfolded blob_documented_def, rule_format, of "field_name f" "field_nullable f" opts]
  have "map_of (rev (field_metadata ?b)) = map_of (field_metadata ?b)"
    using d by (intro map_of_inject_set [THEN iffD2]) (simp_all add: rev_map [symmetric])
  with d show "field_name (blob_field B f opts) = field_name f" "field_nullable (blob_field B f opts) = field_nullable f"
    "is_blob (blob_field B f opts)" "blob_layout (field_type (blob_field B f opts))"
    by (simp_all add: blob_field_def is_blob_def sm_get_extend_any Let_def)
qed

lemma adapts_blob_field: "blob_documented B \<Longrightarrow> is_binary (field_type f) \<or> string_type (field_type f) \<Longrightarrow>
    adapts (field_type f) (blob_field B f opts)"
  by (simp add: adapts_blob blob_field_sel)

lemma with_data_type_blob [simp]: "is_blob (with_data_type f t) = is_blob f"
  by (simp add: is_blob_def)

lemma atif_text_sel: "field_name (atif_text f) = field_name f" "field_nullable (atif_text f) = field_nullable f"
  "field_type (atif_text f) = LargeBinary"
  by (simp_all add: atif_text_def)

lemma configure_policy_adapts:
  assumes "blob_documented B" "\<not> is_blob f" "is_binary (field_type f)" "field_storage_policy f = Ok (Some p)"
    "configure_field B opts f = Ok g"
  shows "field_name g = field_name f \<and> field_nullable g = field_nullable f \<and> adapts (field_type f) g"
proof (cases p)
  case PolicyText
  with assms configure_field.simps [of B opts f] show ?thesis by (auto simp: atif_text_sel intro: adapts_text)
next
  case PolicyBlob
  with assms configure_field.simps [of B opts f] show ?thesis
    by (cases opts) (auto simp: blob_field_sel adapts_blob_field adapts_same)
qed

lemma configure_field_adapts:
  assumes "blob_documented B" "configure_field B opts f = Ok g"
  shows "field_name g = field_name f \<and> field_nullable g = field_nullable f \<and> adapts (field_type f) g"
  using assms(2)
proof (induction f arbitrary: g rule: measure_induct_rule [of size])
  case (less f)
  note simps = configure_field.simps [of B opts f]
  consider "is_blob f" | p where "\<not> is_blob f" "is_binary (field_type f)" "field_storage_policy f = Ok (Some p)"
    | "\<not> is_blob f" "(if is_binary (field_type f) then field_storage_policy f else Ok None) = Ok None"
    using less.prems simps by (cases "field_storage_policy f") (auto split: if_splits)
  then show ?case
  proof cases
    case 1
    with less.prems simps show ?thesis by (simp add: adapts_same)
  next
    case 2
    from configure_policy_adapts [OF assms(1) this less.prems] show ?thesis .
  next
    case 3
    note at = less.prems [unfolded simps] 3
    show ?thesis
    proof (cases "field_type f")
      case (Struct fs)
      with at obtain gs where gs: "try_map (configure_field B opts) fs = Ok gs" "g = with_data_type f (Struct gs)"
        by (auto simp: result_simps)
      have "list_all2 (\<lambda>f g. field_nullable f = field_nullable g \<and> adapts (field_type f) g) fs gs"
        using gs(1) unfolding try_map_Ok
        by (rule list.rel_mono_strong) (use less.IH size_struct_member [OF Struct] in blast)
      with gs(2) 3 Struct show ?thesis by (auto intro: adapts_struct)
    next
      case (List c)
      with at obtain h where h: "configure_field B opts c = Ok h" "g = with_data_type f (List h)" by (auto simp: result_simps)
      with less.IH [OF size_list_item(1) [OF List] h(1)] 3 List show ?thesis by (auto intro: adapts_list)
    next
      case (LargeList c)
      with at obtain h where h: "configure_field B opts c = Ok h" "g = with_data_type f (LargeList h)" by (auto simp: result_simps)
      with less.IH [OF size_list_item(2) [OF LargeList] h(1)] 3 LargeList show ?thesis by (auto intro: adapts_large_list)
    qed (use at in \<open>simp_all add: adapts_same\<close>)
  qed
qed

section \<open>Rewriting follows the schema\<close>

text \<open>
  What arrow documents. A cast, a null array and a struct have the requested type and the
  input's length. Binary casts to its large variant and, when its bytes are within the reach
  of 32-bit offsets (\<open>ap_small\<close>), a string casts to the plain one, with the same validity. A
  struct is built of nullable children of its fields' types and its length. An array can be
  rebuilt for a container of the same kind from children of the types this one asks for,
  of the lengths and validity of the old ones.
\<close>

definition children_fit :: "'p array \<Rightarrow> bool" where
  "children_fit a \<longleftrightarrow> (case container_children (arr_type a) of
     None \<Rightarrow> True | Some fs \<Rightarrow> list_all2 (\<lambda>c f. arr_type c = field_type f) (arr_children a) fs)"

definition nulls_fit :: "bool list option \<Rightarrow> nat \<Rightarrow> bool" where
  "nulls_fit nulls n \<longleftrightarrow> (case nulls of None \<Rightarrow> True | Some bits \<Rightarrow> length bits = n)"

definition same_container :: "data_type \<Rightarrow> data_type \<Rightarrow> bool" where
  "same_container t u \<longleftrightarrow> (case (t, u) of
     (Struct fs, Struct gs) \<Rightarrow> list_all2 (\<lambda>f g. field_nullable f = field_nullable g) fs gs
   | (List f, List g) \<Rightarrow> field_nullable f = field_nullable g
   | (LargeList f, LargeList g) \<Rightarrow> field_nullable f = field_nullable g
   | _ \<Rightarrow> False)"

definition text_cast :: "'p array_api \<Rightarrow> 'p array \<Rightarrow> data_type \<Rightarrow> bool" where
  "text_cast P a t \<longleftrightarrow> is_binary (arr_type a) \<and> t = LargeBinary
     \<or> string_type (arr_type a) \<and> t = Utf8 \<and> ap_small P a"

definition cast_documented :: "'p array_api \<Rightarrow> bool" where
  "cast_documented P \<longleftrightarrow>
     (\<forall>a t. case ap_cast P a t of
        Ok b \<Rightarrow> arr_type b = t \<and> arr_len b = arr_len a \<and> (text_cast P a t \<longrightarrow> arr_nulls b = arr_nulls a)
      | Err _ \<Rightarrow> \<not> text_cast P a t)
     \<and> (\<forall>t n. arr_type (ap_null P t n) = t \<and> arr_len (ap_null P t n) = n)"

definition struct_documented :: "'p array_api \<Rightarrow> bool" where
  "struct_documented P \<longleftrightarrow> (\<forall>fs cs nulls. case ap_struct P fs cs nulls of
     Ok b \<Rightarrow> arr_type b = Struct fs \<and> arr_nulls b = nulls \<and> (cs \<noteq> [] \<longrightarrow> arr_len b = arr_len (hd cs))
   | Err _ \<Rightarrow> cs \<noteq> [] \<longrightarrow> nulls_fit nulls (arr_len (hd cs)) \<longrightarrow>
       \<not> list_all2 (\<lambda>f c. arr_type c = field_type f \<and> arr_len c = arr_len (hd cs) \<and> field_nullable f) fs cs)"

definition build_documented :: "'p array_api \<Rightarrow> bool" where
  "build_documented P \<longleftrightarrow>
     (\<forall>a b. ap_build P a = Ok b \<longrightarrow> arr_type b = arr_type a \<and> arr_len b = arr_len a \<and> arr_nulls b = arr_nulls a)
     \<and> (\<forall>a t cs. same_container (arr_type a) t \<and> children_fit a
          \<and> children_fit (Array t (arr_len a) (arr_nulls a) cs (arr_buffers a))
          \<and> map arr_len cs = map arr_len (arr_children a) \<and> map arr_nulls cs = map arr_nulls (arr_children a)
          \<longrightarrow> is_ok (ap_build P (Array t (arr_len a) (arr_nulls a) cs (arr_buffers a))))"

definition array_documented :: "'p array_api \<Rightarrow> bool" where
  "array_documented P \<longleftrightarrow> cast_documented P \<and> struct_documented P \<and> build_documented P"

lemma cast_typed:
  assumes "array_documented P" "ap_cast P a t = Ok b"
  shows "arr_type b = t \<and> arr_len b = arr_len a"
  using assms by (auto simp: array_documented_def cast_documented_def split: result.splits)

lemma cast_total:
  assumes "array_documented P" "text_cast P a t"
  obtains b where "ap_cast P a t = Ok b" "arr_nulls b = arr_nulls a"
proof (cases "ap_cast P a t")
  case (Ok b)
  then show ?thesis
    using assms that [OF Ok] by (auto simp: array_documented_def cast_documented_def split: result.splits)
next
  case (Err e)
  then show ?thesis
    using assms by (auto simp: array_documented_def cast_documented_def split: result.splits)
qed

lemma null_typed: "array_documented P \<Longrightarrow> arr_type (ap_null P t n) = t \<and> arr_len (ap_null P t n) = n"
  by (simp add: array_documented_def cast_documented_def)

lemma struct_typed:
  assumes "array_documented P" "ap_struct P fs cs nulls = Ok b"
  shows "arr_type b = Struct fs \<and> arr_nulls b = nulls \<and> (cs \<noteq> [] \<longrightarrow> arr_len b = arr_len (hd cs))"
proof -
  have "struct_documented P" using assms(1) by (simp add: array_documented_def)
  from this [unfolded struct_documented_def, rule_format, of fs nulls cs] show ?thesis
    by (simp add: assms(2))
qed

lemma struct_total:
  assumes "array_documented P" "cs \<noteq> []" "nulls_fit nulls (arr_len (hd cs))"
    "list_all2 (\<lambda>f c. arr_type c = field_type f \<and> arr_len c = arr_len (hd cs) \<and> field_nullable f) fs cs"
  shows "is_ok (ap_struct P fs cs nulls)"
proof -
  have "struct_documented P" using assms(1) by (simp add: array_documented_def)
  from this [unfolded struct_documented_def, rule_format, of fs nulls cs] show ?thesis
    by (cases "ap_struct P fs cs nulls") (simp_all add: assms(2-4))
qed

lemma build_typed:
  assumes "array_documented P" "ap_build P a = Ok b"
  shows "arr_type b = arr_type a \<and> arr_len b = arr_len a \<and> arr_nulls b = arr_nulls a"
  using assms unfolding array_documented_def build_documented_def by simp

lemma build_total:
  assumes "array_documented P" "same_container (arr_type a) t" "children_fit a"
    "children_fit (Array t (arr_len a) (arr_nulls a) cs (arr_buffers a))"
    "map arr_len cs = map arr_len (arr_children a)" "map arr_nulls cs = map arr_nulls (arr_children a)"
  shows "is_ok (ap_build P (Array t (arr_len a) (arr_nulls a) cs (arr_buffers a)))"
proof -
  have "build_documented P" using assms(1) by (simp add: array_documented_def)
  then show ?thesis using assms(2-6) unfolding build_documented_def by blast
qed

lemma blob_array_typed:
  assumes "array_documented P" "blob_array P a g = Ok b"
  shows "arr_type b = field_type g \<and> arr_len b = arr_len a"
proof (cases "field_type g")
  case (Struct fs)
  with assms(2) obtain cs where cs: "ap_struct P fs cs (arr_nulls a) = Ok b"
    "cs \<noteq> []" "arr_len (hd cs) = arr_len a"
    using null_typed [OF assms(1)] cast_typed [OF assms(1)]
    by (auto simp: blob_array_def result_simps split: if_splits)
  with struct_typed [OF assms(1) cs(1)] Struct show ?thesis by simp
qed (use assms(2) in \<open>simp_all add: blob_array_def\<close>)

lemma transform_array_typed:
  assumes "array_documented P" "transform_array A P a g = Ok b"
  shows "arr_type b = field_type g \<and> arr_len b = arr_len a"
proof -
  note ok = assms(2) [unfolded transform_array.simps [of A P a g]]
  show ?thesis
  proof (cases "arr_type a = field_type g")
    case True
    with ok show ?thesis by simp
  next
    case other: False
    show ?thesis
    proof (cases "is_binary (arr_type a) \<and> field_type g = LargeBinary")
      case True
      with ok other show ?thesis using cast_typed [OF assms(1), of a "field_type g" b] by simp
    next
      case not_text: False
      show ?thesis
      proof (cases "is_blob g")
        case True
        with ok other not_text show ?thesis using blob_array_typed [OF assms(1), of a g b] by simp
      next
        case False
        with ok other not_text obtain cs where
          "ap_build P (Array (field_type g) (arr_len a) (arr_nulls a) cs (arr_buffers a)) = Ok b"
          by (auto simp: result_simps split: option.splits if_splits)
        from build_typed [OF assms(1) this] show ?thesis by simp
      qed
    qed
  qed
qed

text \<open>
  The input arrays the rewriting is for: validity and children fit the type, and every
  string array's text is within the reach of 32-bit offsets.
\<close>

fun conforms :: "'p array_api \<Rightarrow> 'p array \<Rightarrow> bool" where
  "conforms P (Array t n nulls cs p) \<longleftrightarrow> nulls_fit nulls n \<and> children_fit (Array t n nulls cs p)
     \<and> (string_type t \<longrightarrow> ap_small P (Array t n nulls cs p)) \<and> list_all (conforms P) cs"

lemma conforms_eq: "conforms P a \<longleftrightarrow> nulls_fit (arr_nulls a) (arr_len a) \<and> children_fit a
    \<and> (string_type (arr_type a) \<longrightarrow> ap_small P a) \<and> list_all (conforms P) (arr_children a)"
  by (cases a) simp

text \<open>A rewriting that succeeds and keeps the validity.\<close>

definition rewritable :: "arrow_api \<Rightarrow> 'p array_api \<Rightarrow> 'p array \<Rightarrow> field \<Rightarrow> bool" where
  "rewritable A P a g \<longleftrightarrow> (\<exists>b. transform_array A P a g = Ok b \<and> arr_nulls b = arr_nulls a)"

lemma blob_array_total:
  assumes "array_documented P" "blob_layout (field_type g)" "is_binary (arr_type a) \<or> string_type (arr_type a)"
    "conforms P a"
  shows "\<exists>b. blob_array P a g = Ok b \<and> arr_nulls b = arr_nulls a"
proof -
  obtain d u where du: "field_type g = Struct [d, u]" "field_type d = LargeBinary" "field_type u = Utf8"
    "field_nullable d" "field_nullable u"
    using assms(2) by (auto simp: blob_layout_def split: data_type.splits list.splits)
  have struct: "\<exists>b. ap_struct P [d, u] [x, y] (arr_nulls a) = Ok b \<and> arr_nulls b = arr_nulls a"
    if "arr_type x = LargeBinary" "arr_type y = Utf8" "arr_len x = arr_len a" "arr_len y = arr_len a" for x y
  proof -
    have "is_ok (ap_struct P [d, u] [x, y] (arr_nulls a))"
      using that du assms(4) by (intro struct_total [OF assms(1)]) (simp_all add: conforms_eq)
    then show ?thesis using struct_typed [OF assms(1)] unfolding is_ok_iff by blast
  qed
  show ?thesis
  proof (cases "is_binary (arr_type a)")
    case True
    then have "text_cast P a LargeBinary" by (simp add: text_cast_def)
    from cast_total [OF assms(1) this] obtain x where "ap_cast P a LargeBinary = Ok x" by blast
    with True du struct [of x] cast_typed [OF assms(1)] null_typed [OF assms(1)] show ?thesis
      by (simp add: blob_array_def)
  next
    case False
    then have "text_cast P a Utf8" using assms(3,4) by (simp add: text_cast_def conforms_eq)
    from cast_total [OF assms(1) this] obtain x where "ap_cast P a Utf8 = Ok x" by blast
    with False du struct [of _ x] cast_typed [OF assms(1)] null_typed [OF assms(1)] show ?thesis
      by (simp add: blob_array_def)
  qed
qed

text \<open>A container is rebuilt once its children are.\<close>

lemma transform_container_total:
  assumes "array_documented P" "conforms P a" "\<not> is_blob g"
    "container_children (arr_type a) = Some fs" "container_children (field_type g) = Some gs"
    "same_container (arr_type a) (field_type g)"
    "list_all2 (\<lambda>f h. \<forall>c. arr_type c = field_type f \<and> conforms P c \<longrightarrow> rewritable A P c h) fs gs"
  shows "rewritable A P a g"
proof (cases "arr_type a = field_type g")
  case True
  then show ?thesis unfolding rewritable_def by (subst transform_array.simps) simp
next
  case False
  have fit: "list_all2 (\<lambda>c f. arr_type c = field_type f) (arr_children a) fs" "list_all (conforms P) (arr_children a)"
    using assms(2,4) by (auto simp: conforms_eq children_fit_def)
  have len: "length (arr_children a) = length gs" "length fs = length gs"
    using list_all2_lengthD [OF fit(1)] list_all2_lengthD [OF assms(7)] by simp_all
  have child: "rewritable A P (arr_children a ! i) (gs ! i)" if "i < length gs" for i
    using that fit len assms(7) by (auto simp: list_all2_conv_all_nth list_all_length)
  then have "\<exists>ys. try_map (\<lambda>(c, h). transform_array A P c h) (zip (arr_children a) gs) = Ok ys"
    unfolding try_map_ex_Ok rewritable_def using len by (fastforce simp: set_zip)
  then obtain ys where ys: "try_map (\<lambda>(c, h). transform_array A P c h) (zip (arr_children a) gs) = Ok ys" by blast
  have step: "transform_array A P (arr_children a ! i) (gs ! i) = Ok (ys ! i)" if "i < length gs" for i
    using try_map_nth [OF ys, of i] that len by simp
  have typed: "arr_type (ys ! i) = field_type (gs ! i) \<and> arr_len (ys ! i) = arr_len (arr_children a ! i)
      \<and> arr_nulls (ys ! i) = arr_nulls (arr_children a ! i)"
    if "i < length gs" for i
    using transform_array_typed [OF assms(1) step [OF that]] child [OF that] step [OF that] by (simp add: rewritable_def)
  have "length ys = length gs" using try_map_length [OF ys] len by simp
  then have built: "children_fit (Array (field_type g) (arr_len a) (arr_nulls a) ys (arr_buffers a))"
    "map arr_len ys = map arr_len (arr_children a)" "map arr_nulls ys = map arr_nulls (arr_children a)"
    using typed len by (auto simp: children_fit_def assms(5) list_all2_conv_all_nth intro: nth_equalityI)
  have "children_fit a" using assms(2) by (simp add: conforms_eq)
  then have "is_ok (ap_build P (Array (field_type g) (arr_len a) (arr_nulls a) ys (arr_buffers a)))"
    using built by (intro build_total [OF assms(1,6)])
  then obtain b where b: "ap_build P (Array (field_type g) (arr_len a) (arr_nulls a) ys (arr_buffers a)) = Ok b"
    unfolding is_ok_iff by blast
  have "field_type g \<noteq> LargeBinary" using assms(5) by (auto simp: container_children_def)
  then have "transform_array A P a g = Ok b"
    using False assms(3,5) len ys b by (subst transform_array.simps) auto
  then show ?thesis using build_typed [OF assms(1) b] by (simp add: rewritable_def)
qed

lemma transform_array_total:
  assumes "array_documented P" "adapts t g" "arr_type a = t" "conforms P a"
  shows "rewritable A P a g"
  using assms(2-4)
proof (induction arbitrary: a rule: adapts.induct)
  case (adapts_same t g)
  then show ?case unfolding rewritable_def by (subst transform_array.simps) simp
next
  case (adapts_text t g)
  then have "text_cast P a LargeBinary" by (simp add: text_cast_def)
  from cast_total [OF assms(1) this] obtain b where "ap_cast P a LargeBinary = Ok b" "arr_nulls b = arr_nulls a" .
  with adapts_text show ?case unfolding rewritable_def by (subst transform_array.simps) simp
next
  case (adapts_blob g t)
  then have "\<exists>b. blob_array P a g = Ok b \<and> arr_nulls b = arr_nulls a" using blob_array_total [OF assms(1)] by blast
  moreover have "field_type g \<noteq> LargeBinary" using adapts_blob(2) by (auto simp: blob_layout_def)
  ultimately show ?case using adapts_blob unfolding rewritable_def by (subst transform_array.simps) simp
next
  case (adapts_struct g gs fs)
  have "list_all2 (\<lambda>f h. \<forall>c. arr_type c = field_type f \<and> conforms P c \<longrightarrow> rewritable A P c h) fs gs"
    "list_all2 (\<lambda>f g. field_nullable f = field_nullable g) fs gs"
    by (rule list.rel_mono_strong [OF adapts_struct(3)], blast)+
  with adapts_struct show ?case
    by (intro transform_container_total [OF assms(1), of a g fs gs]) (auto simp: container_children_def same_container_def)
next
  case (adapts_list g h f)
  then show ?case
    by (intro transform_container_total [OF assms(1), of a g "[f]" "[h]"])
      (auto simp: container_children_def same_container_def)
next
  case (adapts_large_list g h f)
  then show ?case
    by (intro transform_container_total [OF assms(1), of a g "[f]" "[h]"])
      (auto simp: container_children_def same_container_def)
qed

section \<open>The stored schema of a write\<close>

lemma uri_column_step_Ok:
  "uri_column_step A s seen n = Ok uris \<longleftrightarrow> (\<exists>i. aa_index_of A s n = Ok i
     \<and> string_type (field_type (schema_fields s ! i)) \<and> i \<notin> set seen \<and> uris = i # seen)"
  by (cases "aa_index_of A s n")
    (auto simp: uri_column_step_def ensure_uri_column_def string_type_def split: if_splits)

lemma uri_columns:
  assumes "try_fold (uri_column_step A s) seen names = Ok uris" "arrow_ok A"
  shows "set uris = set seen \<union> {i. \<exists>n\<in>set names. aa_index_of A s n = Ok i}
    \<and> (\<forall>n\<in>set names. \<exists>i. aa_index_of A s n = Ok i \<and> string_type (field_type (schema_fields s ! i)))"
  using assms(1)
proof (induction names arbitrary: seen)
  case (Cons n names)
  obtain next_seen where step: "uri_column_step A s seen n = Ok next_seen" "try_fold (uri_column_step A s) next_seen names = Ok uris"
    using Cons.prems by (auto simp: and_then_Ok)
  then obtain i where i: "aa_index_of A s n = Ok i" "string_type (field_type (schema_fields s ! i))" "next_seen = i # seen"
    unfolding uri_column_step_Ok by blast
  from Cons.IH [OF step(2)] i show ?case by auto
qed simp

text \<open>Whether column \<open>i\<close> is to be a blob: named, or binary under promotion and not ATIF text.\<close>

definition wants_blob :: "arrow_api \<Rightarrow> schema \<Rightarrow> write_options \<Rightarrow> nat \<Rightarrow> bool" where
  "wants_blob A s w i \<longleftrightarrow> (\<exists>n\<in>set (wo_blob_columns w). aa_index_of A s n = Ok i)
     \<or> promote_binary w \<and> is_binary (field_type (schema_fields s ! i))
       \<and> field_storage_policy (schema_fields s ! i) \<noteq> Ok (Some PolicyText)"

lemma stored_field_adapts:
  assumes "blob_documented B" "stored_field B promote opts uris (i, f) = Ok g"
    "i \<in> set uris \<Longrightarrow> string_type (field_type f)"
  shows "field_name g = field_name f \<and> field_nullable g = field_nullable f \<and> adapts (field_type f) g
    \<and> (i \<in> set uris \<or> promote \<and> is_binary (field_type f) \<and> field_storage_policy f \<noteq> Ok (Some PolicyText) \<longrightarrow> is_blob g)"
proof -
  obtain whole where whole: "(if i \<in> set uris then Ok True
      else if promote \<and> is_binary (field_type f) then map_ok (\<lambda>policy. policy \<noteq> Some PolicyText) (field_storage_policy f)
      else Ok False) = Ok whole"
    "(if whole then Ok (blob_field B f opts) else configure_field B (if promote then Some opts else None) f) = Ok g"
    using assms(2) by (auto simp: stored_field_def and_then_Ok)
  show ?thesis
  proof (cases whole)
    case True
    with whole assms(3) have "is_binary (field_type f) \<or> string_type (field_type f)" by (auto split: if_splits)
    with True whole(2) assms(1) show ?thesis by (auto simp: blob_field_sel adapts_blob_field)
  next
    case False
    with whole(1) have "i \<notin> set uris \<and> \<not> (promote \<and> is_binary (field_type f) \<and> field_storage_policy f \<noteq> Ok (Some PolicyText))"
      by (auto simp: result_simps split: if_splits)
    moreover have "configure_field B (if promote then Some opts else None) f = Ok g" using False whole(2) by simp
    ultimately show ?thesis using configure_field_adapts [OF assms(1)] by blast
  qed
qed

lemma blob_schema_columns:
  assumes "arrow_ok A" "blob_documented B" "blob_schema A B s w = Ok s'"
  shows "schema_metadata s' = schema_metadata s \<and> length (schema_fields s') = length (schema_fields s)
    \<and> (\<forall>i<length (schema_fields s). let f = schema_fields s ! i; g = schema_fields s' ! i in
        field_name g = field_name f \<and> field_nullable g = field_nullable f \<and> adapts (field_type f) g
        \<and> (wants_blob A s w i \<longrightarrow> is_blob g))
    \<and> (\<forall>n\<in>set (wo_blob_columns w). \<exists>i<length (schema_fields s). field_name (schema_fields s ! i) = n
        \<and> string_type (field_type (schema_fields s ! i)) \<and> is_blob (schema_fields s' ! i))"
proof -
  obtain opts uris fs where steps: "blob_options_of w = Ok opts"
    "try_fold (uri_column_step A s) [] (wo_blob_columns w) = Ok uris"
    "try_map (stored_field B (promote_binary w) opts uris) (enumerate 0 (schema_fields s)) = Ok fs"
    "s' = new_with_metadata fs (schema_metadata s)"
    using assms(3) by (auto simp: blob_schema_def and_then_Ok)
  have uris: "set uris = {i. \<exists>n\<in>set (wo_blob_columns w). aa_index_of A s n = Ok i}"
    "\<forall>n\<in>set (wo_blob_columns w). \<exists>i. aa_index_of A s n = Ok i \<and> string_type (field_type (schema_fields s ! i))"
    using uri_columns [OF steps(2) assms(1)] by auto
  have fields: "schema_fields s' = fs" "schema_metadata s' = schema_metadata s"
    using steps(4) by (simp_all add: new_with_metadata_def)
  have len: "length fs = length (schema_fields s)" using try_map_length [OF steps(3)] by simp
  have col: "field_name (fs ! i) = field_name f \<and> field_nullable (fs ! i) = field_nullable f
      \<and> adapts (field_type f) (fs ! i) \<and> (wants_blob A s w i \<longrightarrow> is_blob (fs ! i))"
    if "i < length (schema_fields s)" "f = schema_fields s ! i" for i f
  proof -
    have "stored_field B (promote_binary w) opts uris (i, f) = Ok (fs ! i)"
      using try_map_nth [OF steps(3), of i] that by (simp add: nth_enumerate_eq)
    moreover have "i \<in> set uris \<Longrightarrow> string_type (field_type f)" using uris that(2) by auto
    ultimately have "field_name (fs ! i) = field_name f \<and> field_nullable (fs ! i) = field_nullable f
      \<and> adapts (field_type f) (fs ! i)
      \<and> (i \<in> set uris \<or> promote_binary w \<and> is_binary (field_type f) \<and> field_storage_policy f \<noteq> Ok (Some PolicyText)
          \<longrightarrow> is_blob (fs ! i))"
      by (rule stored_field_adapts [OF assms(2)])
    then show ?thesis using uris(1) that(2) by (auto simp: wants_blob_def)
  qed
  moreover have "\<exists>i<length (schema_fields s). field_name (schema_fields s ! i) = n
      \<and> string_type (field_type (schema_fields s ! i)) \<and> is_blob (fs ! i)"
    if n: "n \<in> set (wo_blob_columns w)" for n
  proof -
    obtain i where i: "aa_index_of A s n = Ok i" "string_type (field_type (schema_fields s ! i))" using uris(2) n by blast
    then have "i < length (schema_fields s)" "field_name (schema_fields s ! i) = n"
      using index_of_Ok [OF assms(1)] by auto
    moreover have "wants_blob A s w i" using n i(1) by (auto simp: wants_blob_def)
    ultimately show ?thesis using col i(2) by blast
  qed
  ultimately show ?thesis using fields len by (simp add: Let_def)
qed

text \<open>
  C32: The stored schema keeps the columns, their order, names and nullability, and the
  schema's metadata; a column asked for in \<open>BLOB_COLUMNS\<close> is a string column and becomes a
  blob, and so does, as soon as any blob option is set, every top-level binary column that is
  not ATIF text; and every column's arrays can be rewritten to its stored type.
\<close>

theorem blob_schema_outcome:
  assumes "arrow_ok A" "blob_documented B" "blob_schema A B s w = Ok s'"
  shows "schema_metadata s' = schema_metadata s \<and> length (schema_fields s') = length (schema_fields s)
    \<and> (\<forall>i<length (schema_fields s). let f = schema_fields s ! i; g = schema_fields s' ! i in
        field_name g = field_name f \<and> field_nullable g = field_nullable f \<and> adapts (field_type f) g
        \<and> (wants_blob A s w i \<longrightarrow> is_blob g))
    \<and> (\<forall>n\<in>set (wo_blob_columns w). \<exists>i<length (schema_fields s). field_name (schema_fields s ! i) = n
        \<and> string_type (field_type (schema_fields s ! i)) \<and> is_blob (schema_fields s' ! i))"
  by (rule blob_schema_columns [OF assms])

lemma transform_columns_total:
  assumes "arrow_ok A" "blob_documented B" "array_documented P" "blob_schema A B s w = Ok s'"
    and "list_all2 (\<lambda>a f. arr_type a = field_type f) columns (schema_fields s)" "list_all (conforms P) columns"
  shows "\<exists>out. try_map (\<lambda>(array, field). transform_array A P array field) (zip columns (schema_fields s')) = Ok out
    \<and> list_all2 (\<lambda>a f. arr_type a = field_type f) out (schema_fields s') \<and> map arr_len out = map arr_len columns"
proof -
  have len: "length columns = length (schema_fields s)" "length (schema_fields s') = length (schema_fields s)"
    using list_all2_lengthD [OF assms(5)] blob_schema_columns [OF assms(1,2,4)] by simp_all
  have "rewritable A P (columns ! i) (schema_fields s' ! i)" if "i < length columns" for i
  proof (rule transform_array_total [OF assms(3)])
    show "adapts (field_type (schema_fields s ! i)) (schema_fields s' ! i)"
      using blob_schema_columns [OF assms(1,2,4)] that len by (simp add: Let_def)
  qed (use assms(5,6) that in \<open>auto simp: list_all2_conv_all_nth list_all_length\<close>)
  then have "\<exists>out. try_map (\<lambda>(array, field). transform_array A P array field) (zip columns (schema_fields s')) = Ok out"
    unfolding try_map_ex_Ok rewritable_def using len by (fastforce simp: set_zip)
  then obtain out where out: "try_map (\<lambda>(array, field). transform_array A P array field) (zip columns (schema_fields s')) = Ok out"
    by blast
  have "arr_type (out ! i) = field_type (schema_fields s' ! i) \<and> arr_len (out ! i) = arr_len (columns ! i)"
    if "i < length columns" for i
    using try_map_nth [OF out, of i] that len by (intro transform_array_typed [OF assms(3)]) simp
  moreover have "length out = length columns" using try_map_length [OF out] len by simp
  ultimately show ?thesis using out len by (auto simp: list_all2_conv_all_nth intro: nth_equalityI)
qed

definition lance_blob_ref :: lance_blob where
  "lance_blob_ref n nl opts = Field n (Struct [Field ''data'' LargeBinary True [], Field ''uri'' Utf8 True []]) nl
     [(''ARROW:extension:name'', ''lance.blob.v2'')]"

lemma lance_blob_ref_documented: "blob_documented lance_blob_ref"
  by (simp add: blob_documented_def lance_blob_ref_def blob_layout_def)

definition media_schema :: schema where
  "media_schema = \<lparr>schema_fields = [Field ''url'' Utf8 False [], Field ''raw'' Binary True []], schema_metadata = []\<rparr>"

definition media_options :: write_options where
  "media_options = write_options_default\<lparr>wo_blob_columns := [''url'']\<rparr>"

lemma media_stored: "\<exists>s'. blob_schema arrow_ref lance_blob_ref media_schema media_options = Ok s'"
proof -
  have index: "aa_index_of arrow_ref media_schema ''url'' = Ok 0" by code_simp
  show ?thesis
    by (simp add: blob_schema_def blob_options_of_def media_options_def write_options_default_def
        DEFAULT_BLOB_DEDICATED_SIZE_THRESHOLD_def uri_column_step_def index ensure_uri_column_def)
      (simp add: media_schema_def stored_field_def promote_binary_def is_binary_def field_storage_policy_def)
qed

theorem blob_schema_outcome_witness:
  "\<exists>s'. blob_schema arrow_ref lance_blob_ref media_schema media_options = Ok s'
    \<and> (\<exists>i<2. field_name (schema_fields media_schema ! i) = ''url'' \<and> is_blob (schema_fields s' ! i))"
proof -
  obtain s' where s': "blob_schema arrow_ref lance_blob_ref media_schema media_options = Ok s'"
    using media_stored by blast
  have "\<exists>i<length (schema_fields media_schema). field_name (schema_fields media_schema ! i) = ''url''
      \<and> string_type (field_type (schema_fields media_schema ! i)) \<and> is_blob (schema_fields s' ! i)"
    using blob_schema_outcome [OF arrow_ref_ok lance_blob_ref_documented s'] by (simp add: media_options_def)
  moreover have "length (schema_fields media_schema) = 2" by (simp add: media_schema_def)
  ultimately show ?thesis using s' by auto
qed

text \<open>
  C33: Rewriting a batch of well-formed columns of the input schema to the schema \<open>blob_schema\<close>
  stores never fails on a column, and each rewritten column has its field's stored type and
  the length it had.
\<close>

theorem transform_columns_typed:
  assumes "arrow_ok A" "blob_documented B" "array_documented P" "blob_schema A B s w = Ok s'"
    and "list_all2 (\<lambda>a f. arr_type a = field_type f) columns (schema_fields s)" "list_all (conforms P) columns"
  shows "\<exists>out. try_map (\<lambda>(array, field). transform_array A P array field) (zip columns (schema_fields s')) = Ok out
    \<and> list_all2 (\<lambda>a f. arr_type a = field_type f) out (schema_fields s') \<and> map arr_len out = map arr_len columns"
  by (rule transform_columns_total [OF assms])

definition array_ref :: "'p \<Rightarrow> 'p array_api" where
  "array_ref d = \<lparr>ap_cast = (\<lambda>a t. if is_binary (arr_type a) \<and> t = LargeBinary \<or> string_type (arr_type a) \<and> t = Utf8
       then Ok (Array t (arr_len a) (arr_nulls a) [] d) else Err ''cast''),
     ap_null = (\<lambda>t n. Array t n (Some (replicate n False)) [] d),
     ap_struct = (\<lambda>fs cs nulls. case cs of [] \<Rightarrow> Err ''no children''
       | c # _ \<Rightarrow> (if nulls_fit nulls (arr_len c)
             \<and> list_all2 (\<lambda>f d. arr_type d = field_type f \<and> arr_len d = arr_len c \<and> field_nullable f) fs cs
           then Ok (Array (Struct fs) (arr_len c) nulls cs d) else Err ''struct'')),
     ap_build = (\<lambda>a. if children_fit a then Ok a else Err ''children''),
     ap_batch = (\<lambda>s cs. None), ap_small = (\<lambda>a. True)\<rparr>"

lemma array_ref_documented: "array_documented (array_ref d)"
proof -
  have "cast_documented (array_ref d)" by (simp add: cast_documented_def array_ref_def text_cast_def)
  moreover have "struct_documented (array_ref d)"
    by (auto simp: struct_documented_def array_ref_def split: list.splits)
  moreover have "build_documented (array_ref d)" by (simp add: build_documented_def array_ref_def split: if_splits)
  ultimately show ?thesis by (simp add: array_documented_def)
qed

definition media_columns :: "unit array list" where
  "media_columns = [Array Utf8 2 None [] (), Array Binary 2 None [] ()]"

theorem transform_columns_typed_witness:
  "\<exists>s' out. blob_schema arrow_ref lance_blob_ref media_schema media_options = Ok s'
    \<and> try_map (\<lambda>(array, field). transform_array arrow_ref (array_ref ()) array field) (zip media_columns (schema_fields s')) = Ok out
    \<and> map arr_len out = [2, 2]"
proof -
  obtain s' where s': "blob_schema arrow_ref lance_blob_ref media_schema media_options = Ok s'"
    using media_stored by blast
  have "list_all2 (\<lambda>a f. arr_type a = field_type f) media_columns (schema_fields media_schema)"
    "list_all (conforms (array_ref ())) media_columns"
    by (simp_all add: media_columns_def media_schema_def array_ref_def nulls_fit_def children_fit_def container_children_def)
  from transform_columns_typed [OF arrow_ref_ok lance_blob_ref_documented array_ref_documented s' this] s'
  show ?thesis by (auto simp: media_columns_def)
qed

end
