(* ===== verification/MediaUri.thy ===== *)
theory MediaUri
  imports Storage
begin

text \<open>
  \<open>rust/src/source/atif/media.rs\<close>, the URIs of media: \<open>resolve_uri\<close> turns what a trajectory
  names into what \<open>InputFile::open\<close> opens, and must not let a remote trajectory reach the
  local files or another origin. What the \<open>url\<close> crate offers beyond parsing (\<open>join\<close>, the port,
  the credentials of a URL) is the record \<open>url_api\<close>.
\<close>

record url_api =
  ua_join :: "url \<Rightarrow> string \<Rightarrow> (url, string) result"
  ua_port :: "url \<Rightarrow> nat option"
  ua_username :: "url \<Rightarrow> string"
  ua_password :: "url \<Rightarrow> string option"

section \<open>\<open>Path::parent\<close>\<close>

text \<open>
  On the text of a path: what precedes its components is a root, or the dot that starts a
  relative path. Pieces that are no component, and then the last component, are removed, and
  again the pieces that are no component.
\<close>

definition path_body_start :: "string \<Rightarrow> nat" where
  "path_body_start p = (if path_is_absolute p then 1
     else if hd (split_on (CHR ''/'') p) = ''.'' then 1 else 0)"

definition drop_trailing :: "string list \<Rightarrow> string list" where
  "drop_trailing ps = rev (dropWhile (\<lambda>q. q = [] \<or> q = ''.'') (rev ps))"

definition path_parent :: "string \<Rightarrow> string option" where
  "path_parent p =
     (let start = path_body_start p; ps = drop_trailing (split_on (CHR ''/'') (drop start p))
      in if ps \<noteq> [] then Some (take start p @ join_with (CHR ''/'') (drop_trailing (butlast ps)))
         else if start = 1 \<and> \<not> path_is_absolute p then Some []
         else None)"

section \<open>Resolution\<close>

definition is_remote_scheme :: "string \<Rightarrow> bool" where
  "is_remote_scheme s \<longleftrightarrow> s = ''s3'' \<or> s = ''http'' \<or> s = ''https''"

definition same_origin :: "url_api \<Rightarrow> url \<Rightarrow> url \<Rightarrow> bool" where
  "same_origin U target base \<longleftrightarrow> url_scheme target = url_scheme base \<and> url_host target = url_host base
     \<and> ua_port U target = ua_port U base \<and> ua_username U target = [] \<and> ua_password U target = None"

definition resolve_remote :: "url_api \<Rightarrow> url \<Rightarrow> string \<Rightarrow> string res" where
  "resolve_remote U base reference =
     and_then (map_err url_error (ua_join U base reference)) (\<lambda>target.
     if same_origin U target base then Ok (url_str target)
     else Err (error_message ''ATIF remote media must use the trajectory's storage origin''))"

definition resolve_local :: "storage_env \<Rightarrow> string \<Rightarrow> string \<Rightarrow> string res" where
  "resolve_local E document reference =
     (if path_is_absolute reference then Ok reference
      else (case se_url_parse E reference of
          Ok u \<Rightarrow>
            (if url_scheme u = ''file''
             then ok_or (se_url_to_file_path E u) (error_message ''invalid ATIF media file URI'')
             else if is_remote_scheme (url_scheme u) then Ok (url_str u)
             else Err (error_message (''unsupported ATIF media scheme: '' @ url_scheme u)))
        | Err _ \<Rightarrow> Ok (path_push (case path_parent document of Some dir \<Rightarrow> dir | None \<Rightarrow> ''.'') reference)))"

definition resolve_uri :: "storage_env \<Rightarrow> url_api \<Rightarrow> string \<Rightarrow> string \<Rightarrow> string res" where
  "resolve_uri E U document reference =
     (if prefix ''data:'' reference then Ok reference
      else (case se_url_parse E document of
          Ok base \<Rightarrow> (if is_remote_scheme (url_scheme base) then resolve_remote U base reference
                     else resolve_local E document reference)
        | Err _ \<Rightarrow> resolve_local E document reference))"

text \<open>Where \<open>MediaResolver::read\<close> opens a URI that is not inline: only S3 gets the S3 configuration.\<close>

definition open_media :: "storage_env \<Rightarrow> string \<Rightarrow> s3_config option \<Rightarrow> opendal_config \<Rightarrow> input_file res" where
  "open_media E uri s3 config =
     input_file_open E uri (if prefix ''s3://'' uri then s3 else None) config"

section \<open>The parent of a file\<close>

lemma split_on_last: "c \<notin> set name \<Longrightarrow> split_on c (dir @ c # name) = split_on c dir @ [name]"
  by (simp add: split_on_append_gen split_on_no_sep)

lemma drop_trailing_snoc [simp]:
  "drop_trailing (ps @ [q]) = (if q = [] \<or> q = ''.'' then drop_trailing ps else ps @ [q])"
  by (simp add: drop_trailing_def)

lemma drop_trailing_idle: "ps \<noteq> [] \<Longrightarrow> last ps \<noteq> [] \<Longrightarrow> last ps \<noteq> ''.'' \<Longrightarrow> drop_trailing ps = ps"
  by (cases ps rule: rev_cases) auto

text \<open>A file in a directory below the root whose path does not end in a dot or a slash.\<close>

definition plain_dir :: "string \<Rightarrow> bool" where
  "plain_dir d \<longleftrightarrow> path_is_absolute d
     \<and> (let q = last (split_on (CHR ''/'') (tl d)) in q \<noteq> [] \<and> q \<noteq> ''.'')"

lemma path_parent_file:
  assumes "plain_dir d" "CHR ''/'' \<notin> set name" "name \<noteq> []" "name \<noteq> ''.''"
  shows "path_parent (d @ ''/'' @ name) = Some d"
proof -
  obtain d' where d: "d = CHR ''/'' # d'"
    using assms(1) by (auto simp: plain_dir_def path_is_absolute_def prefix_def)
  let ?ps = "split_on (CHR ''/'') d'"
  have q: "last ?ps \<noteq> []" "last ?ps \<noteq> ''.''" using assms(1) by (simp_all add: plain_dir_def d Let_def)
  have abs: "path_is_absolute (d @ ''/'' @ name)" by (simp add: path_is_absolute_def d)
  have ps: "split_on (CHR ''/'') (d' @ CHR ''/'' # name) = ?ps @ [name]" using assms(2) by (rule split_on_last)
  have "drop_trailing ?ps = ?ps" using q by (intro drop_trailing_idle) simp_all
  moreover have "join_with (CHR ''/'') ?ps = d'" by (rule join_split)
  ultimately show ?thesis
    using assms(3,4) abs by (simp add: path_parent_def path_body_start_def d ps Let_def)
qed

text \<open>A relative reference of a local trajectory names a file beside it.\<close>

lemma local_media_beside_document:
  assumes "plain_dir d" "CHR ''/'' \<notin> set name" "name \<noteq> []" "name \<noteq> ''.''"
    "\<not> is_ok (se_url_parse E (d @ ''/'' @ name))" "\<not> is_ok (se_url_parse E reference)"
    "\<not> prefix ''data:'' reference" "\<not> path_is_absolute reference"
  shows "resolve_uri E U (d @ ''/'' @ name) reference = Ok (d @ ''/'' @ reference)"
proof -
  obtain e e' where err: "se_url_parse E (d @ ''/'' @ name) = Err e" "se_url_parse E reference = Err e'"
    using assms(5,6) by (metis is_ok.simps(1) result.exhaust)
  have "d \<noteq> []" using assms(1) by (auto simp: plain_dir_def path_is_absolute_def)
  moreover have "last d \<noteq> CHR ''/''"
  proof
    assume last: "last d = CHR ''/''"
    obtain d' where d: "d = CHR ''/'' # d'"
      using assms(1) by (auto simp: plain_dir_def path_is_absolute_def prefix_def)
    show False
    proof (cases d' rule: rev_cases)
      case Nil
      with assms(1) d show False by (simp add: plain_dir_def)
    next
      case (snoc x y)
      with last d have "split_on (CHR ''/'') d' = split_on (CHR ''/'') x @ [[]]"
        using split_on_append_gen [of "CHR ''/''" x "[]"] by simp
      with assms(1) d show False by (simp add: plain_dir_def)
    qed
  qed
  ultimately show ?thesis
    using path_parent_file [OF assms(1-4)] assms(7,8) err
    by (simp add: resolve_uri_def resolve_local_def path_push_def)
qed

section \<open>Origins\<close>

text \<open>
  What the \<open>url\<close> crate documents: a serialised URL parses to itself, the serialisation of an S3
  URL with a host is ASCII text that starts with its scheme and two slashes, and \<open>to_file_path\<close>, which does not
  look at the scheme, fails on every host but \<open>localhost\<close>.
\<close>

definition ascii :: "string \<Rightarrow> bool" where
  "ascii s \<longleftrightarrow> list_all (\<lambda>c. byte c < 128) s"

definition url_documented :: "storage_env \<Rightarrow> url_api \<Rightarrow> bool" where
  "url_documented E U \<longleftrightarrow>
     (\<forall>s u. se_url_parse E s = Ok u \<longrightarrow> se_url_parse E (url_str u) = Ok u)
     \<and> (\<forall>b r t. ua_join U b r = Ok t \<longrightarrow> se_url_parse E (url_str t) = Ok t)
     \<and> (\<forall>s u h. se_url_parse E s = Ok u \<and> url_scheme u = ''s3'' \<and> url_host u = Some h \<longrightarrow>
          prefix ''s3://'' (url_str u) \<and> ascii (url_str u))
     \<and> (\<forall>u h. url_host u = Some h \<and> h \<noteq> ''localhost'' \<longrightarrow> se_url_to_file_path E u = None)"

text \<open>A path that names a remote file: an S3 URI of a bucket not named \<open>localhost\<close>, or an HTTP(S) URL.\<close>

definition remote_path :: "storage_env \<Rightarrow> string \<Rightarrow> url \<Rightarrow> bool" where
  "remote_path E path base \<longleftrightarrow> se_url_parse E path = Ok base
     \<and> (if is_s3_uri path then url_host base \<noteq> Some ''localhost''
        else url_scheme base = ''http'' \<or> url_scheme base = ''https'')"

lemma prefix_is_s3_uri: "prefix ''s3://'' p \<Longrightarrow> ascii p \<Longrightarrow> is_s3_uri p"
proof -
  assume p: "prefix ''s3://'' p" "ascii p"
  then obtain rest where rest: "p = ''s3://'' @ rest" by (auto simp: prefix_def)
  have "is_char_boundary p 5"
    using p(2) by (cases rest) (auto simp: rest is_char_boundary_def is_continuation_def ascii_def)
  then show ?thesis
    by (simp add: is_s3_uri_def str_get_to_def rest eq_ignore_ascii_case_def)
qed

lemma input_file_open_s3:
  assumes "input_file_open E path s3 config = Ok f" "is_s3_uri path" "se_url_parse E path = Ok u"
    "url_scheme u \<noteq> ''http''" "url_scheme u \<noteq> ''https''"
  obtains c b where "s3 = Some c" "url_scheme u = ''s3''" "url_host u = Some b" "b \<noteq> []"
    "in_operator f = \<lparr>op_service = S3Service (s3_builder b c), op_layers = policy_layers config\<rparr>"
    "in_uri f = (case se_url_to_file_path E u of Some local \<Rightarrow> local | None \<Rightarrow> url_str u)"
proof -
  from assms have "open_stored_file E path s3 config = Ok f"
    by (auto simp: input_file_open_def and_then_Ok split: if_splits)
  then obtain st where st: "from_path E path s3 config = Ok st"
    "f = \<lparr>in_operator = st_operator st, in_opendal_path = st_object_path st,
       in_uri = (case se_url_to_file_path E (st_location st) of Some local \<Rightarrow> local | None \<Rightarrow> url_str (st_location st))\<rparr>"
    by (auto simp: open_stored_file_def and_then_Ok)
  then obtain c where c: "s3 = Some c" "from_s3_uri E path c config = Ok st"
    using assms(2) by (auto simp: from_path_def and_then_Ok ok_or_Ok)
  from c(2) obtain u' b op0 op p where u': "se_url_parse E path = Ok u'" "url_scheme u' = ''s3''" "url_host u' = Some b"
    "b \<noteq> []" "operator_new E (S3Service (s3_builder b c)) = Ok op0" "opendal_config_apply (se_fits E) config op0 = Ok op"
    "st = \<lparr>st_operator = op, st_object_store = OpendalStore op, st_object_path = p, st_location = u'\<rparr>"
    by (rule from_s3_uri_Ok)
  have u: "u' = u" using u'(1) assms(3) by simp
  have op: "op = \<lparr>op_service = S3Service (s3_builder b c), op_layers = policy_layers config\<rparr>"
    using applied_operator [OF u'(5,6)] by simp
  have "st_location st = u" "st_operator st = op" using u'(7) u by simp_all
  then show thesis
    by (intro that [OF c(1), of b]) (use u u'(2-4) op st(2) in auto)
qed

lemma input_file_open_http:
  assumes "input_file_open E path s3 config = Ok f" "se_url_parse E path = Ok u"
    "url_scheme u = ''http'' \<or> url_scheme u = ''https''"
  shows "in_uri f = url_str u
    \<and> in_operator f = \<lparr>op_service = HttpEndpoint (url_before_path u), op_layers = policy_layers config\<rparr>"
proof -
  from assms have "open_http_file E path u config = Ok f"
    by (auto simp: input_file_open_def and_then_Ok split: if_splits)
  then show ?thesis using http_operator_Ok by (auto simp: open_http_file_def and_then_Ok split: if_splits)
qed

text \<open>Resolving a reference of a remote trajectory, and opening what it names.\<close>

lemma remote_resolution:
  assumes "se_url_parse E document = Ok base" "is_remote_scheme (url_scheme base)"
    "resolve_uri E U document reference = Ok uri" "\<not> prefix ''data:'' reference"
  obtains target where "ua_join U base reference = Ok target" "same_origin U target base" "uri = url_str target"
  using assms by (auto simp: resolve_uri_def resolve_remote_def and_then_Ok map_err_Ok split: if_splits)

lemma remote_media_opened:
  assumes "url_documented E U" "remote_path E path base"
    "input_file_open E path s3 config = Ok doc" "resolve_uri E U (in_uri doc) reference = Ok uri"
    "\<not> prefix ''data:'' reference" "open_media E uri s3 config = Ok f"
  shows "\<exists>target. uri = url_str target \<and> same_origin U target base
    \<and> (case op_service (in_operator doc) of
         HttpEndpoint _ \<Rightarrow> in_operator f = \<lparr>op_service = HttpEndpoint (url_before_path target), op_layers = policy_layers config\<rparr>
       | _ \<Rightarrow> in_operator f = in_operator doc)"
proof -
  have parse: "se_url_parse E path = Ok base" using assms(2) by (simp add: remote_path_def)
  then have again: "se_url_parse E (url_str base) = Ok base" using assms(1) unfolding url_documented_def by blast
  show ?thesis
  proof (cases "url_scheme base = ''http'' \<or> url_scheme base = ''https''")
    case True
    note doc = input_file_open_http [OF assms(3) parse True]
    have "resolve_uri E U (url_str base) reference = Ok uri" using assms(4) doc by simp
    moreover have "is_remote_scheme (url_scheme base)" using True by (auto simp: is_remote_scheme_def)
    ultimately obtain target where target: "ua_join U base reference = Ok target" "same_origin U target base" "uri = url_str target"
      using remote_resolution [OF again _ _ assms(5)] by metis
    have "se_url_parse E uri = Ok target" using assms(1) target(1,3) unfolding url_documented_def by blast
    moreover have "url_scheme target = ''http'' \<or> url_scheme target = ''https''"
      using True target(2) by (simp add: same_origin_def)
    ultimately have "in_operator f = \<lparr>op_service = HttpEndpoint (url_before_path target), op_layers = policy_layers config\<rparr>"
      using input_file_open_http assms(6) unfolding open_media_def by blast
    with doc target(2,3) show ?thesis by auto
  next
    case False
    with assms(2) have s3uri: "is_s3_uri path" "url_host base \<noteq> Some ''localhost''"
      by (auto simp: remote_path_def split: if_splits)
    obtain c b where doc: "s3 = Some c" "url_scheme base = ''s3''" "url_host base = Some b" "b \<noteq> []"
      "in_operator doc = \<lparr>op_service = S3Service (s3_builder b c), op_layers = policy_layers config\<rparr>"
      "in_uri doc = (case se_url_to_file_path E base of Some local \<Rightarrow> local | None \<Rightarrow> url_str base)"
      using False by (auto elim: input_file_open_s3 [OF assms(3) s3uri(1) parse])
    have "se_url_to_file_path E base = None" using assms(1) doc(3) s3uri(2) unfolding url_documented_def by blast
    with doc(6) have uri_of_doc: "in_uri doc = url_str base" by simp
    have "is_remote_scheme (url_scheme base)" using doc(2) by (simp add: is_remote_scheme_def)
    with assms(4) uri_of_doc obtain target where target: "ua_join U base reference = Ok target" "same_origin U target base"
      "uri = url_str target" using remote_resolution [OF again _ _ assms(5)] by metis
    have parsed: "se_url_parse E uri = Ok target" using assms(1) target(1,3) unfolding url_documented_def by blast
    have origin: "url_scheme target = ''s3''" "url_host target = Some b"
      using target(2) doc(2,3) by (simp_all add: same_origin_def)
    then have "prefix ''s3://'' uri \<and> ascii uri"
      using assms(1) parsed target(3) unfolding url_documented_def by blast
    then have "input_file_open E uri s3 config = Ok f" "is_s3_uri uri"
      using assms(6) by (simp_all add: open_media_def prefix_is_s3_uri)
    from input_file_open_s3 [OF this parsed] origin doc(1)
    have "in_operator f = \<lparr>op_service = S3Service (s3_builder b c), op_layers = policy_layers config\<rparr>" by auto
    with doc(5) target(2,3) show ?thesis by auto
  qed
qed

text \<open>
  C8: A trajectory opened from an S3 bucket or over HTTP(S) never makes the reader open local
  files or another origin: whatever a media reference of it resolves to and opens, unless it is
  inline data, is at a URL of the same scheme, host and port, without credentials, in the very
  operator of the trajectory (the same bucket with the same S3 configuration), or for HTTP(S)
  in an operator for that URL under the same policy. Buckets named \<open>localhost\<close> are excepted.
\<close>

theorem remote_media_stays_at_origin:
  assumes "url_documented E U" "remote_path E path base"
    "input_file_open E path s3 config = Ok doc" "resolve_uri E U (in_uri doc) reference = Ok uri"
    "\<not> prefix ''data:'' reference" "open_media E uri s3 config = Ok f"
  shows "\<exists>target. uri = url_str target
    \<and> url_scheme target = url_scheme base \<and> url_host target = url_host base \<and> ua_port U target = ua_port U base
    \<and> ua_username U target = [] \<and> ua_password U target = None
    \<and> (case op_service (in_operator doc) of
         HttpEndpoint _ \<Rightarrow> in_operator f = \<lparr>op_service = HttpEndpoint (url_before_path target), op_layers = policy_layers config\<rparr>
       | _ \<Rightarrow> in_operator f = in_operator doc)"
  using remote_media_opened [OF assms] unfolding same_origin_def by blast

section \<open>Example\<close>

text \<open>An environment of two S3 objects of one bucket, in which the second is the only reference.\<close>

definition media_env :: "url list \<Rightarrow> storage_env" where
  "media_env us = (storage_ref us)\<lparr>se_url_to_file_path :=
     (\<lambda>u. if url_host u = None \<or> url_host u = Some ''localhost'' then Some (url_path u) else None)\<rparr>"

definition media_join :: "string \<Rightarrow> url \<Rightarrow> url_api" where
  "media_join reference target =
     \<lparr>ua_join = (\<lambda>_ r. if r = reference then Ok target else Err ''invalid relative URL''),
      ua_port = (\<lambda>_. None), ua_username = (\<lambda>_. []), ua_password = (\<lambda>_. None)\<rparr>"

lemma media_env_sel [simp]:
  "se_fits (media_env us) = (\<lambda>_. True)" "se_operator_new (media_env us) = (\<lambda>_. None)"
  "se_current_dir (media_env us) = Ok ''/work''" "se_path_from (media_env us) = id"
  "se_path_from_url_path (media_env us) = (\<lambda>p. Ok (trim_start_slashes p))"
  "se_url_parse (media_env us) = (\<lambda>s. ok_or (find (\<lambda>u. url_str u = s) us) ''relative URL without a base'')"
  "se_url_to_file_path (media_env us) =
     (\<lambda>u. if url_host u = None \<or> url_host u = Some ''localhost'' then Some (url_path u) else None)"
  by (simp_all add: media_env_def storage_ref_def)

lemma s3_opens:
  assumes "find (\<lambda>u. url_str u = url_str (s3_url b k)) us = Some (s3_url b k)" "b \<noteq> []"
    "is_s3_uri (url_str (s3_url b k))" "trim_start_slashes (''/'' @ k) \<noteq> []"
  shows "input_file_open (media_env us) (url_str (s3_url b k)) (Some s3_config_default) opendal_config_default
    = Ok \<lparr>in_operator = \<lparr>op_service = S3Service (s3_builder b s3_config_default), op_layers = policy_layers opendal_config_default\<rparr>,
          in_opendal_path = trim_start_slashes (''/'' @ k),
          in_uri = (if b = ''localhost'' then ''/'' @ k else url_str (s3_url b k))\<rparr>"
proof -
  have sound: "sound_config (\<lambda>_. True) opendal_config_default" by (simp add: default_config_sound)
  have "opendal_config_validate (\<lambda>_. True) opendal_config_default = Ok opendal_config_default"
    using sound by (simp add: validate_Ok)
  moreover have "opendal_config_apply (\<lambda>_. True) opendal_config_default \<lparr>op_service = s, op_layers = []\<rparr>
      = Ok \<lparr>op_service = s, op_layers = policy_layers opendal_config_default\<rparr>" for s
    using sound by (simp add: apply_Ok policy_layers_def)
  ultimately show ?thesis
    using assms by (simp add: input_file_open_def open_stored_file_def from_path_def from_s3_uri_def operator_new_def
        context_of_def s3_url_def [of b k])
qed

theorem remote_media_stays_at_origin_witness:
  "\<exists>doc f. input_file_open (media_env [s3_url ''runs'' ''t.json'', s3_url ''runs'' ''a.png'']) ''s3://runs/t.json''
        (Some s3_config_default) opendal_config_default = Ok doc
    \<and> resolve_uri (media_env [s3_url ''runs'' ''t.json'', s3_url ''runs'' ''a.png'']) (media_join ''a.png'' (s3_url ''runs'' ''a.png''))
        (in_uri doc) ''a.png'' = Ok ''s3://runs/a.png''
    \<and> open_media (media_env [s3_url ''runs'' ''t.json'', s3_url ''runs'' ''a.png'']) ''s3://runs/a.png''
        (Some s3_config_default) opendal_config_default = Ok f
    \<and> in_operator f = in_operator doc"
proof -
  let ?us = "[s3_url ''runs'' ''t.json'', s3_url ''runs'' ''a.png'']"
  let ?E = "media_env ?us" and ?U = "media_join ''a.png'' (s3_url ''runs'' ''a.png'')"
  have s3: "is_s3_uri ''s3://runs/t.json''" "is_s3_uri ''s3://runs/a.png''"
    by (simp_all add: prefix_is_s3_uri ascii_def)
  have strs: "url_str (s3_url ''runs'' ''t.json'') = ''s3://runs/t.json''" "url_str (s3_url ''runs'' ''a.png'') = ''s3://runs/a.png''"
    by (simp_all add: s3_url_def)
  obtain doc where doc: "input_file_open ?E ''s3://runs/t.json'' (Some s3_config_default) opendal_config_default = Ok doc"
    "in_uri doc = ''s3://runs/t.json''" "op_service (in_operator doc) = S3Service (s3_builder ''runs'' s3_config_default)"
    using s3_opens [of "''runs''" "''t.json''" ?us] s3 strs by (simp add: trim_start_slashes_def)
  obtain f where f: "input_file_open ?E ''s3://runs/a.png'' (Some s3_config_default) opendal_config_default = Ok f"
    using s3_opens [of "''runs''" "''a.png''" ?us] s3 strs by (simp add: trim_start_slashes_def)
  have res: "resolve_uri ?E ?U (in_uri doc) ''a.png'' = Ok ''s3://runs/a.png''"
    by (simp add: doc(2) resolve_uri_def resolve_remote_def strs same_origin_def media_join_def is_remote_scheme_def)
      (simp add: s3_url_def)
  have opened: "open_media ?E ''s3://runs/a.png'' (Some s3_config_default) opendal_config_default = Ok f"
    using f by (simp add: open_media_def)
  have "url_documented ?E ?U"
    by (auto simp: url_documented_def strs ok_or_Ok media_join_def ascii_def s3_url_def split: if_splits)
  moreover have "remote_path ?E ''s3://runs/t.json'' (s3_url ''runs'' ''t.json'')"
    using s3 strs by (simp add: remote_path_def s3_url_def)
  ultimately have "in_operator f = in_operator doc"
    using remote_media_stays_at_origin [OF _ _ doc(1) res _ opened] doc(3) by auto
  with doc res opened show ?thesis by blast
qed

text \<open>
  The exception is real. \<open>Url::to_file_path\<close> does not look at the scheme, so the URI of an
  object of a bucket named \<open>localhost\<close> is recorded as a local path, and a reference to an absolute
  path in that trajectory opens the local file.
\<close>

lemma localhost_bucket_reads_host_files:
  "\<exists>doc f. input_file_open (media_env [s3_url ''localhost'' ''t.json'']) ''s3://localhost/t.json''
        (Some s3_config_default) opendal_config_default = Ok doc
    \<and> op_service (in_operator doc) = S3Service (s3_builder ''localhost'' s3_config_default)
    \<and> resolve_uri (media_env [s3_url ''localhost'' ''t.json'']) U (in_uri doc) ''/etc/passwd'' = Ok ''/etc/passwd''
    \<and> open_media (media_env [s3_url ''localhost'' ''t.json'']) ''/etc/passwd'' (Some s3_config_default)
        opendal_config_default = Ok f
    \<and> op_service (in_operator f) = FsRoot ''/'' \<and> in_opendal_path f = ''etc/passwd''"
proof -
  let ?E = "media_env [s3_url ''localhost'' ''t.json'']"
  have strs: "url_str (s3_url ''localhost'' ''t.json'') = ''s3://localhost/t.json''" by (simp add: s3_url_def)
  have s3: "is_s3_uri ''s3://localhost/t.json''" by (simp add: prefix_is_s3_uri ascii_def)
  have doc: "input_file_open ?E ''s3://localhost/t.json'' (Some s3_config_default) opendal_config_default
      = Ok \<lparr>in_operator = \<lparr>op_service = S3Service (s3_builder ''localhost'' s3_config_default), op_layers = policy_layers opendal_config_default\<rparr>,
            in_opendal_path = ''t.json'', in_uri = ''/t.json''\<rparr>"
    using s3_opens [of "''localhost''" "''t.json''" "[s3_url ''localhost'' ''t.json'']"] s3 strs
    by (simp add: trim_start_slashes_def)
  have "\<not> is_s3_uri ''/etc/passwd''" by code_simp
  moreover have "opendal_config_validate (\<lambda>_. True) opendal_config_default = Ok opendal_config_default"
    by (simp add: validate_Ok default_config_sound)
  ultimately have "open_media ?E ''/etc/passwd'' (Some s3_config_default) opendal_config_default
      = Ok \<lparr>in_operator = \<lparr>op_service = FsRoot ''/'', op_layers = []\<rparr>, in_opendal_path = ''etc/passwd'', in_uri = ''/etc/passwd''\<rparr>"
    by (simp add: open_media_def input_file_open_def open_stored_file_def from_path_def from_local_path_def path_is_absolute_def
        operator_new_def trim_start_slashes_def context_of_def strs) (simp add: media_env_def storage_ref_def)
  moreover have "resolve_uri ?E U ''/t.json'' ''/etc/passwd'' = Ok ''/etc/passwd''"
    by (simp add: resolve_uri_def resolve_local_def path_is_absolute_def strs)
  ultimately show ?thesis using doc by simp
qed

end
