(* ===== verification/AtifMedia.thy ===== *)
theory AtifMedia
  imports ColumnStorage MediaUri Metrics Source
begin

text \<open>
  \<open>rust/src/source/atif/media.rs\<close>: the native schema of a trajectory with its media fields, and
  the resolver that replaces each media path by the bytes it names. Reading an object, base64 and
  percent decoding and the values of a string array are the record \<open>media_io\<close>; the schema
  \<open>atif_arrow\<close> gives is an argument. A step of the resolver takes the counters and gives its
  result with the counters after it, or panics (\<open>None\<close>).
\<close>

datatype content_type = ContentText | ContentImage | ContentAudio

type_synonym object_reader = "bytes \<times> (io_error_kind \<times> string) option"

record 'p media_io =
  mi_stat :: "operator \<Rightarrow> string \<Rightarrow> (u64, opendal_error) result"
  mi_object :: "operator \<Rightarrow> string \<Rightarrow> u64 \<Rightarrow> (object_reader, opendal_error) result"
  mi_percent_decode :: "string \<Rightarrow> bytes"
  mi_base64 :: "bytes \<Rightarrow> (bytes, string) result"
  mi_string :: "'p array \<Rightarrow> nat \<Rightarrow> string"
  mi_large_binary :: "bytes option list \<Rightarrow> 'p array"

section \<open>Steps\<close>

type_synonym 'a media = "read_metrics \<Rightarrow> ('a res \<times> read_metrics) option"

definition media_done :: "'a res \<Rightarrow> 'a media" where
  "media_done r = (\<lambda>m. Some (r, m))"

definition media_panic :: "'a media" where
  "media_panic = (\<lambda>m. None)"

definition media_count :: "(read_metrics \<Rightarrow> read_metrics) \<Rightarrow> unit media" where
  "media_count f = (\<lambda>m. Some (Ok (), f m))"

definition media_bind :: "'a media \<Rightarrow> ('a \<Rightarrow> 'b media) \<Rightarrow> 'b media" where
  "media_bind r f = (\<lambda>m. case r m of
     None \<Rightarrow> None | Some (Err e, m1) \<Rightarrow> Some (Err e, m1) | Some (Ok x, m1) \<Rightarrow> f x m1)"

definition media_context :: "string \<Rightarrow> 'a media \<Rightarrow> 'a media" where
  "media_context ctx r = (\<lambda>m. map_option (\<lambda>(x, m1). (context_of ctx x (\<lambda>e. e), m1)) (r m))"

text \<open>What may panic: \<open>None\<close> is the panic.\<close>

definition media_expect :: "'a option \<Rightarrow> 'a media" where
  "media_expect x = (case x of None \<Rightarrow> media_panic | Some y \<Rightarrow> media_done (Ok y))"

fun media_map :: "('a \<Rightarrow> 'b media) \<Rightarrow> 'a list \<Rightarrow> 'b list media" where
  "media_map f [] = media_done (Ok [])"
| "media_map f (x # xs) = media_bind (f x) (\<lambda>y. media_bind (media_map f xs) (\<lambda>ys. media_done (Ok (y # ys))))"

lemma media_bind_cong [fundef_cong]:
  "r = r' \<Longrightarrow> (\<And>x. f x = g x) \<Longrightarrow> media_bind r f = media_bind r' g"
  by presburger

lemma media_map_cong [fundef_cong]:
  "xs = ys \<Longrightarrow> (\<And>x. x \<in> set ys \<Longrightarrow> f x = g x) \<Longrightarrow> media_map f xs = media_map g ys"
  by (induction ys arbitrary: xs) auto

section \<open>The schema\<close>

definition media_policy :: "string \<Rightarrow> storage_policy option" where
  "media_policy path =
     (if path = ''steps.message.text'' \<or> path = ''steps.observation.results.content.text'' then Some PolicyText
      else if path = ''steps.message.source.path'' \<or> path = ''steps.observation.results.content.source.path''
        then Some PolicyBlob
      else None)"

definition mark_policy :: "storage_policy \<Rightarrow> field \<Rightarrow> field" where
  "mark_policy policy f = with_metadata f
     (sm_insert STORAGE_POLICY (storage_policy_as_str policy) (sm_insert SOURCE_TYPE ''atif'' (field_metadata f)))"

function embedded_field :: "string \<Rightarrow> field \<Rightarrow> field" where
  "embedded_field path f =
    (let policy = media_policy path;
         t = (if policy = Some PolicyBlob then LargeBinary
              else (case field_type f of
                  Struct fs \<Rightarrow> Struct (map (\<lambda>child. embedded_field (path @ ''.'' @ field_name child) child) fs)
                | List c \<Rightarrow> List (embedded_field path c)
                | other \<Rightarrow> other));
         g = with_data_type f t
     in (case policy of None \<Rightarrow> g | Some p \<Rightarrow> mark_policy p g))"
  by pat_completeness auto

termination
  by (relation "measure (\<lambda>(_, f). size f)") (simp_all add: size_struct_member size_list_item)

declare embedded_field.simps [simp del]

definition embedded_schema :: "schema \<Rightarrow> schema" where
  "embedded_schema trajectory =
     \<lparr>schema_fields = map (\<lambda>f. embedded_field (field_name f) f) (schema_fields trajectory),
      schema_metadata = sm_insert SOURCE_TYPE ''atif'' (schema_metadata trajectory)\<rparr>"

section \<open>Reading a medium\<close>

definition decode_data_uri :: "'p media_io \<Rightarrow> string \<Rightarrow> bytes res" where
  "decode_data_uri IO uri =
     and_then (ok_or (split_once (CHR '','') uri) (error_message ''invalid ATIF media data URI'')) (\<lambda>(header, encoded).
     let content = mi_percent_decode IO encoded
     in if suffix '';base64'' header
        then map_err (\<lambda>e. error_message (''invalid ATIF media base64: '' @ e)) (mi_base64 IO content)
        else Ok content)"

record media_resolver =
  mr_document :: string
  mr_s3_config :: "s3_config option"
  mr_opendal_config :: opendal_config

definition media_read ::
  "storage_env \<Rightarrow> 'p media_io \<Rightarrow> media_resolver \<Rightarrow> string \<Rightarrow> bytes media" where
  "media_read E IO R uri =
     (if prefix ''data:'' uri then media_done (decode_data_uri IO uri)
      else media_bind (media_done (open_media E uri (mr_s3_config R) (mr_opendal_config R))) (\<lambda>input.
        media_bind (media_done (map_err opendal_into (mi_stat IO (in_operator input) (in_opendal_path input)))) (\<lambda>sz.
        media_bind (media_count (add_total_bytes sz)) (\<lambda>_.
        media_bind (media_done (map_err opendal_into (mi_object IO (in_operator input) (in_opendal_path input) sz))) (\<lambda>(content, failure).
        media_bind (media_count (add_bytes_read (of_nat (length content)))) (\<lambda>_.
        media_done (case failure of
            Some (kind, shown) \<Rightarrow> Err (io_error kind shown)
          | None \<Rightarrow> (if of_nat (length content) \<noteq> sz then Err (error_message ''ATIF media size changed during read'')
                    else Ok content))))))))"

section \<open>Resolving arrays\<close>

text \<open>\<open>is_null\<close> and the value of a string array panic out of range; a struct's column by name, when absent.\<close>

definition arr_is_null :: "'p array \<Rightarrow> nat \<Rightarrow> bool option" where
  "arr_is_null a i = (case arr_nulls a of
     None \<Rightarrow> Some False | Some valid \<Rightarrow> (if i < length valid then Some (\<not> valid ! i) else None))"

definition string_value :: "'p media_io \<Rightarrow> 'p array \<Rightarrow> nat \<Rightarrow> string option" where
  "string_value IO a i = (if arr_type a = Utf8 \<and> i < arr_len a then Some (mi_string IO a i) else None)"

definition struct_column :: "'p array \<Rightarrow> string \<Rightarrow> 'p array option" where
  "struct_column a name = (case arr_type a of
     Struct fs \<Rightarrow> Option.bind (find_index (\<lambda>f. field_name f = name) fs)
       (\<lambda>i. if i < length (arr_children a) then Some (arr_children a ! i) else None)
   | _ \<Rightarrow> None)"

definition content_type_of :: "'p media_io \<Rightarrow> 'p array \<Rightarrow> nat \<Rightarrow> content_type media" where
  "content_type_of IO part index =
     media_bind (media_expect (Option.bind (struct_column part ''type'') (\<lambda>kinds. string_value IO kinds index))) (\<lambda>kind.
     media_done (if kind = ''text'' then Ok ContentText
       else if kind = ''image'' then Ok ContentImage
       else if kind = ''audio'' then Ok ContentAudio
       else Err (error_message (''unsupported ATIF content type: '' @ kind))))"

definition is_struct :: "data_type \<Rightarrow> bool" where
  "is_struct t \<longleftrightarrow> (case t of Struct _ \<Rightarrow> True | _ \<Rightarrow> False)"

definition marks_text :: "data_type \<Rightarrow> bool" where
  "marks_text t \<longleftrightarrow> (case t of
     Struct fs \<Rightarrow> list_ex (\<lambda>f. map_of (field_metadata f) STORAGE_POLICY = Some ''text'') fs | _ \<Rightarrow> False)"

text \<open>One row of the media paths of the content parts \<open>part\<close>.\<close>

definition resolve_row ::
  "storage_env \<Rightarrow> url_api \<Rightarrow> 'p media_io \<Rightarrow> media_resolver \<Rightarrow> 'p array \<Rightarrow> 'p array \<Rightarrow> nat \<Rightarrow> bytes option media" where
  "resolve_row E U IO R paths part index =
     media_bind (media_expect (arr_is_null part index)) (\<lambda>null.
     if null then media_done (Ok None)
     else media_bind (content_type_of IO part index) (\<lambda>kind.
       if kind = ContentText then media_done (Ok None)
       else media_bind (media_expect (Option.bind (struct_column part ''source'') (\<lambda>source. arr_is_null source index))) (\<lambda>no_source.
         media_bind (if no_source then media_done (Ok True) else media_expect (arr_is_null paths index)) (\<lambda>missing.
         if missing then media_done (Err (error_message ''missing ATIF media source path''))
         else media_bind (media_expect (string_value IO paths index)) (\<lambda>path.
           media_bind (media_context ''ATIF media URI'' (media_done (resolve_uri E U (mr_document R) path))) (\<lambda>uri.
           media_bind (media_context (''ATIF media '' @ path) (media_read E IO R uri)) (\<lambda>payload.
           media_done (Ok (Some payload)))))))))"

definition media_children :: "data_type \<Rightarrow> field list option" where
  "media_children t = (case t of Struct fs \<Rightarrow> Some fs | List f \<Rightarrow> Some [f] | _ \<Rightarrow> None)"

lemma media_children_size: "media_children (field_type f) = Some cs \<Longrightarrow> c \<in> set cs \<Longrightarrow> size c < size f"
  by (cases "field_type f") (auto simp: media_children_def intro: size_struct_member size_list_item)

function resolve_array ::
  "storage_env \<Rightarrow> url_api \<Rightarrow> 'p media_io \<Rightarrow> 'p array_api \<Rightarrow> media_resolver \<Rightarrow> 'p array \<Rightarrow> field \<Rightarrow> 'p array option
    \<Rightarrow> 'p array media" where
  "resolve_array E U IO P R a target part =
    (if arr_type a = field_type target then media_done (Ok a)
     else media_bind (if marks_text (field_type target)
            then (if is_struct (arr_type a) then media_done (Ok (Some a)) else media_panic)
            else media_done (Ok part)) (\<lambda>part.
       if arr_type a = Utf8 \<and> field_type target = LargeBinary
       then media_bind (media_done (ok_or part (error_message ''media path outside an ATIF ContentPart''))) (\<lambda>part.
              media_bind (media_map (resolve_row E U IO R a part) [0..<arr_len part]) (\<lambda>rows.
              media_done (Ok (mi_large_binary IO rows))))
       else (case media_children (field_type target) of
           None \<Rightarrow> media_done (Err (error_message ''unexpected ATIF media field type''))
         | Some children \<Rightarrow>
             media_bind (media_map (\<lambda>(child, field). resolve_array E U IO P R child field part)
               (zip (arr_children a) children)) (\<lambda>transformed.
             media_done (map_err arrow_error (ap_build P
               (Array (field_type target) (arr_len a) (arr_nulls a) transformed (arr_buffers a))))))))"
  by pat_completeness auto

termination
  by (relation "measure (\<lambda>(_, _, _, _, _, _, f, _). size f)")
    (auto dest: set_zip_rightD intro: media_children_size)

declare resolve_array.simps [simp del]

definition resolve_batch ::
  "storage_env \<Rightarrow> url_api \<Rightarrow> 'p media_io \<Rightarrow> 'p array_api \<Rightarrow> media_resolver \<Rightarrow> 'p array list \<Rightarrow> schema
    \<Rightarrow> 'p array list media" where
  "resolve_batch E U IO P R batch s =
     media_bind (media_map (\<lambda>(a, field). resolve_array E U IO P R a field None) (zip batch (schema_fields s))) (\<lambda>columns.
     media_done (case ap_batch P s columns of None \<Rightarrow> Ok columns | Some e \<Rightarrow> Err (arrow_error e)))"

section \<open>Steps that succeed\<close>

lemma media_done_Some [simp]: "media_done r m = Some (x, m') \<longleftrightarrow> r = x \<and> m' = m"
  by (auto simp: media_done_def)

lemma media_panic_None [simp]: "media_panic m = None"
  by (simp add: media_panic_def)

lemma media_count_Some [simp]: "media_count f m = Some (x, m') \<longleftrightarrow> x = Ok () \<and> m' = f m"
  by (auto simp: media_count_def)

lemma media_expect_Some [simp]: "media_expect o' m = Some (r, m') \<longleftrightarrow> (\<exists>x. o' = Some x \<and> r = Ok x \<and> m' = m)"
  by (cases o') (auto simp: media_expect_def)

lemma media_bind_Ok: "media_bind r f m = Some (Ok y, m') \<longleftrightarrow> (\<exists>x m1. r m = Some (Ok x, m1) \<and> f x m1 = Some (Ok y, m'))"
  by (auto simp: media_bind_def split: option.splits prod.splits result.splits)

lemma media_context_Ok: "media_context ctx r m = Some (Ok y, m') \<longleftrightarrow> r m = Some (Ok y, m')"
  by (auto simp: media_context_def context_of_Ok)

lemma media_map_Ok: "media_map f xs m = Some (Ok ys, m') \<Longrightarrow> list_all2 (\<lambda>x y. \<exists>m m'. f x m = Some (Ok y, m')) xs ys"
proof (induction xs arbitrary: m m' ys)
  case (Cons x xs)
  then obtain y m1 zs m2 where "f x m = Some (Ok y, m1)" "media_map f xs m1 = Some (Ok zs, m2)" "ys = y # zs"
    by (auto simp: media_bind_Ok)
  with Cons.IH show ?case by auto
qed simp

section \<open>What resolving makes of an array\<close>

text \<open>
  The bytes of a medium: the decoded inline data, or the content of the object, complete and of
  the announced size.
\<close>

definition medium ::
  "storage_env \<Rightarrow> 'p media_io \<Rightarrow> media_resolver \<Rightarrow> string \<Rightarrow> bytes \<Rightarrow> bool" where
  "medium E IO R uri payload \<longleftrightarrow>
     (if prefix ''data:'' uri then decode_data_uri IO uri = Ok payload
      else \<exists>input sz. open_media E uri (mr_s3_config R) (mr_opendal_config R) = Ok input
        \<and> mi_stat IO (in_operator input) (in_opendal_path input) = Ok sz
        \<and> mi_object IO (in_operator input) (in_opendal_path input) sz = Ok (payload, None)
        \<and> of_nat (length payload) = sz)"

text \<open>
  The cell of content part \<open>i\<close>: null for a null part and for text, the bytes of the medium its
  path names for an image or audio.
\<close>

definition media_cell ::
  "storage_env \<Rightarrow> url_api \<Rightarrow> 'p media_io \<Rightarrow> media_resolver \<Rightarrow> 'p array \<Rightarrow> 'p array \<Rightarrow> nat \<Rightarrow> bytes option \<Rightarrow> bool" where
  "media_cell E U IO R paths part i cell \<longleftrightarrow>
     (case cell of
        None \<Rightarrow> arr_is_null part i = Some True
          \<or> arr_is_null part i = Some False \<and> (\<exists>kinds. struct_column part ''type'' = Some kinds \<and> string_value IO kinds i = Some ''text'')
      | Some payload \<Rightarrow> arr_is_null part i = Some False
          \<and> (\<exists>kinds kind. struct_column part ''type'' = Some kinds \<and> string_value IO kinds i = Some kind \<and> kind \<in> {''image'', ''audio''})
          \<and> (\<exists>source. struct_column part ''source'' = Some source \<and> arr_is_null source i = Some False)
          \<and> arr_is_null paths i = Some False
          \<and> (\<exists>path uri. string_value IO paths i = Some path \<and> resolve_uri E U (mr_document R) path = Ok uri
               \<and> medium E IO R uri payload))"

text \<open>
  An array and what it becomes for a target field: itself when its type is the target's, the
  binary array of the cells for a media path, and otherwise the container rebuilt from its
  children, where a struct with a text marked by the schema is the content part of what is below.
\<close>

definition part_of :: "'p array \<Rightarrow> field \<Rightarrow> 'p array option \<Rightarrow> 'p array option" where
  "part_of a target part = (if marks_text (field_type target) then Some a else part)"

inductive embeds ::
  "storage_env \<Rightarrow> url_api \<Rightarrow> 'p media_io \<Rightarrow> 'p array_api \<Rightarrow> media_resolver \<Rightarrow> 'p array option \<Rightarrow> 'p array \<Rightarrow> field \<Rightarrow> 'p array \<Rightarrow> bool"
  for E U IO P R where
  embeds_same: "arr_type a = field_type g \<Longrightarrow> embeds E U IO P R part a g a"
| embeds_media: "arr_type a = Utf8 \<Longrightarrow> field_type g = LargeBinary \<Longrightarrow> length cells = arr_len p \<Longrightarrow>
    list_all (\<lambda>(i, cell). media_cell E U IO R a p i cell) (enumerate 0 cells) \<Longrightarrow>
    embeds E U IO P R (Some p) a g (mi_large_binary IO cells)"
| embeds_container: "arr_type a \<noteq> field_type g \<Longrightarrow> media_children (field_type g) = Some children \<Longrightarrow>
    (marks_text (field_type g) \<longrightarrow> is_struct (arr_type a)) \<Longrightarrow>
    list_all2 (\<lambda>x b. embeds E U IO P R (part_of a g part) (fst x) (snd x) b) (zip (arr_children a) children) bs \<Longrightarrow>
    ap_build P (Array (field_type g) (arr_len a) (arr_nulls a) bs (arr_buffers a)) = Ok b \<Longrightarrow>
    embeds E U IO P R part a g b"

inductive_cases embedsE: "embeds E U IO P R part a g b"

lemma media_read_medium: "media_read E IO R uri m = Some (Ok payload, m') \<Longrightarrow> medium E IO R uri payload"
  by (auto simp: media_read_def medium_def media_bind_Ok map_err_Ok split: if_splits option.splits prod.splits)
    (metis option.exhaust surj_pair)

lemma content_type_of_Ok: "content_type_of IO part i m = Some (Ok kind, m') \<Longrightarrow>
    \<exists>kinds name. struct_column part ''type'' = Some kinds \<and> string_value IO kinds i = Some name
      \<and> (if kind = ContentText then name = ''text'' else name \<in> {''image'', ''audio''})"
  by (auto simp: content_type_of_def media_bind_Ok bind_eq_Some_conv split: if_splits)

lemma resolve_row_cell:
  assumes "resolve_row E U IO R paths part i m = Some (Ok cell, m')"
  shows "media_cell E U IO R paths part i cell"
proof -
  obtain null where null: "arr_is_null part i = Some null"
    using assms by (auto simp: resolve_row_def media_bind_Ok)
  show ?thesis
  proof (cases null)
    case True
    with assms null show ?thesis by (auto simp: resolve_row_def media_bind_Ok media_cell_def)
  next
    case False
    with assms null obtain kind m1 where kind: "content_type_of IO part i m = Some (Ok kind, m1)"
      "(if kind = ContentText then media_done (Ok None)
        else media_bind (media_expect (Option.bind (struct_column part ''source'') (\<lambda>source. arr_is_null source i))) (\<lambda>no_source.
         media_bind (if no_source then media_done (Ok True) else media_expect (arr_is_null paths i)) (\<lambda>missing.
         if missing then media_done (Err (error_message ''missing ATIF media source path''))
         else media_bind (media_expect (string_value IO paths i)) (\<lambda>path.
           media_bind (media_context ''ATIF media URI'' (media_done (resolve_uri E U (mr_document R) path))) (\<lambda>uri.
           media_bind (media_context (''ATIF media '' @ path) (media_read E IO R uri)) (\<lambda>payload.
           media_done (Ok (Some payload)))))))) m1 = Some (Ok cell, m')"
      by (auto simp: resolve_row_def media_bind_Ok)
    note named = content_type_of_Ok [OF kind(1)]
    show ?thesis
    proof (cases "kind = ContentText")
      case True
      with kind(2) named null False show ?thesis by (auto simp: media_cell_def)
    next
      case other: False
      then have "(if kind = ContentText then x else y) = y" for x y :: "bytes option media" by simp
      with kind(2) have rest: "media_bind (media_expect (Option.bind (struct_column part ''source'') (\<lambda>source. arr_is_null source i))) (\<lambda>no_source.
         media_bind (if no_source then media_done (Ok True) else media_expect (arr_is_null paths i)) (\<lambda>missing.
         if missing then media_done (Err (error_message ''missing ATIF media source path''))
         else media_bind (media_expect (string_value IO paths i)) (\<lambda>path.
           media_bind (media_context ''ATIF media URI'' (media_done (resolve_uri E U (mr_document R) path))) (\<lambda>uri.
           media_bind (media_context (''ATIF media '' @ path) (media_read E IO R uri)) (\<lambda>payload.
           media_done (Ok (Some payload))))))) m1 = Some (Ok cell, m')" by simp
      then obtain source path uri payload m2 where "struct_column part ''source'' = Some source"
        "arr_is_null source i = Some False" "arr_is_null paths i = Some False" "string_value IO paths i = Some path"
        "resolve_uri E U (mr_document R) path = Ok uri" "media_read E IO R uri m1 = Some (Ok payload, m2)" "cell = Some payload"
        by (auto simp: media_bind_Ok media_context_Ok bind_eq_Some_conv split: if_splits)
      with False null named other media_read_medium show ?thesis by (auto simp: media_cell_def)
    qed
  qed
qed

lemma if_SomeD: "(if c then None else x) = Some y \<Longrightarrow> x = Some y"
  by (simp split: if_splits)

lemma part_step:
  "media_bind (if marks_text (field_type g)
      then (if is_struct (arr_type a) then media_done (Ok (Some a)) else media_panic)
      else media_done (Ok part)) f m
    = (if marks_text (field_type g) \<and> \<not> is_struct (arr_type a) then None else f (part_of a g part) m)"
  by (simp add: part_of_def media_bind_def media_done_def media_panic_def)

lemma resolve_array_cases:
  assumes "resolve_array E U IO P R a g part m = Some (Ok b, m')"
  obtains (same) "arr_type a = field_type g" "b = a"
  | (media) p rows m1 where "arr_type a = Utf8" "field_type g = LargeBinary" "part = Some p"
      "media_map (resolve_row E U IO R a p) [0..<arr_len p] m = Some (Ok rows, m1)" "b = mi_large_binary IO rows"
  | (container) children bs m1 where "arr_type a \<noteq> field_type g" "media_children (field_type g) = Some children"
      "marks_text (field_type g) \<longrightarrow> is_struct (arr_type a)"
      "media_map (\<lambda>(child, field). resolve_array E U IO P R child field (part_of a g part)) (zip (arr_children a) children) m
        = Some (Ok bs, m1)"
      "ap_build P (Array (field_type g) (arr_len a) (arr_nulls a) bs (arr_buffers a)) = Ok b"
proof (cases "arr_type a = field_type g")
  case True
  with assms [unfolded resolve_array.simps [of E U IO P R a g part]] show thesis by (simp add: same)
next
  case False
  note step = assms [unfolded resolve_array.simps [of E U IO P R a g part] if_not_P [OF False] part_step, THEN if_SomeD]
  have struct: "marks_text (field_type g) \<longrightarrow> is_struct (arr_type a)"
    using assms [unfolded resolve_array.simps [of E U IO P R a g part] if_not_P [OF False] part_step] by (auto split: if_splits)
  show thesis
  proof (cases "arr_type a = Utf8 \<and> field_type g = LargeBinary")
    case True
    then have "part_of a g part = part" by (simp add: part_of_def marks_text_def)
    with True step show thesis by (auto simp: media_bind_Ok ok_or_Ok intro: media)
  next
    case no_media: False
    from step [unfolded if_not_P [OF no_media]] False struct show thesis
      by (auto simp: media_bind_Ok map_err_Ok split: option.splits intro: container)
  qed
qed

lemma resolve_array_embeds:
  assumes "resolve_array E U IO P R a g part m = Some (Ok b, m')"
  shows "embeds E U IO P R part a g b"
  using assms
proof (induction g arbitrary: a part b m m' rule: measure_induct_rule [of size])
  case (less g)
  from less.prems show ?case
  proof (cases rule: resolve_array_cases)
    case same
    then show ?thesis by (simp add: embeds_same)
  next
    case (media p rows m1)
    note rows = media_map_Ok [OF media(4)]
    then have len: "length rows = arr_len p" by (auto dest: list_all2_lengthD)
    have "media_cell E U IO R a p i (rows ! i)" if "i < arr_len p" for i
      using list_all2_nthD [OF rows, of i] that by (auto intro: resolve_row_cell)
    then have "list_all (\<lambda>(i, cell). media_cell E U IO R a p i cell) (enumerate 0 rows)"
      by (simp add: list_all_length len nth_enumerate_eq)
    with media len show ?thesis by (auto intro: embeds_media)
  next
    case (container children bs m1)
    have "embeds E U IO P R (part_of a g part) c f y"
      if "(c, f) \<in> set (zip (arr_children a) children)" "resolve_array E U IO P R c f (part_of a g part) m = Some (Ok y, m')" for c f y m m'
      using less.IH [OF media_children_size [OF container(2) set_zip_rightD [OF that(1)]] that(2)] .
    then have "list_all2 (\<lambda>x b. embeds E U IO P R (part_of a g part) (fst x) (snd x) b) (zip (arr_children a) children) bs"
      by (intro list.rel_mono_strong [OF media_map_Ok [OF container(4)]]) auto
    with container show ?thesis by (intro embeds_container)
  qed
qed

section \<open>Every embedding is reached\<close>

text \<open>A step that gives \<open>x\<close> whatever the counters.\<close>

definition yields :: "'a media \<Rightarrow> 'a \<Rightarrow> bool" where
  "yields r x \<longleftrightarrow> (\<forall>m. \<exists>m'. r m = Some (Ok x, m'))"

lemma yields_done [simp]: "yields (media_done r) x \<longleftrightarrow> r = Ok x"
  by (simp add: yields_def)

lemma yields_count [simp]: "yields (media_count f) u"
  by (simp add: yields_def)

lemma yields_expect [simp]: "yields (media_expect x) y \<longleftrightarrow> x = Some y"
  by (auto simp: yields_def)

lemma yields_bind: "yields r x \<Longrightarrow> yields (f x) y \<Longrightarrow> yields (media_bind r f) y"
  by (auto simp: yields_def media_bind_Ok) metis

lemma yields_context: "yields r x \<Longrightarrow> yields (media_context ctx r) x"
  by (simp add: yields_def media_context_Ok)

lemma yields_map: "list_all2 (\<lambda>x y. yields (f x) y) xs ys \<Longrightarrow> yields (media_map f xs) ys"
  by (induction rule: list_all2_induct) (auto intro!: yields_bind)

lemma media_read_yields:
  assumes "medium E IO R uri payload"
  shows "yields (media_read E IO R uri) payload"
proof (cases "prefix ''data:'' uri")
  case True
  with assms show ?thesis by (simp add: media_read_def medium_def)
next
  case False
  with assms obtain input sz where "open_media E uri (mr_s3_config R) (mr_opendal_config R) = Ok input"
    "mi_stat IO (in_operator input) (in_opendal_path input) = Ok sz"
    "mi_object IO (in_operator input) (in_opendal_path input) sz = Ok (payload, None)" "of_nat (length payload) = sz"
    by (auto simp: medium_def)
  with False show ?thesis by (auto simp: media_read_def yields_def media_bind_Ok)
qed

lemma content_type_yields:
  assumes "struct_column part ''type'' = Some kinds" "string_value IO kinds i = Some name" "name \<in> {''text'', ''image'', ''audio''}"
  shows "yields (content_type_of IO part i)
    (if name = ''text'' then ContentText else if name = ''image'' then ContentImage else ContentAudio)"
  unfolding content_type_of_def using assms by (intro yields_bind [where x = name]) auto

lemma done_bind: "media_bind (media_done (Ok x)) f = f x" "media_bind (media_expect (Some x)) f = f x"
  by (simp_all add: media_bind_def media_done_def media_expect_def)

lemma resolve_row_yields:
  assumes "media_cell E U IO R paths part i cell"
  shows "yields (resolve_row E U IO R paths part i) cell"
proof (cases cell)
  case None
  consider "arr_is_null part i = Some True" | kinds where "arr_is_null part i = Some False"
      "struct_column part ''type'' = Some kinds" "string_value IO kinds i = Some ''text''"
    using assms None by (auto simp: media_cell_def)
  then show ?thesis
  proof cases
    case 2
    from content_type_yields [OF 2(2,3)] have "yields (content_type_of IO part i) ContentText" by simp
    then show ?thesis unfolding resolve_row_def 2(1) done_bind None if_False by (rule yields_bind) simp
  qed (simp add: resolve_row_def done_bind None)
next
  case (Some payload)
  then obtain kinds kind source path uri where row: "arr_is_null part i = Some False"
    "struct_column part ''type'' = Some kinds" "string_value IO kinds i = Some kind" "kind \<in> {''image'', ''audio''}"
    "struct_column part ''source'' = Some source" "arr_is_null source i = Some False" "arr_is_null paths i = Some False"
    "string_value IO paths i = Some path" "resolve_uri E U (mr_document R) path = Ok uri" "medium E IO R uri payload"
    using assms by (auto simp: media_cell_def)
  from content_type_yields [OF row(2,3)] obtain k where k: "yields (content_type_of IO part i) k" "k \<noteq> ContentText"
    using row(4) by (auto split: if_splits)
  note medium = yields_context [OF media_read_yields [OF row(10)]]
  show ?thesis unfolding resolve_row_def row(1) done_bind if_False
    by (rule yields_bind [OF k(1)])
      (simp add: k(2) row done_bind Some yields_bind [OF yields_context [where x = uri]] yields_bind [OF medium])
qed

lemma resolve_array_yields:
  assumes "embeds E U IO P R part a g b"
  shows "yields (resolve_array E U IO P R a g part) b"
  using assms
proof (induction rule: embeds.induct)
  case (embeds_same a g part)
  then show ?case by (subst resolve_array.simps) simp
next
  case (embeds_media a g cells p)
  have "yields (resolve_row E U IO R a p i) (cells ! i)" if "i < arr_len p" for i
    using embeds_media(3,4) that by (intro resolve_row_yields) (auto simp: list_all_length nth_enumerate_eq)
  then have "list_all2 (\<lambda>i cell. yields (resolve_row E U IO R a p i) cell) [0..<arr_len p] cells"
    by (intro list_all2_all_nthI) (simp_all add: embeds_media(3))
  note rows = yields_map [OF this]
  from embeds_media(1,2) show ?case
    by (subst resolve_array.simps) (auto simp: marks_text_def done_bind intro: yields_bind [OF rows])
next
  case (embeds_container a g children part bs b)
  from embeds_container.IH have "list_all2 (\<lambda>x b. yields ((\<lambda>(child, field). resolve_array E U IO P R child field (part_of a g part)) x) b)
      (zip (arr_children a) children) bs" by (rule list.rel_mono_strong) auto
  then have core: "yields (media_bind (media_map (\<lambda>(child, field). resolve_array E U IO P R child field (part_of a g part)) (zip (arr_children a) children))
    (\<lambda>bs. media_done (map_err arrow_error (ap_build P (Array (field_type g) (arr_len a) (arr_nulls a) bs (arr_buffers a)))))) b"
    by (rule yields_bind [OF yields_map]) (simp add: embeds_container.hyps(4))
  have "\<not> (arr_type a = Utf8 \<and> field_type g = LargeBinary)" using embeds_container(2) by (auto simp: media_children_def)
  with embeds_container.hyps core show ?case
    unfolding yields_def resolve_array.simps [of E U IO P R a g part] if_not_P [OF embeds_container.hyps(1)] part_step
    by auto
qed

lemma resolve_array_iff: "(\<exists>m'. resolve_array E U IO P R a g part m = Some (Ok b, m')) \<longleftrightarrow> embeds E U IO P R part a g b"
  using resolve_array_embeds resolve_array_yields by (metis yields_def)

lemma embeds_deterministic: "embeds E U IO P R part a g b \<Longrightarrow> embeds E U IO P R part a g b' \<Longrightarrow> b = b'"
  by (metis resolve_array_yields yields_def option.inject prod.inject result.inject(1))

text \<open>What arrow documents of the builder of large binary arrays.\<close>

definition builder_documented :: "'p media_io \<Rightarrow> bool" where
  "builder_documented IO \<longleftrightarrow> (\<forall>cells. arr_type (mi_large_binary IO cells) = LargeBinary
     \<and> arr_len (mi_large_binary IO cells) = length cells)"

lemma embeds_typed: "embeds E U IO P R part a g b \<Longrightarrow> array_documented P \<Longrightarrow> builder_documented IO \<Longrightarrow>
    arr_type b = field_type g"
  by (erule embedsE) (auto simp: builder_documented_def dest: build_typed)

lemma resolve_batch_iff:
  "(\<exists>m'. resolve_batch E U IO P R batch s m = Some (Ok columns, m'))
    \<longleftrightarrow> list_all2 (\<lambda>(a, field) b. embeds E U IO P R None a field b) (zip batch (schema_fields s)) columns \<and> ap_batch P s columns = None"
  (is "?resolved \<longleftrightarrow> ?embedded \<and> _")
proof
  assume ?resolved
  then obtain m1 where cols: "media_map (\<lambda>(a, field). resolve_array E U IO P R a field None)
      (zip batch (schema_fields s)) m = Some (Ok columns, m1)" "ap_batch P s columns = None"
    by (auto simp: resolve_batch_def media_bind_Ok split: option.splits)
  have ?embedded
    by (rule list.rel_mono_strong [OF media_map_Ok [OF cols(1)]]) (auto dest!: resolve_array_embeds)
  with cols(2) show "?embedded \<and> ap_batch P s columns = None" by blast
next
  assume embedded: "?embedded \<and> ap_batch P s columns = None"
  then have "list_all2 (\<lambda>x b. yields ((\<lambda>(a, field). resolve_array E U IO P R a field None) x) b) (zip batch (schema_fields s)) columns"
    by (elim conjE) (erule list.rel_mono_strong, auto intro: resolve_array_yields)
  then have "yields (resolve_batch E U IO P R batch s) columns"
    unfolding resolve_batch_def by (rule yields_bind [OF yields_map]) (simp add: embedded)
  then show ?resolved by (simp add: yields_def)
qed

text \<open>What a batch becomes for a schema: every column embeds its media in the type of its field.\<close>

definition embeds_batch ::
  "storage_env \<Rightarrow> url_api \<Rightarrow> 'p media_io \<Rightarrow> 'p array_api \<Rightarrow> media_resolver \<Rightarrow> 'p array list \<Rightarrow> schema \<Rightarrow> 'p array list \<Rightarrow> bool" where
  "embeds_batch E U IO P R batch s columns \<longleftrightarrow>
     list_all2 (\<lambda>(a, field) b. embeds E U IO P R None a field b \<and> arr_type b = field_type field) (zip batch (schema_fields s)) columns
     \<and> ap_batch P s columns = None"

lemma resolved_batch:
  assumes "array_documented P" "builder_documented IO"
  shows "(\<exists>m'. resolve_batch E U IO P R batch s m = Some (Ok columns, m')) \<longleftrightarrow> embeds_batch E U IO P R batch s columns"
proof -
  have "(\<lambda>(a, field) b. embeds E U IO P R None a field b)
      = (\<lambda>(a, field) b. embeds E U IO P R None a field b \<and> arr_type b = field_type field)"
    using embeds_typed [OF _ assms] by (fastforce simp: fun_eq_iff)
  then show ?thesis by (simp add: resolve_batch_iff embeds_batch_def)
qed

text \<open>
  C11: Resolving the media of a batch gives exactly the batches that embed them: every column
  has the type of its field, nothing changes but the media paths, and each of these becomes a
  binary value that is null exactly for null and text parts and otherwise holds the complete
  bytes of what its path names, read where \<open>resolve_uri\<close> says. So it fails only when some part
  has no medium that can be read in full, or arrow refuses what the media are put into.
\<close>

theorem resolved_batch_embeds_media:
  assumes "array_documented P" "builder_documented IO"
  shows "(\<exists>m'. resolve_batch E U IO P R batch s m = Some (Ok columns, m')) \<longleftrightarrow> embeds_batch E U IO P R batch s columns"
  by (rule resolved_batch [OF assms])

text \<open>A trajectory of two parts, a text and an inline image, read through the schema of its media.\<close>

definition media_ref :: "string list media_io" where
  "media_ref = \<lparr>mi_stat = (\<lambda>_ _. Err \<lparr>od_is_temporary = False, od_display = ''NotFound''\<rparr>),
     mi_object = (\<lambda>_ _ _. Err \<lparr>od_is_temporary = False, od_display = ''NotFound''\<rparr>),
     mi_percent_decode = id, mi_base64 = (\<lambda>_. Err ''Invalid byte''), mi_string = (\<lambda>a i. arr_buffers a ! i),
     mi_large_binary = (\<lambda>cells. Array LargeBinary (length cells) (Some (map (\<lambda>c. c \<noteq> None) cells)) []
       (map (\<lambda>c. case c of None \<Rightarrow> [] | Some b \<Rightarrow> b) cells))\<rparr>"

definition part_fields :: "field list" where
  "part_fields = [Field ''type'' Utf8 False [], Field ''text'' Utf8 True [],
     Field ''source'' (Struct [Field ''path'' Utf8 True []]) True []]"

definition parts_schema :: schema where
  "parts_schema = \<lparr>schema_fields = [Field ''steps'' (Struct [Field ''message'' (Struct part_fields) True []]) True []],
     schema_metadata = []\<rparr>"

definition parts_batch :: "string list array list" where
  "parts_batch = (let paths = Array Utf8 2 (Some [False, True]) [] [[], ''data:,png''];
       source = Array (Struct [Field ''path'' Utf8 True []]) 2 (Some [False, True]) [paths] [];
       parts = Array (Struct part_fields) 2 None
         [Array Utf8 2 None [] [''text'', ''image''], Array Utf8 2 (Some [True, False]) [] [''hi'', []], source] []
     in [Array (Struct [Field ''message'' (Struct part_fields) True []]) 2 None [parts] []])"

definition parts_resolver :: media_resolver where
  "parts_resolver = \<lparr>mr_document = ''/runs/t.json'', mr_s3_config = None, mr_opendal_config = opendal_config_default\<rparr>"

lemma media_ref_documented: "builder_documented media_ref"
  by (simp add: builder_documented_def media_ref_def)

lemma parts_resolved:
  "(case resolve_batch (storage_ref []) (media_join [] (s3_url [] [])) media_ref (array_ref []) parts_resolver parts_batch
       (embedded_schema parts_schema) read_metrics_default of
     Some (Ok [steps], m') \<Rightarrow> m' = read_metrics_default
       \<and> arr_buffers (arr_children (arr_children (arr_children steps ! 0) ! 2) ! 0) = [[], ''png'']
   | _ \<Rightarrow> False)"
  by code_simp

theorem resolved_batch_embeds_media_witness:
  "\<exists>steps. resolve_batch (storage_ref []) (media_join [] (s3_url [] [])) media_ref (array_ref []) parts_resolver parts_batch
       (embedded_schema parts_schema) read_metrics_default = Some (Ok [steps], read_metrics_default)
    \<and> arr_type steps = field_type (schema_fields (embedded_schema parts_schema) ! 0)
    \<and> arr_buffers (arr_children (arr_children (arr_children steps ! 0) ! 2) ! 0) = [[], ''png'']"
proof -
  obtain steps where steps: "resolve_batch (storage_ref []) (media_join [] (s3_url [] [])) media_ref (array_ref []) parts_resolver
      parts_batch (embedded_schema parts_schema) read_metrics_default = Some (Ok [steps], read_metrics_default)"
    "arr_buffers (arr_children (arr_children (arr_children steps ! 0) ! 2) ! 0) = [[], ''png'']"
    using parts_resolved by (auto split: option.splits prod.splits result.splits list.splits)
  obtain field where "schema_fields (embedded_schema parts_schema) = [field]"
    by (simp add: embedded_schema_def parts_schema_def)
  then have zipped: "zip parts_batch (schema_fields (embedded_schema parts_schema)) = [(hd parts_batch, field)]"
    "schema_fields (embedded_schema parts_schema) = [field]"
    by (simp_all add: parts_batch_def Let_def)
  have "embeds_batch (storage_ref []) (media_join [] (s3_url [] [])) media_ref (array_ref []) parts_resolver parts_batch
      (embedded_schema parts_schema) [steps]"
    using resolved_batch_embeds_media [OF array_ref_documented media_ref_documented] steps(1) by blast
  with zipped have "arr_type steps = field_type (schema_fields (embedded_schema parts_schema) ! 0)" by (simp add: embeds_batch_def)
  with steps show ?thesis by blast
qed

section \<open>Columns without media\<close>

text \<open>A column outside \<open>steps\<close> keeps its type, so resolving passes its arrays through.\<close>

definition outside_steps :: "string \<Rightarrow> bool" where
  "outside_steps path \<longleftrightarrow> path \<noteq> ''steps'' \<and> \<not> prefix ''steps.'' path"

lemma media_policy_outside:
  assumes "outside_steps path"
  shows "media_policy path = None"
proof -
  have "path \<noteq> ''steps.'' @ rest" for rest using assms by (auto simp: outside_steps_def)
  from this [of "''message.text''"] this [of "''observation.results.content.text''"]
    this [of "''message.source.path''"] this [of "''observation.results.content.source.path''"]
  show ?thesis by (simp add: media_policy_def)
qed

lemma outside_steps_child:
  assumes "outside_steps path"
  shows "outside_steps (path @ ''.'' @ name)"
proof -
  have "path @ CHR ''.'' # name \<noteq> ''steps'' @ CHR ''.'' # tail" for tail
  proof
    assume "path @ CHR ''.'' # name = ''steps'' @ CHR ''.'' # tail"
    then obtain us where us: "path = ''steps'' @ us \<and> us @ CHR ''.'' # name = CHR ''.'' # tail
        \<or> path @ us = ''steps'' \<and> CHR ''.'' # name = us @ CHR ''.'' # tail"
      unfolding append_eq_append_conv2 by blast
    show False
    proof (cases us)
      case Nil
      with us assms show False by (auto simp: outside_steps_def)
    next
      case (Cons c vs)
      with us have c: "c = CHR ''.''" by auto
      have "CHR ''.'' \<notin> set ''steps''" by simp
      then have "path @ us \<noteq> ''steps''" using Cons c by (metis in_set_conv_decomp)
      with us Cons c have "prefix ''steps.'' path" by (auto simp: prefix_def)
      with assms show False by (simp add: outside_steps_def)
    qed
  qed
  from this have "\<not> prefix ''steps.'' (path @ ''.'' @ name)" by (auto simp: prefix_def)
  moreover have "path @ ''.'' @ name \<noteq> ''steps''"
  proof -
    have "CHR ''.'' \<notin> set ''steps''" by simp
    then show ?thesis by (metis append_Cons in_set_conv_decomp)
  qed
  ultimately show ?thesis by (simp add: outside_steps_def)
qed

lemma embedded_field_outside: "outside_steps path \<Longrightarrow> embedded_field path f = f"
proof (induction f arbitrary: path rule: measure_induct_rule [of size])
  case (less f)
  have "(case field_type f of Struct fs \<Rightarrow> Struct (map (\<lambda>child. embedded_field (path @ ''.'' @ field_name child) child) fs)
      | List c \<Rightarrow> List (embedded_field path c) | other \<Rightarrow> other) = field_type f"
  proof (cases "field_type f")
    case (Struct fs)
    have "map (\<lambda>child. embedded_field (path @ ''.'' @ field_name child) child) fs = fs"
      using outside_steps_child [OF less.prems] less.IH [OF size_struct_member [OF Struct]] by (intro map_idI) blast
    with Struct show ?thesis by simp
  next
    case (List c)
    with less.IH [OF size_list_item(1) [OF List] less.prems] show ?thesis by simp
  qed simp_all
  with media_policy_outside [OF less.prems] show ?case by (subst embedded_field.simps) (simp add: Let_def)
qed

lemma resolve_array_same: "arr_type a = field_type g \<Longrightarrow> resolve_array E U IO P R a g part = media_done (Ok a)"
  by (subst resolve_array.simps) simp

lemma media_map_done: "(\<And>x. x \<in> set xs \<Longrightarrow> f x = media_done (Ok (g x))) \<Longrightarrow> media_map f xs = media_done (Ok (map g xs))"
  by (induction xs) (simp_all add: media_bind_def media_done_def)

lemma resolve_batch_same:
  assumes "map arr_type batch = map field_type (schema_fields s)"
  shows "resolve_batch E U IO P R batch s
    = media_done (case ap_batch P s batch of None \<Rightarrow> Ok batch | Some e \<Rightarrow> Err (arrow_error e))"
proof -
  have len: "length batch = length (schema_fields s)" using assms by (metis length_map)
  have "arr_type (batch ! i) = field_type (schema_fields s ! i)" if "i < length batch" for i
    using that len assms by (metis nth_map)
  then have "arr_type a = field_type g" if "(a, g) \<in> set (zip batch (schema_fields s))" for a g
    using that by (auto simp: set_zip)
  then have "media_map (\<lambda>(a, field). resolve_array E U IO P R a field None) (zip batch (schema_fields s))
      = media_done (Ok (map fst (zip batch (schema_fields s))))"
    by (intro media_map_done) (auto simp: resolve_array_same)
  with len show ?thesis by (simp add: resolve_batch_def media_bind_def media_done_def map_fst_zip_take)
qed

end
