(* ===== verification/AtifSource.thy ===== *)
theory AtifSource
  imports AtifMedia
begin

text \<open>
  \<open>rust/src/source/atif.rs\<close>: the trajectory source. What \<open>atif_io\<close> reads, \<open>atif_arrow\<close>'s schema,
  the gzip decoder and \<open>RecordBatch::project\<close> are the record \<open>atif_io\<close>. A stream is the list of
  the items it yields, and the counters are those once it has been read to the end.
\<close>

datatype input_format = FormatJson | FormatJsonLines

definition ATIF_BATCH_SIZE :: usize where
  "ATIF_BATCH_SIZE = 256"

type_synonym 'p batch = "'p array list"

record 'p atif_io =
  ai_media :: "'p media_io"
  ai_arrays :: "'p array_api"
  ai_trajectory_schema :: schema
  ai_gunzip :: "reader \<Rightarrow> reader"
  ai_trajectories :: "reader \<Rightarrow> input_format \<Rightarrow> usize \<Rightarrow> string \<Rightarrow> (usize \<Rightarrow> ('p batch, string) result list, string) result"
  ai_project :: "'p batch \<Rightarrow> nat list \<Rightarrow> ('p batch, string) result"
  ai_available_parallelism :: "usize option"

definition atif_schema :: "'p atif_io \<Rightarrow> schema" where
  "atif_schema IO = embedded_schema (ai_trajectory_schema IO)"

text \<open>The format's name: the given one, or the extension under a \<open>.gz\<close> suffix.\<close>

definition inferred_format :: "string \<Rightarrow> string option" where
  "inferred_format path =
     Option.bind (if is_gzipped path then path_file_stem path else Some path) path_extension"

definition input_format :: "string \<Rightarrow> string option \<Rightarrow> input_format res" where
  "input_format path requested =
     (let name = to_ascii_lowercase (case (if requested = None then inferred_format path else requested) of
        Some f \<Rightarrow> f | None \<Rightarrow> [])
      in if name = ''json'' then Ok FormatJson
         else if name = ''jsonl'' \<or> name = ''ndjson'' then Ok FormatJsonLines
         else Err (error_message (''unsupported ATIF format '' @ quoted name @ '' for '' @ quoted path
           @ ''; set format to '' @ quoted ''json'' @ '' or '' @ quoted ''jsonl'')))"

record atif_source =
  as_path :: string
  as_format :: "string option"
  as_s3_config :: "s3_config option"
  as_opendal_config :: opendal_config
  as_projection :: "nat list option"

definition atif_source_new :: "string \<Rightarrow> atif_source" where
  "atif_source_new path = \<lparr>as_path = path, as_format = None, as_s3_config = None,
     as_opendal_config = opendal_config_default, as_projection = None\<rparr>"

definition atif_with_format :: "string \<Rightarrow> atif_source \<Rightarrow> atif_source" where
  "atif_with_format f s = s\<lparr>as_format := Some f\<rparr>"

definition atif_with_s3_config :: "s3_config \<Rightarrow> atif_source \<Rightarrow> atif_source" where
  "atif_with_s3_config c s = s\<lparr>as_s3_config := Some c\<rparr>"

definition atif_with_opendal_config :: "opendal_config \<Rightarrow> atif_source \<Rightarrow> atif_source" where
  "atif_with_opendal_config c s = s\<lparr>as_opendal_config := c\<rparr>"

definition atif_with_projection :: "nat list \<Rightarrow> atif_source \<Rightarrow> atif_source" where
  "atif_with_projection p s = s\<lparr>as_projection := Some p\<rparr>"

section \<open>The stream\<close>

definition atif_item ::
  "storage_env \<Rightarrow> url_api \<Rightarrow> 'p atif_io \<Rightarrow> media_resolver \<Rightarrow> nat list option \<Rightarrow> schema \<Rightarrow> ('p batch, string) result \<Rightarrow> 'p batch media" where
  "atif_item E U IO R projection s item =
     media_bind (media_done (map_err (\<lambda>e. error_message (''ATIF read error: '' @ e)) item)) (\<lambda>batch.
     media_bind (media_done (case projection of
         Some columns \<Rightarrow> map_err arrow_error (ai_project IO batch columns) | None \<Rightarrow> Ok batch)) (\<lambda>batch.
     resolve_batch E U (ai_media IO) (ai_arrays IO) R batch s))"

text \<open>Each item in turn; one that fails is an item of the stream, and the next one follows.\<close>

fun each_item :: "('x \<Rightarrow> 'a media) \<Rightarrow> 'x list \<Rightarrow> 'a res list media" where
  "each_item f [] m = Some (Ok [], m)"
| "each_item f (x # xs) m = (case f x m of
     None \<Rightarrow> None
   | Some (r, m1) \<Rightarrow> media_bind (each_item f xs) (\<lambda>rs. media_done (Ok (r # rs))) m1)"

section \<open>\<open>open\<close>\<close>

definition needs_media :: "nat list option \<Rightarrow> nat \<Rightarrow> bool" where
  "needs_media projection index \<longleftrightarrow> (case projection of None \<Rightarrow> True | Some columns \<Rightarrow> index \<in> set columns)"

definition atif_projection :: "atif_source \<Rightarrow> nat list option" where
  "atif_projection s = (case as_projection s of Some [] \<Rightarrow> None | p \<Rightarrow> p)"

definition atif_batches ::
  "storage_env \<Rightarrow> url_api \<Rightarrow> arrow_api \<Rightarrow> 'p atif_io \<Rightarrow> atif_source \<Rightarrow> input_file \<Rightarrow> input_format \<Rightarrow> schema \<Rightarrow> u64
    \<Rightarrow> 'p batch res list media" where
  "atif_batches E U A IO s input fmt schema sz =
     media_bind (media_done (map_err opendal_into (mi_object (ai_media IO) (in_operator input) (in_opendal_path input) sz))) (\<lambda>(content, failure).
     let rd = decompressed_input (ai_gunzip IO) (content, map_option snd failure) (is_gzipped (in_opendal_path input))
     in media_bind (media_done (map_err arrow_error (aa_index_of A (atif_schema IO) ''steps''))) (\<lambda>media_index.
     let with_media = needs_media (atif_projection s) media_index;
         batch_size = (if with_media then 1 else ATIF_BATCH_SIZE);
         parallelism = (if with_media then 1 else case ai_available_parallelism IO of None \<Rightarrow> 1 | Some n \<Rightarrow> n)
     in media_bind (media_done (map_err (\<lambda>e. error_message (''ATIF reader: '' @ e)) (ai_trajectories IO rd fmt batch_size (in_uri input)))) (\<lambda>items.
     media_bind (media_count (add_bytes_read (of_nat (length content)))) (\<lambda>_.
     each_item (atif_item E U IO \<lparr>mr_document = in_uri input, mr_s3_config = as_s3_config s, mr_opendal_config = as_opendal_config s\<rparr>
       (atif_projection s) schema) (items parallelism)))))"

definition atif_source_open ::
  "storage_env \<Rightarrow> url_api \<Rightarrow> arrow_api \<Rightarrow> 'p atif_io \<Rightarrow> atif_source \<Rightarrow> (schema \<times> 'p batch res list) media" where
  "atif_source_open E U A IO s =
     media_bind (media_done (input_file_open E (as_path s) (as_s3_config s) (as_opendal_config s))) (\<lambda>input.
     media_bind (media_done (input_format (in_opendal_path input) (as_format s))) (\<lambda>fmt.
     media_bind (media_done (case atif_projection s of
         Some columns \<Rightarrow> map_err arrow_error (aa_project A (atif_schema IO) columns) | None \<Rightarrow> Ok (atif_schema IO))) (\<lambda>schema.
     media_bind (media_done (map_err opendal_into (mi_stat (ai_media IO) (in_operator input) (in_opendal_path input)))) (\<lambda>sz.
     media_bind (media_count (set_total_bytes sz)) (\<lambda>_.
     media_bind (atif_batches E U A IO s input fmt schema sz) (\<lambda>batches.
     media_done (Ok (schema, batches))))))))"

section \<open>Formats\<close>

lemma input_format_requested:
  "input_format path (Some f) = (if to_ascii_lowercase f = ''json'' then Ok FormatJson
     else if to_ascii_lowercase f \<in> {''jsonl'', ''ndjson''} then Ok FormatJsonLines
     else Err (error_message (''unsupported ATIF format '' @ quoted (to_ascii_lowercase f) @ '' for '' @ quoted path
           @ ''; set format to '' @ quoted ''json'' @ '' or '' @ quoted ''jsonl'')))"
  by (simp add: input_format_def Let_def)

lemma format_examples:
  "input_format ''runs/a.JSONL.gz'' None = Ok FormatJsonLines" "input_format ''runs/a.json'' None = Ok FormatJson"
  "input_format ''runs/a.json'' (Some ''NDJSON'') = Ok FormatJsonLines" "\<not> is_ok (input_format ''runs/json'' None)"
  by code_simp+

section \<open>Streams of items\<close>

lemma each_item_Ok:
  assumes "each_item f xs m = Some (rs, m')"
  obtains ys where "rs = Ok ys" "list_all2 (\<lambda>x r. \<exists>m m'. f x m = Some (r, m')) xs ys"
proof -
  have "\<exists>ys. rs = Ok ys \<and> list_all2 (\<lambda>x r. \<exists>m m'. f x m = Some (r, m')) xs ys"
    using assms
  proof (induction xs arbitrary: m rs m')
    case (Cons x xs)
    then obtain r m1 where r: "f x m = Some (r, m1)" by (cases "f x m") auto
    with Cons.prems obtain rs' m2 where tail: "each_item f xs m1 = Some (rs', m2)"
      by (cases "each_item f xs m1") (auto simp: media_bind_def)
    from Cons.IH [OF this] obtain ys where ys: "rs' = Ok ys" "list_all2 (\<lambda>x r. \<exists>m m'. f x m = Some (r, m')) xs ys" by blast
    with r tail Cons.prems have "rs = Ok (r # ys)" by (simp add: media_bind_def media_done_def)
    with r ys(2) show ?case by auto
  qed simp
  then show thesis using that by blast
qed

lemma each_item_pure:
  assumes "\<And>x m. x \<in> set xs \<Longrightarrow> f x m = Some (g x, m)"
  shows "each_item f xs m = Some (Ok (map g xs), m)"
  using assms by (induction xs) (simp_all add: media_bind_def media_done_def)

section \<open>What a scan delivers\<close>

text \<open>
  The item of the stream for an item of the trajectory reader: the reader's error, or the batch
  with the requested columns and their media embedded, and an error of its own only when there
  is no such batch.
\<close>

definition delivered_item ::
  "storage_env \<Rightarrow> url_api \<Rightarrow> 'p atif_io \<Rightarrow> media_resolver \<Rightarrow> nat list option \<Rightarrow> schema \<Rightarrow> ('p batch, string) result
    \<Rightarrow> 'p batch res \<Rightarrow> bool" where
  "delivered_item E U IO R projection s item r \<longleftrightarrow> (case item of
     Err e \<Rightarrow> r = Err (error_message (''ATIF read error: '' @ e))
   | Ok batch \<Rightarrow> (\<forall>columns. r = Ok columns \<longleftrightarrow> (\<exists>selected.
         (case projection of None \<Rightarrow> selected = batch | Some p \<Rightarrow> ai_project IO batch p = Ok selected)
         \<and> embeds_batch E U (ai_media IO) (ai_arrays IO) R selected s columns)))"

lemma atif_item_delivered:
  assumes "array_documented (ai_arrays IO)" "builder_documented (ai_media IO)"
    "atif_item E U IO R projection s item m = Some (r, m')"
  shows "delivered_item E U IO R projection s item r"
proof (cases item)
  case (Err e)
  with assms(3) show ?thesis by (auto simp: atif_item_def delivered_item_def media_bind_def media_done_def)
next
  case (Ok batch)
  let ?selected = "case projection of Some p \<Rightarrow> map_err arrow_error (ai_project IO batch p) | None \<Rightarrow> Ok batch"
  have picked: "?selected = Ok selected \<longleftrightarrow> (case projection of None \<Rightarrow> selected = batch | Some p \<Rightarrow> ai_project IO batch p = Ok selected)" for selected
    by (auto simp: map_err_Ok split: option.splits)
  have "r = Ok columns \<longleftrightarrow> (\<exists>m'. atif_item E U IO R projection s item m = Some (Ok columns, m'))" for columns
    using assms(3) by auto
  also have "\<dots> columns \<longleftrightarrow> (\<exists>selected. ?selected = Ok selected \<and> embeds_batch E U (ai_media IO) (ai_arrays IO) R selected s columns)" for columns
    unfolding resolved_batch [OF assms(1,2), symmetric, where m = m] Ok by (auto simp: atif_item_def media_bind_Ok)
  finally show ?thesis unfolding delivered_item_def Ok picked by simp
qed

lemma atif_open_cases:
  assumes "atif_source_open E U A IO s m = Some (Ok (schema, batches), m')"
  obtains input fmt sz where
    "input_file_open E (as_path s) (as_s3_config s) (as_opendal_config s) = Ok input"
    "input_format (in_opendal_path input) (as_format s) = Ok fmt"
    "(case atif_projection s of Some p \<Rightarrow> aa_project A (atif_schema IO) p = Ok schema | None \<Rightarrow> schema = atif_schema IO)"
    "mi_stat (ai_media IO) (in_operator input) (in_opendal_path input) = Ok sz"
    "atif_batches E U A IO s input fmt schema sz (set_total_bytes sz m) = Some (Ok batches, m')"
  using assms
  by (auto simp: atif_source_open_def media_bind_Ok map_err_Ok split: option.splits intro: that)

lemma atif_batches_cases:
  assumes "atif_batches E U A IO s input fmt schema sz m = Some (Ok batches, m')"
  obtains content failure index items with_media where
    "mi_object (ai_media IO) (in_operator input) (in_opendal_path input) sz = Ok (content, failure)"
    "aa_index_of A (atif_schema IO) ''steps'' = Ok index" "with_media = needs_media (atif_projection s) index"
    "ai_trajectories IO (decompressed_input (ai_gunzip IO) (content, map_option snd failure) (is_gzipped (in_opendal_path input)))
       fmt (if with_media then 1 else ATIF_BATCH_SIZE) (in_uri input) = Ok items"
    "each_item (atif_item E U IO \<lparr>mr_document = in_uri input, mr_s3_config = as_s3_config s, mr_opendal_config = as_opendal_config s\<rparr>
       (atif_projection s) schema)
       (items (if with_media then 1 else case ai_available_parallelism IO of None \<Rightarrow> 1 | Some n \<Rightarrow> n))
       (add_bytes_read (of_nat (length content)) m) = Some (Ok batches, m')"
proof -
  from assms obtain content failure index items where
    "mi_object (ai_media IO) (in_operator input) (in_opendal_path input) sz = Ok (content, failure)"
    "aa_index_of A (atif_schema IO) ''steps'' = Ok index"
    "ai_trajectories IO (decompressed_input (ai_gunzip IO) (content, map_option snd failure) (is_gzipped (in_opendal_path input)))
       fmt (if needs_media (atif_projection s) index then 1 else ATIF_BATCH_SIZE) (in_uri input) = Ok items"
    "each_item (atif_item E U IO \<lparr>mr_document = in_uri input, mr_s3_config = as_s3_config s, mr_opendal_config = as_opendal_config s\<rparr>
       (atif_projection s) schema)
       (items (if needs_media (atif_projection s) index then 1 else case ai_available_parallelism IO of None \<Rightarrow> 1 | Some n \<Rightarrow> n))
       (add_bytes_read (of_nat (length content)) m) = Some (Ok batches, m')"
    unfolding atif_batches_def Let_def media_bind_Ok by (auto simp: media_bind_Ok map_err_Ok)
  then show thesis by (intro that) simp_all
qed

text \<open>
  The items the trajectory reader yields of the file of a source, in the file's format: when
  media are read it is asked for one document a batch, one at a time.
\<close>

definition scan_reads ::
  "storage_env \<Rightarrow> 'p atif_io \<Rightarrow> atif_source \<Rightarrow> bool \<Rightarrow> input_file \<Rightarrow> u64 \<Rightarrow> bytes \<Rightarrow> ('p batch, string) result list \<Rightarrow> bool" where
  "scan_reads E IO s with_media input sz content items \<longleftrightarrow> (\<exists>fmt failure reader.
     input_file_open E (as_path s) (as_s3_config s) (as_opendal_config s) = Ok input
     \<and> input_format (in_opendal_path input) (as_format s) = Ok fmt
     \<and> mi_stat (ai_media IO) (in_operator input) (in_opendal_path input) = Ok sz
     \<and> mi_object (ai_media IO) (in_operator input) (in_opendal_path input) sz = Ok (content, failure)
     \<and> ai_trajectories IO (decompressed_input (ai_gunzip IO) (content, map_option snd failure) (is_gzipped (in_opendal_path input)))
         fmt (if with_media then 1 else ATIF_BATCH_SIZE) (in_uri input) = Ok reader
     \<and> items = reader (if with_media then 1 else case ai_available_parallelism IO of None \<Rightarrow> 1 | Some n \<Rightarrow> n))"

lemma atif_open_run:
  assumes "atif_source_open E U A IO s m = Some (Ok (schema, batches), m')"
  obtains input sz content index items where
    "case atif_projection s of None \<Rightarrow> schema = atif_schema IO | Some p \<Rightarrow> aa_project A (atif_schema IO) p = Ok schema"
    "aa_index_of A (atif_schema IO) ''steps'' = Ok index"
    "scan_reads E IO s (needs_media (atif_projection s) index) input sz content items"
    "each_item (atif_item E U IO \<lparr>mr_document = in_uri input, mr_s3_config = as_s3_config s, mr_opendal_config = as_opendal_config s\<rparr> (atif_projection s) schema) items
       (add_bytes_read (of_nat (length content)) (set_total_bytes sz m)) = Some (Ok batches, m')"
proof -
  obtain input fmt sz where opened: "input_file_open E (as_path s) (as_s3_config s) (as_opendal_config s) = Ok input"
    "input_format (in_opendal_path input) (as_format s) = Ok fmt"
    "(case atif_projection s of Some p \<Rightarrow> aa_project A (atif_schema IO) p = Ok schema | None \<Rightarrow> schema = atif_schema IO)"
    "mi_stat (ai_media IO) (in_operator input) (in_opendal_path input) = Ok sz"
    "atif_batches E U A IO s input fmt schema sz (set_total_bytes sz m) = Some (Ok batches, m')"
    using assms by (rule atif_open_cases)
  from opened(5) obtain content failure index reader with_media where run:
    "mi_object (ai_media IO) (in_operator input) (in_opendal_path input) sz = Ok (content, failure)"
    "aa_index_of A (atif_schema IO) ''steps'' = Ok index" "with_media = needs_media (atif_projection s) index"
    "ai_trajectories IO (decompressed_input (ai_gunzip IO) (content, map_option snd failure) (is_gzipped (in_opendal_path input)))
       fmt (if with_media then 1 else ATIF_BATCH_SIZE) (in_uri input) = Ok reader"
    "each_item (atif_item E U IO \<lparr>mr_document = in_uri input, mr_s3_config = as_s3_config s, mr_opendal_config = as_opendal_config s\<rparr> (atif_projection s) schema)
       (reader (if with_media then 1 else case ai_available_parallelism IO of None \<Rightarrow> 1 | Some n \<Rightarrow> n))
       (add_bytes_read (of_nat (length content)) (set_total_bytes sz m)) = Some (Ok batches, m')"
    by (rule atif_batches_cases)
  show thesis
  proof (rule that)
    show "scan_reads E IO s (needs_media (atif_projection s) index) input sz content
        (reader (if with_media then 1 else case ai_available_parallelism IO of None \<Rightarrow> 1 | Some n \<Rightarrow> n))"
      unfolding scan_reads_def run(3) [symmetric]
      by (intro exI conjI) (rule opened(1), rule opened(2), rule opened(4), rule run(1), rule run(4), rule refl)
  qed (rule opened(3), rule run(2), rule run(5))
qed

text \<open>
  A scan that opens has the schema with media embedded, or its requested columns, and its stream
  has one item for every item the trajectory reader yields of the file, in order.
\<close>

lemma atif_scan_delivers:
  assumes "array_documented (ai_arrays IO)" "builder_documented (ai_media IO)"
    "atif_source_open E U A IO s m = Some (Ok (schema, batches), m')"
  shows "\<exists>input sz content index items.
    (case atif_projection s of None \<Rightarrow> schema = atif_schema IO | Some p \<Rightarrow> aa_project A (atif_schema IO) p = Ok schema)
    \<and> aa_index_of A (atif_schema IO) ''steps'' = Ok index
    \<and> scan_reads E IO s (needs_media (atif_projection s) index) input sz content items
    \<and> list_all2 (delivered_item E U IO \<lparr>mr_document = in_uri input, mr_s3_config = as_s3_config s, mr_opendal_config = as_opendal_config s\<rparr>
        (atif_projection s) schema) items batches"
proof -
  obtain input sz content index items where run:
    "case atif_projection s of None \<Rightarrow> schema = atif_schema IO | Some p \<Rightarrow> aa_project A (atif_schema IO) p = Ok schema"
    "aa_index_of A (atif_schema IO) ''steps'' = Ok index"
    "scan_reads E IO s (needs_media (atif_projection s) index) input sz content items"
    "each_item (atif_item E U IO \<lparr>mr_document = in_uri input, mr_s3_config = as_s3_config s, mr_opendal_config = as_opendal_config s\<rparr> (atif_projection s) schema) items
       (add_bytes_read (of_nat (length content)) (set_total_bytes sz m)) = Some (Ok batches, m')"
    using assms(3) by (rule atif_open_run)
  have "list_all2 (delivered_item E U IO \<lparr>mr_document = in_uri input, mr_s3_config = as_s3_config s, mr_opendal_config = as_opendal_config s\<rparr> (atif_projection s) schema) items batches"
    by (rule each_item_Ok [OF run(4)])
      (auto elim!: list.rel_mono_strong intro: atif_item_delivered [OF assms(1,2)])
  with run(1-3) show ?thesis by blast
qed

section \<open>Scans that read no media\<close>

text \<open>
  What the reader, arrow's projection of batches and the trajectory schema document: batches
  have the schema's types, a projection picks the columns, column names are distinct and no
  other column's name starts like a field of the steps.
\<close>

definition reader_documented :: "'p atif_io \<Rightarrow> bool" where
  "reader_documented IO \<longleftrightarrow>
     (\<forall>rd fmt n uri items k. ai_trajectories IO rd fmt n uri = Ok items \<longrightarrow>
        (\<forall>batch. Ok batch \<in> set (items k) \<longrightarrow> map arr_type batch = map field_type (schema_fields (ai_trajectory_schema IO))))
     \<and> (\<forall>batch p columns. ai_project IO batch p = Ok columns \<longrightarrow> list_all (\<lambda>i. i < length batch) p \<and> columns = map (nth batch) p)
     \<and> distinct (map field_name (schema_fields (ai_trajectory_schema IO)))
     \<and> list_all (\<lambda>f. \<not> prefix ''steps.'' (field_name f)) (schema_fields (ai_trajectory_schema IO))"

lemma embedded_field_name [simp]: "field_name (embedded_field path f) = field_name f"
  by (subst embedded_field.simps) (simp add: Let_def mark_policy_def split: option.split)

lemma unselected_steps:
  assumes "reader_documented IO" "arrow_ok A" "aa_index_of A (atif_schema IO) ''steps'' = Ok index"
    "i < length (schema_fields (ai_trajectory_schema IO))" "i \<noteq> index"
  shows "schema_fields (atif_schema IO) ! i = schema_fields (ai_trajectory_schema IO) ! i"
proof -
  let ?fs = "schema_fields (ai_trajectory_schema IO)"
  have at: "schema_fields (atif_schema IO) ! k = embedded_field (field_name (?fs ! k)) (?fs ! k)" if "k < length ?fs" for k
    using that by (simp add: atif_schema_def embedded_schema_def)
  have "length (schema_fields (atif_schema IO)) = length ?fs" by (simp add: atif_schema_def embedded_schema_def)
  with index_of_Ok [OF assms(2,3)] at have steps: "index < length ?fs" "field_name (?fs ! index) = ''steps''" by auto
  have "distinct (map field_name ?fs)" using assms(1) by (simp add: reader_documented_def)
  with steps assms(4,5) have "field_name (?fs ! i) \<noteq> ''steps''" by (metis length_map nth_eq_iff_index_eq nth_map)
  moreover have "\<not> prefix ''steps.'' (field_name (?fs ! i))"
    using assms(1,4) by (auto simp: reader_documented_def list_all_length)
  ultimately have "outside_steps (field_name (?fs ! i))" by (simp add: outside_steps_def)
  with at [OF assms(4)] show ?thesis by (simp add: embedded_field_outside)
qed

lemma unselected_types:
  assumes "reader_documented IO" "arrow_ok A" "aa_index_of A (atif_schema IO) ''steps'' = Ok index"
    "aa_project A (atif_schema IO) p = Ok s" "index \<notin> set p"
    "map arr_type batch = map field_type (schema_fields (ai_trajectory_schema IO))" "ai_project IO batch p = Ok columns"
  shows "columns = map (nth batch) p \<and> map arr_type columns = map field_type (schema_fields s)"
proof -
  let ?fs = "schema_fields (ai_trajectory_schema IO)"
  have columns: "list_all (\<lambda>i. i < length batch) p" "columns = map (nth batch) p"
    using assms(1,7) unfolding reader_documented_def by blast+
  have fields: "schema_fields s = map (nth (schema_fields (atif_schema IO))) p"
    using project_Ok [OF assms(2,4)] by blast
  have len: "length batch = length ?fs" using assms(6) by (metis length_map)
  have "arr_type (batch ! i) = field_type (schema_fields (atif_schema IO) ! i)" if "i \<in> set p" for i
  proof -
    have i: "i < length ?fs" using columns(1) that len by (simp add: list_all_iff)
    have "i \<noteq> index" using that assms(5) by blast
    from unselected_steps [OF assms(1-3) i this] i len assms(6) show ?thesis by (metis nth_map)
  qed
  with columns(2) fields show ?thesis by simp
qed

text \<open>What an item becomes when no media is selected, whatever the counters.\<close>

definition plain_item :: "'p atif_io \<Rightarrow> nat list \<Rightarrow> schema \<Rightarrow> ('p batch, string) result \<Rightarrow> 'p batch res" where
  "plain_item IO p s item =
     and_then (map_err (\<lambda>e. error_message (''ATIF read error: '' @ e)) item) (\<lambda>batch.
     and_then (map_err arrow_error (ai_project IO batch p)) (\<lambda>columns.
     case ap_batch (ai_arrays IO) s columns of None \<Rightarrow> Ok columns | Some e \<Rightarrow> Err (arrow_error e)))"

lemma media_bind_done: "media_bind (media_done r) f m = (case r of Ok x \<Rightarrow> f x m | Err e \<Rightarrow> Some (Err e, m))"
  by (cases r) (simp_all add: media_bind_def media_done_def)

lemma atif_item_plain:
  assumes "\<And>batch columns. item = Ok batch \<Longrightarrow> ai_project IO batch p = Ok columns \<Longrightarrow>
    map arr_type columns = map field_type (schema_fields s)"
  shows "atif_item E U IO R (Some p) s item m = Some (plain_item IO p s item, m)"
proof (cases item)
  case (Ok batch)
  show ?thesis
  proof (cases "ai_project IO batch p")
    case (Ok columns)
    note same = resolve_batch_same [OF assms [OF \<open>item = Ok batch\<close> Ok], unfolded media_done_def]
    show ?thesis
      by (simp add: atif_item_def plain_item_def media_bind_done Ok \<open>item = Ok batch\<close> same)
  qed (simp add: atif_item_def plain_item_def media_bind_done \<open>item = Ok batch\<close>)
qed (simp add: atif_item_def plain_item_def media_bind_done)

lemma skips_media:
  assumes "arrow_ok A" "reader_documented IO" "atif_projection s = Some p"
    "aa_index_of A (atif_schema IO) ''steps'' = Ok index" "index \<notin> set p"
    "atif_source_open E U A IO s m = Some (Ok (schema, batches), m')"
  shows "\<exists>input sz content items. scan_reads E IO s False input sz content items
    \<and> batches = map (plain_item IO p schema) items
    \<and> m' = add_bytes_read (of_nat (length content)) (set_total_bytes sz m)"
proof -
  obtain input sz content index' items where run:
    "case atif_projection s of None \<Rightarrow> schema = atif_schema IO | Some p \<Rightarrow> aa_project A (atif_schema IO) p = Ok schema"
    "aa_index_of A (atif_schema IO) ''steps'' = Ok index'"
    "scan_reads E IO s (needs_media (atif_projection s) index') input sz content items"
    "each_item (atif_item E U IO \<lparr>mr_document = in_uri input, mr_s3_config = as_s3_config s, mr_opendal_config = as_opendal_config s\<rparr> (atif_projection s) schema) items
       (add_bytes_read (of_nat (length content)) (set_total_bytes sz m)) = Some (Ok batches, m')"
    using assms(6) by (rule atif_open_run)
  have reads: "scan_reads E IO s False input sz content items"
    using run(2,3) assms(3-5) by (simp add: needs_media_def)
  have project: "aa_project A (atif_schema IO) p = Ok schema" using run(1) assms(3) by simp
  have "map arr_type columns = map field_type (schema_fields schema)"
    if "Ok batch \<in> set items" "ai_project IO batch p = Ok columns" for batch columns
  proof -
    have "map arr_type batch = map field_type (schema_fields (ai_trajectory_schema IO))"
      using assms(2) reads that(1) unfolding reader_documented_def scan_reads_def by blast
    from unselected_types [OF assms(2,1,4) project assms(5) this that(2)] show ?thesis by blast
  qed
  then have plain: "atif_item E U IO R (Some p) schema x k = Some (plain_item IO p schema x, k)" if "x \<in> set items" for x k R
    using that by (intro atif_item_plain) blast
  have "each_item (atif_item E U IO R (Some p) schema) items k = Some (Ok (map (plain_item IO p schema) items), k)" for R k
    by (rule each_item_pure) (rule plain)
  with run(4) reads show ?thesis unfolding assms(3) by auto
qed

section \<open>Example\<close>

definition runs_schema :: schema where
  "runs_schema = \<lparr>schema_fields = Field ''session_id'' Utf8 False [] # schema_fields parts_schema, schema_metadata = []\<rparr>"

definition runs_batch :: "string list batch" where
  "runs_batch = Array Utf8 2 None [] [''a'', ''b''] # parts_batch"

definition atif_ref :: "string list atif_io" where
  "atif_ref = \<lparr>ai_media = media_ref\<lparr>mi_stat := \<lambda>_ _. Ok 2, mi_object := \<lambda>_ _ _. Ok (''{}'', None)\<rparr>,
     ai_arrays = array_ref [], ai_trajectory_schema = runs_schema, ai_gunzip = id,
     ai_trajectories = (\<lambda>_ _ _ _. Ok (\<lambda>_. [Ok runs_batch])),
     ai_project = (\<lambda>batch p. if list_all (\<lambda>i. i < length batch) p then Ok (map (nth batch) p) else Err ''project''),
     ai_available_parallelism = Some 4\<rparr>"

abbreviation runs_source :: atif_source where
  "runs_source \<equiv> atif_with_format ''json'' (atif_source_new ''a.warc'')"

abbreviation no_urls :: url_api where
  "no_urls \<equiv> media_join [] (s3_url [] [])"

lemma atif_ref_documented: "array_documented (ai_arrays atif_ref)" "builder_documented (ai_media atif_ref)" "reader_documented atif_ref"
proof -
  show "array_documented (ai_arrays atif_ref)" by (simp add: atif_ref_def array_ref_documented)
  show "builder_documented (ai_media atif_ref)" by (simp add: atif_ref_def builder_documented_def media_ref_def)
  have "map arr_type runs_batch = map field_type (schema_fields runs_schema)" by code_simp
  moreover have "distinct (map field_name (schema_fields runs_schema))" by code_simp
  moreover have "list_all (\<lambda>f. \<not> prefix ''steps.'' (field_name f)) (schema_fields runs_schema)" by code_simp
  ultimately show "reader_documented atif_ref"
    by (auto simp: reader_documented_def atif_ref_def split: if_splits)
qed

lemma runs_open:
  assumes "(case p of Some columns \<Rightarrow> map_err arrow_error (aa_project arrow_ref (atif_schema atif_ref) columns)
      | None \<Rightarrow> Ok (atif_schema atif_ref)) = Ok schema"
    "atif_projection (runs_source\<lparr>as_projection := p\<rparr>) = p"
    "atif_batches (storage_ref []) no_urls arrow_ref atif_ref (runs_source\<lparr>as_projection := p\<rparr>) example_file FormatJson schema 2
      (set_total_bytes 2 m) = Some (Ok batches, m')"
  shows "atif_source_open (storage_ref []) no_urls arrow_ref atif_ref (runs_source\<lparr>as_projection := p\<rparr>) m = Some (Ok (schema, batches), m')"
proof -
  have fmt: "input_format (in_opendal_path example_file) (Some ''json'') = Ok FormatJson" by code_simp
  have stat: "mi_stat (ai_media atif_ref) op path = Ok 2" for op path by (simp add: atif_ref_def)
  have sel: "as_path (runs_source\<lparr>as_projection := p\<rparr>) = ''a.warc''" "as_s3_config (runs_source\<lparr>as_projection := p\<rparr>) = None"
    "as_opendal_config (runs_source\<lparr>as_projection := p\<rparr>) = opendal_config_default" "as_format (runs_source\<lparr>as_projection := p\<rparr>) = Some ''json''"
    by (simp_all add: atif_with_format_def atif_source_new_def)
  show ?thesis
    unfolding atif_source_open_def sel media_bind_done example_input result.case fmt assms(1,2) stat map_err.simps
    by (simp add: media_count_def media_bind_def assms(3) media_done_def)
qed

lemma runs_items: "scan_reads E atif_ref s with_media input sz content items \<Longrightarrow> items = [Ok runs_batch]"
  by (auto simp: scan_reads_def atif_ref_def)

lemma runs_counted: "scan_reads E atif_ref s with_media input sz content items \<Longrightarrow> sz = 2 \<and> content = ''{}''"
  by (auto simp: scan_reads_def atif_ref_def)

lemma ids_batches:
  "\<exists>batches m' s. aa_project arrow_ref (atif_schema atif_ref) [0] = Ok s
    \<and> atif_batches (storage_ref []) no_urls arrow_ref atif_ref (runs_source\<lparr>as_projection := Some [0]\<rparr>) example_file FormatJson
      s 2 (set_total_bytes 2 read_metrics_default) = Some (Ok batches, m')"
proof -
  have "(case aa_project arrow_ref (atif_schema atif_ref) [0] of Err _ \<Rightarrow> False
    | Ok s \<Rightarrow> (case atif_batches (storage_ref []) no_urls arrow_ref atif_ref (runs_source\<lparr>as_projection := Some [0]\<rparr>) example_file FormatJson
      s 2 (set_total_bytes 2 read_metrics_default) of Some r \<Rightarrow> is_ok (fst r) | None \<Rightarrow> False))"
    by code_simp
  then show ?thesis by (auto simp: is_ok_iff split: option.splits result.splits)
qed

end
