(* ===== verification/IndexPlan.thy ===== *)
theory IndexPlan
  imports WriteOptions
begin

text \<open>
  \<open>rust/src/sink/lance/index.rs\<close>: checking the requested indexes against the stored schema
  and building them, in column order, on the committed dataset. The dataset is an abstract
  state; its \<open>count_rows\<close> and \<open>create_index\<close> are the record \<open>index_api\<close>.
\<close>

definition TARGET_VECTOR_PARTITION_ROWS :: usize where
  "TARGET_VECTOR_PARTITION_ROWS = 8192"

fun scalar_type :: "data_type \<Rightarrow> bool" where
  "scalar_type t = (case t of
     Boolean \<Rightarrow> True | Int8 \<Rightarrow> True | Int16 \<Rightarrow> True | Int32 \<Rightarrow> True | Int64 \<Rightarrow> True
   | UInt8 \<Rightarrow> True | UInt16 \<Rightarrow> True | UInt32 \<Rightarrow> True | UInt64 \<Rightarrow> True
   | Float16 \<Rightarrow> True | Float32 \<Rightarrow> True | Float64 \<Rightarrow> True | Decimal128 _ _ \<Rightarrow> True
   | Utf8 \<Rightarrow> True | LargeUtf8 \<Rightarrow> True | Utf8View \<Rightarrow> True | Date32 \<Rightarrow> True | Date64 \<Rightarrow> True
   | Time32 _ \<Rightarrow> True | Time64 _ \<Rightarrow> True | Timestamp _ _ \<Rightarrow> True | _ \<Rightarrow> False)"

fun vector_type :: "data_type \<Rightarrow> bool" where
  "vector_type (FixedSizeList f n) = (field_type f \<in> {Int8, UInt8, Float16, Float32, Float64})"
| "vector_type _ = False"

definition text_type :: "data_type \<Rightarrow> bool" where
  "text_type t \<longleftrightarrow> t \<in> {Utf8, LargeUtf8, Utf8View}"

fun bloom_type :: "data_type \<Rightarrow> bool" where
  "bloom_type t = (case t of
     Int8 \<Rightarrow> True | Int16 \<Rightarrow> True | Int32 \<Rightarrow> True | Int64 \<Rightarrow> True
   | UInt8 \<Rightarrow> True | UInt16 \<Rightarrow> True | UInt32 \<Rightarrow> True | UInt64 \<Rightarrow> True
   | Float32 \<Rightarrow> True | Float64 \<Rightarrow> True | Utf8 \<Rightarrow> True | LargeUtf8 \<Rightarrow> True
   | Date32 \<Rightarrow> True | Date64 \<Rightarrow> True | Time32 _ \<Rightarrow> True | Time64 _ \<Rightarrow> True
   | Timestamp _ _ \<Rightarrow> True | _ \<Rightarrow> False)"

fun index_supports :: "index_kind \<Rightarrow> data_type \<Rightarrow> bool" where
  "index_supports Scalar t = scalar_type t"
| "index_supports Vector t = vector_type t"
| "index_supports Text t = text_type t"
| "index_supports BloomFilter t = bloom_type t"

definition validate_index_type :: "arrow_api \<Rightarrow> data_type \<Rightarrow> string \<Rightarrow> index_kind \<Rightarrow> unit res" where
  "validate_index_type A t column kind =
     (if index_supports kind t then Ok ()
      else Err (error_message (''cannot create the requested index on column '' @ quoted column
        @ '' with type '' @ aa_show_type A t)))"

definition validate_index :: "arrow_api \<Rightarrow> schema \<Rightarrow> string \<times> index_kind \<Rightarrow> unit res" where
  "validate_index A s ck = (case ck of (column, kind) \<Rightarrow>
     and_then (map_err (\<lambda>_. error_message (''index column not found: '' @ column))
         (aa_field_with_name A s column))
       (\<lambda>field. validate_index_type A (field_type field) column kind))"

record index_plan =
  ip_indexes :: "(string \<times> index_kind) list"

fun adjacent_same :: "(string \<times> index_kind) list \<Rightarrow> bool" where
  "adjacent_same (a # b # xs) = (fst a = fst b \<or> adjacent_same (b # xs))"
| "adjacent_same [a] = False"
| "adjacent_same [] = False"

definition index_plan_new :: "arrow_api \<Rightarrow> schema \<Rightarrow> (string \<times> index_kind) list \<Rightarrow> index_plan res" where
  "index_plan_new A s requested =
     and_then (try_each (validate_index A s) requested) (\<lambda>_.
     let indexes = sort_key fst requested in
     if adjacent_same indexes
     then Err (error_message ''a column cannot have multiple indexes in one write'')
     else Ok \<lparr>ip_indexes = indexes\<rparr>)"

section \<open>Building the indexes\<close>

datatype index_params = BTreeParams | IvfFlatL2 usize | InvertedDefault | BloomFilterParams

record 'd index_api =
  ix_count_rows :: "'d \<Rightarrow> (usize, string) result"
  ix_create_index :: "'d \<Rightarrow> string \<Rightarrow> index_params \<Rightarrow> ('d, string) result"

definition clamp_partitions :: "usize \<Rightarrow> usize" where
  "clamp_partitions n = (if n < 1 then 1 else if 4096 < n then 4096 else n)"

text \<open>\<open>div_ceil\<close> by a positive constant never panics.\<close>

definition vector_partitions :: "'d index_api \<Rightarrow> (string \<times> index_kind) list \<Rightarrow> 'd \<Rightarrow> usize res" where
  "vector_partitions X indexes d =
     (if list_ex (\<lambda>ck. snd ck = Vector) indexes
      then map_ok (\<lambda>rows. clamp_partitions (the (div_ceil rows TARGET_VECTOR_PARTITION_ROWS)))
             (map_err lance_error (ix_count_rows X d))
      else Ok 0)"

fun index_params_of :: "usize \<Rightarrow> index_kind \<Rightarrow> index_params" where
  "index_params_of n Scalar = BTreeParams"
| "index_params_of n Vector = IvfFlatL2 n"
| "index_params_of n Text = InvertedDefault"
| "index_params_of n BloomFilter = BloomFilterParams"

fun index_label :: "index_kind \<Rightarrow> string" where
  "index_label Scalar = ''BTree''"
| "index_label Vector = ''vector''"
| "index_label Text = ''text''"
| "index_label BloomFilter = ''Bloom filter''"

fun create_indexes :: "'d index_api \<Rightarrow> usize \<Rightarrow> (string \<times> index_kind) list \<Rightarrow> 'd \<Rightarrow> unit res \<times> 'd" where
  "create_indexes X n [] d = (Ok (), d)"
| "create_indexes X n ((column, kind) # rest) d =
     (case context_of (''creating '' @ index_label kind @ '' index on '' @ quoted column)
             (ix_create_index X d column (index_params_of n kind)) lance_error of
        Err e \<Rightarrow> (Err e, d)
      | Ok d' \<Rightarrow> create_indexes X n rest d')"

definition index_plan_create :: "'d index_api \<Rightarrow> index_plan \<Rightarrow> 'd \<Rightarrow> unit res \<times> 'd" where
  "index_plan_create X plan d =
     (case vector_partitions X (ip_indexes plan) d of
        Err e \<Rightarrow> (Err e, d)
      | Ok n \<Rightarrow> create_indexes X n (ip_indexes plan) d)"

section \<open>Correctness\<close>

lemma adjacent_same_sorted: "sorted (map fst xs) \<Longrightarrow> adjacent_same xs \<longleftrightarrow> \<not> distinct (map fst xs)"
  by (induction xs rule: adjacent_same.induct) auto

lemma adjacent_same_repeats: "adjacent_same (sort_key fst requested) \<longleftrightarrow> \<not> distinct (map fst requested)"
proof -
  have "distinct (map fst (sort_key fst requested)) = distinct (map fst requested)"
    by (metis mset_eq_imp_distinct_iff mset_map mset_sort)
  then show ?thesis by (simp add: adjacent_same_sorted)
qed

lemma validate_index_Ok:
  assumes "arrow_ok A" "distinct (map field_name (schema_fields s))"
  shows "validate_index A s (c, k) = Ok () \<longleftrightarrow> (\<exists>f\<in>set (schema_fields s). field_name f = c \<and> index_supports k (field_type f))"
proof (cases "aa_field_with_name A s c")
  case (Ok f)
  then have f: "f \<in> set (schema_fields s)" "field_name f = c" using field_with_name_Ok [OF assms(1)] by auto
  have unique: "g = f" if "g \<in> set (schema_fields s)" "field_name g = c" for g
    using assms(2) f that by (auto simp: distinct_map inj_on_def)
  have "validate_index A s (c, k) = Ok () \<longleftrightarrow> index_supports k (field_type f)"
    using Ok by (simp add: validate_index_def validate_index_type_def)
  with f unique show ?thesis by blast
next
  case (Err e)
  have "c \<notin> field_name ` set (schema_fields s)" using field_with_name_Err [OF assms(1) Err] by simp
  moreover have "validate_index A s (c, k) \<noteq> Ok ()" using Err by (simp add: validate_index_def)
  ultimately show ?thesis by blast
qed

text \<open>
  C35: On a schema whose column names are distinct, a request for indexes is accepted exactly
  when each names a column of the schema whose type its kind supports and no column is named
  twice, wherever the repetition is; the plan is then the request itself, reordered so that
  column names strictly increase.
\<close>

theorem index_plan_new_outcome:
  assumes "arrow_ok A" "distinct (map field_name (schema_fields s))"
  shows "case index_plan_new A s requested of
      Ok plan \<Rightarrow> mset (ip_indexes plan) = mset requested
        \<and> sorted_wrt (\<lambda>a b. fst a < fst b) (ip_indexes plan)
        \<and> (\<forall>(c, k)\<in>set requested. \<exists>f\<in>set (schema_fields s). field_name f = c \<and> index_supports k (field_type f))
    | Err _ \<Rightarrow> \<not> distinct (map fst requested)
        \<or> (\<exists>(c, k)\<in>set requested. \<forall>f\<in>set (schema_fields s). field_name f = c \<longrightarrow> \<not> index_supports k (field_type f))"
proof (cases "\<forall>ck\<in>set requested. validate_index A s ck = Ok ()")
  case True
  then have ok: "try_each (validate_index A s) requested = Ok ()" by (simp add: try_each_Ok)
  have all: "\<forall>(c, k)\<in>set requested. \<exists>f\<in>set (schema_fields s). field_name f = c \<and> index_supports k (field_type f)"
    using True validate_index_Ok [OF assms] by blast
  show ?thesis
  proof (cases "distinct (map fst requested)")
    case True
    then have "sorted_wrt (<) (map fst (sort_key fst requested))"
      using adjacent_same_repeats [of requested] by (simp add: strict_sorted_iff adjacent_same_sorted)
    then have "sorted_wrt (\<lambda>a b. fst a < fst b) (sort_key fst requested)" by (simp only: sorted_wrt_map)
    with True all show ?thesis by (simp add: index_plan_new_def Let_def ok adjacent_same_repeats)
  next
    case False
    then show ?thesis by (simp add: index_plan_new_def Let_def ok adjacent_same_repeats)
  qed
next
  case False
  then have "try_each (validate_index A s) requested \<noteq> Ok ()" by (simp add: try_each_Ok)
  then obtain e where e: "try_each (validate_index A s) requested = Err e"
    by (cases "try_each (validate_index A s) requested") auto
  obtain c k where "(c, k) \<in> set requested" "validate_index A s (c, k) \<noteq> Ok ()" using False by auto
  with e validate_index_Ok [OF assms, of c k] show ?thesis by (auto simp: index_plan_new_def)
qed

theorem index_plan_new_outcome_witness:
  "\<exists>plan. index_plan_new arrow_ref \<lparr>schema_fields = [Field ''a'' Utf8 True [], Field ''b'' Int64 True []], schema_metadata = []\<rparr>
      [(''b'', Scalar), (''a'', Text)] = Ok plan
    \<and> sorted_wrt (\<lambda>a b. fst a < fst b) (ip_indexes plan)"
proof -
  let ?s = "\<lparr>schema_fields = [Field ''a'' Utf8 True [], Field ''b'' Int64 True []], schema_metadata = []\<rparr>"
  have "distinct (map field_name (schema_fields ?s))" by simp
  from index_plan_new_outcome [OF arrow_ref_ok this, of "[(''b'', Scalar), (''a'', Text)]"] show ?thesis
    by (cases "index_plan_new arrow_ref ?s [(''b'', Scalar), (''a'', Text)]") (auto simp: text_type_def)
qed

lemma unat_clamp_partitions: "unat (clamp_partitions n) = min 4096 (max 1 (unat n))"
  by (simp add: clamp_partitions_def word_less_nat_alt)

text \<open>
  When a vector index is requested, the number of its partitions is the row count over
  8192, rounded up, kept between 1 and 4096: never zero, even for an empty dataset, and one
  partition per 8192 rows as long as that needs at most 4096 of them.
\<close>

lemma vector_partitions_bounds:
  assumes "vector_partitions X indexes d = Ok n" "Vector \<in> snd ` set indexes"
  shows "\<exists>rows. ix_count_rows X d = Ok rows
    \<and> unat n = min 4096 (max 1 ((unat rows + 8191) div 8192))
    \<and> (unat rows \<le> 8192 * 4096 \<longrightarrow> unat rows \<le> 8192 * unat n)"
proof -
  have "list_ex (\<lambda>ck. snd ck = Vector) indexes" using assms(2) by (force simp: list_ex_iff)
  with assms(1) obtain rows where rows: "ix_count_rows X d = Ok rows"
    "n = clamp_partitions (the (div_ceil rows TARGET_VECTOR_PARTITION_ROWS))"
    by (auto simp: vector_partitions_def result_simps)
  obtain q where q: "div_ceil rows TARGET_VECTOR_PARTITION_ROWS = Some q"
    by (simp add: div_ceil_def TARGET_VECTOR_PARTITION_ROWS_def)
  then have "unat q = (unat rows + 8191) div 8192"
    using unat_div_ceil [OF q] by (simp add: TARGET_VECTOR_PARTITION_ROWS_def)
  then have n: "unat n = min 4096 (max 1 ((unat rows + 8191) div 8192))"
    by (simp add: rows(2) q unat_clamp_partitions)
  moreover have "unat rows \<le> 8192 * unat n" if "unat rows \<le> 8192 * 4096"
    using that n by simp
  ultimately show ?thesis using rows(1) by blast
qed

lemma vector_partitions_bounds_example:
  "vector_partitions \<lparr>ix_count_rows = (\<lambda>_. Ok 8193), ix_create_index = (\<lambda>d _ _. Ok d)\<rparr> [(''v'', Vector)] ()
     = Ok 2 \<and> (8193 :: nat) \<le> 8192 * unat (2 :: usize)"
proof -
  let ?X = "\<lparr>ix_count_rows = (\<lambda>_. Ok 8193), ix_create_index = (\<lambda>d _ _. Ok d)\<rparr> :: unit index_api"
  obtain n where n: "vector_partitions ?X [(''v'', Vector)] () = Ok n"
    by (simp add: vector_partitions_def)
  with vector_partitions_bounds [OF n] have "unat n = 2" by simp
  then have "n = 2" by (simp add: word_unat_eq_iff)
  with n show ?thesis by simp
qed

end
