(* ===== verification/DatasetWrite.thy ===== *)
theory DatasetWrite
  imports SchemaCheck IndexPlan ColumnStorage
begin

text \<open>
  \<open>rust/src/sink/lance/dataset.rs\<close>: one dataset write, from the validation of its destination
  and schema to the commit of the merged transaction, and \<open>WriteSummary\<close> of \<open>sink.rs\<close>. Lance
  is the record \<open>lance_env\<close>, an argument: opening a dataset, committing a transaction, the
  statistics of its I/O tracker, and the writer of data files, which polls a stream and may
  stop early (\<open>le_early\<close>, on the items polled so far) or ends with it (\<open>le_end\<close>). A panic of
  Lance is an outcome of its own, since the code catches it. A DataFusion error is the text
  it displays; rows are counted at the width of the shared counter.
\<close>

section \<open>Lance\<close>

record 'p record_batch =
  rb_schema :: schema
  rb_columns :: "'p array list"
  rb_rows :: usize

type_synonym 'p item = "('p record_batch, string) result"
type_synonym 'p stream = "schema \<times> 'p item list"

datatype ('f, 'x) operation = OpAppend "'f list" | OpOverwrite "'f list" 'x | OpOther 'x

record ('f, 'x) transaction =
  tx_operation :: "('f, 'x) operation"
  tx_rest :: 'x

datatype 't outcome = Returned "('t, string) result" | Panicked

datatype 'd target = Existing 'd | Fresh string

datatype load_error = DatasetNotFound | NotFound | LoadFailed string

datatype external_blob_mode = BlobReference | BlobIngest

record write_params =
  wp_mode :: write_mode
  wp_max_bytes_per_file :: usize
  wp_data_storage_version :: "string option"
  wp_external_blob_mode :: external_blob_mode
  wp_session :: "(string \<times> store_provider) list option"

record ('p, 'f, 'x, 'd) lance_env =
  le_arrow :: arrow_api
  le_arrays :: "'p array_api"
  le_blob :: lance_blob
  le_index :: "'d index_api"
  le_load :: "(string \<times> store_provider) list \<Rightarrow> string \<Rightarrow> ('d, load_error) result"
  le_fields :: "'d \<Rightarrow> (string \<times> metadata) list"
  le_parse_version :: "string \<Rightarrow> (string, string) result"
  le_early :: "'d target \<Rightarrow> write_params \<Rightarrow> schema \<Rightarrow> 'p item list \<Rightarrow> ('f, 'x) transaction outcome option"
  le_end :: "'d target \<Rightarrow> write_params \<Rightarrow> schema \<Rightarrow> 'p item list \<Rightarrow> ('f, 'x) transaction outcome"
  le_commit :: "'d target \<Rightarrow> (string \<times> store_provider) list option \<Rightarrow> string option \<Rightarrow>
    ('f, 'x) transaction \<Rightarrow> ('d, string) result"
  le_stats :: "u64 \<times> u64"

text \<open>How Lance runs through a stream: the items it polled, and how it ended.\<close>

fun insert_run :: "('i list \<Rightarrow> 't outcome option) \<Rightarrow> ('i list \<Rightarrow> 't outcome) \<Rightarrow> 'i list \<Rightarrow> 'i list \<Rightarrow> 'i list \<times> 't outcome" where
  "insert_run early ended polled items = (case early polled of
     Some r \<Rightarrow> (polled, r)
   | None \<Rightarrow> (case items of
       [] \<Rightarrow> (polled, ended polled)
     | i # rest \<Rightarrow> insert_run early ended (polled @ [i]) rest))"

declare insert_run.simps [simp del]

section \<open>Writing data files\<close>

definition GENERATED_EXPRESSION_METADATA_KEY :: string where
  "GENERATED_EXPRESSION_METADATA_KEY = ''lance_conversion:generated_expression''"

definition empty_stream :: "schema \<Rightarrow> 'p stream" where
  "empty_stream s = (s, [])"

definition generated_columns :: "(string \<times> metadata) list \<Rightarrow> (string, string) smap" where
  "generated_columns columns = sm_extend [] (List.map_filter (\<lambda>(name, metadata).
     map_option (Pair name) (map_of metadata GENERATED_EXPRESSION_METADATA_KEY)) columns)"

definition validate_generated_columns :: "(string \<times> metadata) list \<Rightarrow> schema \<Rightarrow> unit res" where
  "validate_generated_columns dataset_fields s =
     (let stored = generated_columns dataset_fields;
          appended = generated_columns (map (\<lambda>f. (field_name f, field_metadata f)) (schema_fields s))
      in if stored \<noteq> appended
         then Err (error_message ''GENERATED_COLUMNS definitions differ from the existing Lance dataset'')
         else Ok ())"

text \<open>
  \<open>configure_column_storage\<close> of \<open>column_storage.rs\<close> on a whole stream, whose errors are DataFusion's:
  one from arrow shows that it is.
\<close>

definition stored_item :: "('p, 'f, 'x, 'd) lance_env \<Rightarrow> schema \<Rightarrow> schema \<Rightarrow> 'p item \<Rightarrow> 'p item" where
  "stored_item E s out item = and_then item (\<lambda>batch.
     map_ok (\<lambda>columns. batch\<lparr>rb_schema := out, rb_columns := columns\<rparr>)
       (map_err (\<lambda>e. ''Arrow error: '' @ e) (transform_batch (le_arrow E) (le_arrays E) s out (rb_columns batch))))"

definition configure_column_storage ::
  "('p, 'f, 'x, 'd) lance_env \<Rightarrow> 'p stream \<Rightarrow> write_options \<Rightarrow> 'p stream res" where
  "configure_column_storage E stream w = (case stream of (s, items) \<Rightarrow>
     map_ok (\<lambda>out. if out = s then (s, items) else (out, map (stored_item E s out) items))
       (stored_schema (le_arrow E) (le_blob E) s w))"

record 'd dataset_write =
  dw_uri :: string
  dw_dataset :: "'d option"
  dw_params :: write_params
  dw_options :: write_options
  dw_schema :: schema
  dw_indexes :: index_plan

record 't shared_write =
  sw_rows_written :: u64
  sw_transactions :: "'t list"

definition write_context :: "'d dataset_write \<Rightarrow> string" where
  "write_context W = (case wo_mode (dw_options W) of
     ModeCreate \<Rightarrow> ''creating Lance dataset''
   | ModeAppend \<Rightarrow> ''appending to Lance dataset''
   | ModeOverwrite \<Rightarrow> ''overwriting Lance dataset'')"

definition write_target :: "'d dataset_write \<Rightarrow> 'd target" where
  "write_target W = (case dw_dataset W of Some d \<Rightarrow> Existing d | None \<Rightarrow> Fresh (dw_uri W))"

definition counted_rows :: "'p item list \<Rightarrow> u64" where
  "counted_rows items = sum_list (map (\<lambda>i. case i of Ok b \<Rightarrow> rb_rows b | Err _ \<Rightarrow> 0) items)"

definition insert_result :: "'d dataset_write \<Rightarrow> 't outcome \<Rightarrow> 't res" where
  "insert_result W r = (case r of
     Panicked \<Rightarrow> Err (error_message ''Lance writer task panicked'')
   | Returned result \<Rightarrow> context_of (write_context W) result lance_error)"

text \<open>The transaction of the written files, and the rows the stream added to the counter.\<close>

definition write_fragments ::
  "('p, 'f, 'x, 'd) lance_env \<Rightarrow> 'd dataset_write \<Rightarrow> 'p stream \<Rightarrow> ('f, 'x) transaction res \<times> u64" where
  "write_fragments E W stream = (case configure_column_storage E stream (dw_options W) of
     Err e \<Rightarrow> (Err e, 0)
   | Ok (s, items) \<Rightarrow>
       (let (polled, r) = insert_run (le_early E (write_target W) (dw_params W) s)
              (le_end E (write_target W) (dw_params W) s) [] items
        in (insert_result W r, counted_rows polled)))"

definition add_transaction :: "'t \<Rightarrow> 't shared_write \<Rightarrow> 't shared_write" where
  "add_transaction t sh = sh\<lparr>sw_transactions := sw_transactions sh @ [t]\<rparr>"

section \<open>Committing\<close>

fun merge_operations :: "('f, 'x) operation \<Rightarrow> ('f, 'x) operation \<Rightarrow> ('f, 'x) operation res" where
  "merge_operations (OpAppend fragments) (OpAppend extra) = Ok (OpAppend (fragments @ extra))"
| "merge_operations (OpOverwrite fragments x) (OpOverwrite extra _) = Ok (OpOverwrite (fragments @ extra) x)"
| "merge_operations _ _ = Err (error_message ''Lance fragment writers produced incompatible transactions'')"

definition merge_transactions :: "('f, 'x) transaction list \<Rightarrow> ('f, 'x) transaction res" where
  "merge_transactions transactions = (case transactions of
     [] \<Rightarrow> Err (error_message ''no Lance transaction to commit'')
   | first # rest \<Rightarrow>
       try_fold (\<lambda>merged t. map_ok (\<lambda>operation. merged\<lparr>tx_operation := operation\<rparr>)
           (merge_operations (tx_operation merged) (tx_operation t))) first rest)"

record write_summary =
  ws_rows_written :: u64
  ws_bytes_read :: u64
  ws_bytes_written :: u64

text \<open>What a commit leaves: its result, the shared state, and what Lance committed, if it did.\<close>

definition publish ::
  "('p, 'f, 'x, 'd) lance_env \<Rightarrow> 'd dataset_write \<Rightarrow> ('f, 'x) transaction list \<Rightarrow>
   ('f, 'x) transaction shared_write \<Rightarrow>
   write_summary res \<times> ('f, 'x) transaction shared_write \<times> ('f, 'x) transaction option" where
  "publish E W transactions sh = (case merge_transactions transactions of
     Err e \<Rightarrow> (Err e, sh, None)
   | Ok t \<Rightarrow> (case context_of (write_context W)
         (le_commit E (write_target W) (wp_session (dw_params W)) (wp_data_storage_version (dw_params W)) t) lance_error of
       Err e \<Rightarrow> (Err e, sh, None)
     | Ok d \<Rightarrow> (case index_plan_create (le_index E) (dw_indexes W) d of
         (Err e, _) \<Rightarrow> (Err e, sh, Some t)
       | (Ok _, _) \<Rightarrow> (Ok \<lparr>ws_rows_written = sw_rows_written sh, ws_bytes_read = fst (le_stats E),
                          ws_bytes_written = snd (le_stats E)\<rparr>, sh, Some t))))"

definition dataset_commit ::
  "('p, 'f, 'x, 'd) lance_env \<Rightarrow> 'd dataset_write \<Rightarrow> ('f, 'x) transaction shared_write \<Rightarrow>
   write_summary res \<times> ('f, 'x) transaction shared_write \<times> ('f, 'x) transaction option" where
  "dataset_commit E W sh =
     (let transactions = sw_transactions sh; taken = sh\<lparr>sw_transactions := []\<rparr>
      in if transactions = []
         then (case write_fragments E W (empty_stream (dw_schema W)) of
             (Err e, n) \<Rightarrow> (Err e, taken\<lparr>sw_rows_written := sw_rows_written taken + n\<rparr>, None)
           | (Ok t, n) \<Rightarrow> publish E W [t] (taken\<lparr>sw_rows_written := sw_rows_written taken + n\<rparr>))
         else publish E W transactions taken)"

section \<open>Creating a write\<close>

definition STORE_SCHEMES :: "string list" where
  "STORE_SCHEMES = [''file'', ''s3'', ''http'', ''https'']"

definition open_destination ::
  "('p, 'f, 'x, 'd) lance_env \<Rightarrow> (string \<times> store_provider) list \<Rightarrow> string \<Rightarrow> 'd option res" where
  "open_destination E session uri = (case le_load E session uri of
     Ok d \<Rightarrow> Ok (Some d)
   | Err DatasetNotFound \<Rightarrow> Ok None
   | Err NotFound \<Rightarrow> Ok None
   | Err (LoadFailed e) \<Rightarrow> context_of ''opening Lance destination'' (Err e) lance_error)"

text \<open>The destination is \<open>None\<close> when it is not valid UTF-8.\<close>

definition dataset_create ::
  "storage_env \<Rightarrow> ('p, 'f, 'x, 'd) lance_env \<Rightarrow> string option \<Rightarrow> schema \<Rightarrow> write_options \<Rightarrow>
   ('d dataset_write \<times> ('f, 'x) transaction shared_write) res" where
  "dataset_create S E destination s w =
     and_then (validate_schema (le_arrow E) s) (\<lambda>_.
     and_then (ok_or destination (error_message ''destination must be valid UTF-8'')) (\<lambda>path.
     and_then (from_path S path (if is_s3_uri path then wo_s3_config w else None) (wo_opendal_config w)) (\<lambda>storage.
     if st_object_path storage = [] then Err (error_message ''Lance destination must not be a storage root'')
     else and_then (configure_column_storage E (empty_stream s) w) (\<lambda>(stored, _).
     and_then (index_plan_new (le_arrow E) stored (wo_indexes w)) (\<lambda>indexes.
     let provider = store_provider_new (wo_s3_config w) (wo_opendal_config w);
         session = map (\<lambda>scheme. (scheme, provider)) STORE_SCHEMES;
         uri = url_str (st_location storage)
     in and_then (open_destination E session uri) (\<lambda>dataset.
     and_then (case (wo_mode w, dataset) of
         (ModeAppend, Some d) \<Rightarrow> validate_generated_columns (le_fields E d) s
       | _ \<Rightarrow> Ok ()) (\<lambda>_.
     and_then (map_err lance_error (le_parse_version E (wo_storage_version w))) (\<lambda>version.
     Ok (\<lparr>dw_uri = uri, dw_dataset = dataset,
          dw_params = \<lparr>wp_mode = wo_mode w, wp_max_bytes_per_file = wo_target_file_size w,
            wp_data_storage_version = Some version,
            wp_external_blob_mode = (if wo_blob_columns w = [] then BlobReference else BlobIngest),
            wp_session = Some session\<rparr>,
          dw_options = w, dw_schema = s, dw_indexes = indexes\<rparr>,
         \<lparr>sw_rows_written = 0, sw_transactions = []\<rparr>)))))))))"

section \<open>Merging\<close>

definition tx_fragments :: "('f, 'x) transaction \<Rightarrow> 'f list" where
  "tx_fragments t = (case tx_operation t of OpAppend fs \<Rightarrow> fs | OpOverwrite fs _ \<Rightarrow> fs | OpOther _ \<Rightarrow> [])"

definition is_append :: "('f, 'x) transaction \<Rightarrow> bool" where
  "is_append t = (case tx_operation t of OpAppend _ \<Rightarrow> True | _ \<Rightarrow> False)"

definition is_overwrite :: "('f, 'x) transaction \<Rightarrow> bool" where
  "is_overwrite t = (case tx_operation t of OpOverwrite _ _ \<Rightarrow> True | _ \<Rightarrow> False)"

definition uniform :: "('f, 'x) transaction list \<Rightarrow> bool" where
  "uniform ts \<longleftrightarrow> (\<forall>t\<in>set ts. is_append t) \<or> (\<forall>t\<in>set ts. is_overwrite t)"

lemmas tx_kind_defs = tx_fragments_def is_append_def is_overwrite_def

lemma not_both_kinds: "is_append t \<Longrightarrow> is_overwrite t \<Longrightarrow> False"
  by (simp add: tx_kind_defs split: operation.splits)

abbreviation merge_step_tx :: "('f, 'x) transaction \<Rightarrow> ('f, 'x) transaction \<Rightarrow> ('f, 'x) transaction res" where
  "merge_step_tx \<equiv> \<lambda>merged t. map_ok (\<lambda>operation. merged\<lparr>tx_operation := operation\<rparr>)
     (merge_operations (tx_operation merged) (tx_operation t))"

lemma merge_step_outcome:
  "case merge_step_tx a b of
     Ok t \<Rightarrow> uniform [a, b] \<and> tx_fragments t = tx_fragments a @ tx_fragments b \<and> tx_rest t = tx_rest a
       \<and> is_append t = is_append a \<and> is_overwrite t = is_overwrite a
   | Err e \<Rightarrow> \<not> uniform [a, b]"
  by (cases "tx_operation a"; cases "tx_operation b") (simp_all add: uniform_def tx_kind_defs)

lemma merge_fold_outcome:
  "case try_fold merge_step_tx a ts of
     Ok t \<Rightarrow> (ts = [] \<or> uniform (a # ts)) \<and> tx_fragments t = concat (map tx_fragments (a # ts)) \<and> tx_rest t = tx_rest a
       \<and> is_append t = is_append a \<and> is_overwrite t = is_overwrite a
   | Err e \<Rightarrow> \<not> uniform (a # ts)"
proof (induction ts arbitrary: a)
  case (Cons b ts)
  note one = merge_step_outcome [of a b]
  show ?case
  proof (cases "merge_step_tx a b")
    case (Ok m)
    with one have m: "uniform [a, b]" "is_append m = is_append a" "is_overwrite m = is_overwrite a"
      "tx_fragments m = tx_fragments a @ tx_fragments b" "tx_rest m = tx_rest a" by simp_all
    have "uniform (m # ts) \<longleftrightarrow> uniform (a # b # ts)"
      using m(1,2,3) not_both_kinds [of a] by (auto simp: uniform_def)
    with Cons.IH [of m] m Ok show ?thesis
      by (auto simp: uniform_def split: result.splits)
  next
    case (Err e)
    then show ?thesis using one by (auto simp: uniform_def)
  qed
qed simp

lemma merge_transactions_aux:
  "case merge_transactions ts of
     Ok t \<Rightarrow> ts \<noteq> [] \<and> (length ts = 1 \<or> uniform ts) \<and> tx_fragments t = concat (map tx_fragments ts)
       \<and> is_append t = is_append (hd ts) \<and> is_overwrite t = is_overwrite (hd ts) \<and> tx_rest t = tx_rest (hd ts)
   | Err e \<Rightarrow> ts = [] \<or> \<not> uniform ts"
proof (cases ts)
  case (Cons a rest)
  then show ?thesis using merge_fold_outcome [where a = a and ts = rest]
    by (auto simp: merge_transactions_def split: result.splits)
qed (simp add: merge_transactions_def)

text \<open>
  Merging succeeds exactly on one transaction or several of one kind, all appends or all
  overwrites; the result keeps the first one's kind and version and holds every fragment of
  every transaction, in the order the transactions were added.
\<close>

lemma merge_transactions_outcome:
  "case merge_transactions ts of
     Ok t \<Rightarrow> ts \<noteq> [] \<and> (length ts = 1 \<or> uniform ts) \<and> tx_fragments t = concat (map tx_fragments ts)
       \<and> is_append t = is_append (hd ts) \<and> tx_rest t = tx_rest (hd ts)
   | Err e \<Rightarrow> ts = [] \<or> \<not> uniform ts"
  using merge_transactions_aux [of ts] by (auto split: result.splits)

section \<open>What Lance writes\<close>

text \<open>
  What Lance documents of its writer: it stops early only to fail, and it succeeds only on a
  stream without an error, with an append to an existing dataset in append mode and an
  overwrite otherwise, whose fragments hold the rows of the stream's batches in order. The
  rows of a fragment and of a batch are the arguments \<open>F\<close> and \<open>B\<close>.
\<close>

definition ok_batches :: "'p item list \<Rightarrow> 'p record_batch list" where
  "ok_batches items = List.map_filter (\<lambda>i. case i of Ok b \<Rightarrow> Some b | Err _ \<Rightarrow> None) items"

definition appends :: "'d target \<Rightarrow> write_params \<Rightarrow> bool" where
  "appends target p \<longleftrightarrow> wp_mode p = ModeAppend \<and> (\<exists>d. target = Existing d)"

definition tx_holds ::
  "('f \<Rightarrow> 'r list) \<Rightarrow> ('p record_batch \<Rightarrow> 'r list) \<Rightarrow> 'd target \<Rightarrow> write_params \<Rightarrow> 'p item list \<Rightarrow>
   ('f, 'x) transaction \<Rightarrow> bool" where
  "tx_holds F B target p items t \<longleftrightarrow> list_all is_ok items
     \<and> (if appends target p then is_append t else is_overwrite t)
     \<and> concat (map F (tx_fragments t)) = concat (map B (ok_batches items))"

definition insert_documented ::
  "('f \<Rightarrow> 'r list) \<Rightarrow> ('p record_batch \<Rightarrow> 'r list) \<Rightarrow> ('p, 'f, 'x, 'd) lance_env \<Rightarrow> bool" where
  "insert_documented F B E \<longleftrightarrow>
     (\<forall>target p s items t. le_early E target p s items \<noteq> Some (Returned (Ok t)))
     \<and> (\<forall>target p s items t. le_end E target p s items = Returned (Ok t) \<longrightarrow> tx_holds F B target p items t)"

lemma insert_run_Ok:
  assumes "insert_run early ended polled items = (p, Returned (Ok t))"
    and "\<And>q u. early q \<noteq> Some (Returned (Ok u))"
  shows "p = polled @ items \<and> ended (polled @ items) = Returned (Ok t)"
  using assms(1)
proof (induction items arbitrary: polled)
  case Nil
  then show ?case using assms(2) [of polled] by (auto simp: insert_run.simps split: option.splits)
next
  case (Cons i items)
  then have "insert_run early ended (polled @ [i]) items = (p, Returned (Ok t))"
    using assms(2) [of polled] by (auto simp: insert_run.simps [of early ended polled "i # items"] split: option.splits)
  from Cons.IH [OF this] show ?case by simp
qed

lemma insert_result_Ok: "insert_result W r = Ok t \<longleftrightarrow> r = Returned (Ok t)"
  by (cases r) (auto simp: insert_result_def result_simps)

lemma write_fragments_Ok:
  assumes "insert_documented F B E" "write_fragments E W stream = (Ok t, n)"
  obtains out items where "configure_column_storage E stream (dw_options W) = Ok (out, items)"
    "tx_holds F B (write_target W) (dw_params W) items t" "n = counted_rows items"
proof -
  obtain out items where out: "configure_column_storage E stream (dw_options W) = Ok (out, items)"
    using assms(2) by (auto simp: write_fragments_def split: result.splits)
  obtain polled r where run: "insert_run (le_early E (write_target W) (dw_params W) out)
      (le_end E (write_target W) (dw_params W) out) [] items = (polled, r)" by fastforce
  with assms(2) out have r: "r = Returned (Ok t)" "n = counted_rows polled"
    by (simp_all add: write_fragments_def insert_result_Ok)
  have "polled = items \<and> le_end E (write_target W) (dw_params W) out items = Returned (Ok t)"
    using insert_run_Ok [OF run [unfolded r(1)]] assms(1) by (simp add: insert_documented_def)
  then have "tx_holds F B (write_target W) (dw_params W) items t" "n = counted_rows items"
    using assms(1) r(2) unfolding insert_documented_def by blast+
  with out that show thesis by blast
qed

lemma tx_holds_uniform:
  "\<forall>t\<in>set ts. \<exists>items. tx_holds F B target p items t \<Longrightarrow> uniform ts"
  by (cases "appends target p") (auto simp: uniform_def tx_holds_def)

section \<open>Generated columns\<close>

definition generates :: "(string \<times> metadata) list \<Rightarrow> string \<Rightarrow> string \<Rightarrow> bool" where
  "generates columns name expression \<longleftrightarrow>
     (\<exists>metadata. (name, metadata) \<in> set columns \<and> map_of metadata GENERATED_EXPRESSION_METADATA_KEY = Some expression)"

lemma map_eq_iff: "f = g \<longleftrightarrow> (\<forall>k v. f k = Some v \<longleftrightarrow> g k = Some v)" for f g :: "'k \<rightharpoonup> 'v"
proof
  assume "\<forall>k v. f k = Some v \<longleftrightarrow> g k = Some v"
  then have "f k = g k" for k by (metis not_None_eq)
  then show "f = g" by (rule ext)
qed simp

lemma generated_columns_get:
  assumes "distinct (map fst columns)"
  shows "sm_wf (generated_columns columns)
    \<and> (map_of (generated_columns columns) name = Some expression \<longleftrightarrow> generates columns name expression)"
proof -
  let ?f = "\<lambda>(name, metadata). map_option (Pair name) (map_of metadata GENERATED_EXPRESSION_METADATA_KEY)"
  let ?kvs = "List.map_filter ?f columns"
  have mem: "(name, e) \<in> set ?kvs \<longleftrightarrow> generates columns name e" for name e
    by (force simp: List.map_filter_def generates_def)
  have sub: "fst ` set (List.map_filter ?f cs) \<subseteq> fst ` set cs" for cs
    by (force simp: List.map_filter_def)
  have "distinct (map fst ?kvs)"
    using assms
  proof (induction columns)
    case (Cons c cs)
    then show ?case using sub [of cs] by (cases c) (force simp: map_filter_simps split: option.splits)
  qed (simp add: map_filter_simps)
  then have "map_of (rev ?kvs) name = Some expression \<longleftrightarrow> generates columns name expression"
    using mem by (subst map_of_eq_Some_iff) (simp_all add: rev_map [symmetric])
  moreover have "sm_wf (sm_extend [] ?kvs)"
    using sm.invar_extend [OF sm_wf_Nil, of ?kvs] by (simp add: sm_extend_eq)
  moreover have "map_of (sm_extend [] ?kvs) = map_of (rev ?kvs)"
    using sm_get_extend_any [of "[]" ?kvs] by simp
  ultimately show ?thesis by (simp add: generated_columns_def)
qed

text \<open>
  C25: An append is accepted exactly when the dataset and the appended schema, neither of which
  names a column twice, generate the same columns with the same expressions, in whatever order
  and beside whatever else.
\<close>

theorem generated_columns_agree:
  assumes "distinct (map fst dataset_fields)" "distinct (map field_name (schema_fields s))"
  shows "validate_generated_columns dataset_fields s = Ok () \<longleftrightarrow>
    (\<forall>name expression. generates dataset_fields name expression \<longleftrightarrow>
       (\<exists>f\<in>set (schema_fields s). field_name f = name
          \<and> map_of (field_metadata f) GENERATED_EXPRESSION_METADATA_KEY = Some expression))"
proof -
  let ?new = "map (\<lambda>f. (field_name f, field_metadata f)) (schema_fields s)"
  have new: "distinct (map fst ?new)" using assms(2) by (simp add: comp_def)
  note gets = generated_columns_get [OF assms(1)] generated_columns_get [OF new]
  have new_columns: "generates ?new n e \<longleftrightarrow> (\<exists>f\<in>set (schema_fields s). field_name f = n
      \<and> map_of (field_metadata f) GENERATED_EXPRESSION_METADATA_KEY = Some e)" for n e
    unfolding generates_def by auto
  have "sm_wf (generated_columns dataset_fields)" "sm_wf (generated_columns ?new)"
    using gets(1) [THEN conjunct1] gets(2) [THEN conjunct1] .
  then have "generated_columns dataset_fields = generated_columns ?new
      \<longleftrightarrow> map_of (generated_columns dataset_fields) = map_of (generated_columns ?new)"
    by (auto intro: sm.get_ext)
  also have "\<dots> \<longleftrightarrow> (\<forall>n e. generates dataset_fields n e \<longleftrightarrow> generates ?new n e)"
    unfolding map_eq_iff by (simp only: gets [THEN conjunct2])
  finally show ?thesis by (simp add: validate_generated_columns_def Let_def new_columns)
qed

theorem generated_columns_agree_witness:
  "validate_generated_columns [(''a'', []), (''b'', [(GENERATED_EXPRESSION_METADATA_KEY, ''a + 1'')])]
     \<lparr>schema_fields = [Field ''b'' Int64 True [(GENERATED_EXPRESSION_METADATA_KEY, ''a + 2'')]], schema_metadata = []\<rparr> \<noteq> Ok ()"
proof -
  let ?ds = "[(''a'', []), (''b'', [(GENERATED_EXPRESSION_METADATA_KEY, ''a + 1'')])]"
  let ?s = "\<lparr>schema_fields = [Field ''b'' Int64 True [(GENERATED_EXPRESSION_METADATA_KEY, ''a + 2'')]], schema_metadata = []\<rparr>"
  have "generates ?ds ''b'' ''a + 1''" by (simp add: generates_def)
  moreover have "\<not> (\<exists>f\<in>set (schema_fields ?s). field_name f = ''b''
      \<and> map_of (field_metadata f) GENERATED_EXPRESSION_METADATA_KEY = Some ''a + 1'')" by simp
  moreover have "distinct (map fst ?ds)" "distinct (map field_name (schema_fields ?s))" by simp_all
  ultimately show ?thesis using generated_columns_agree [of ?ds ?s] by metis
qed

section \<open>What a commit publishes\<close>

text \<open>
  A transaction made by this write's Lance target of the rows \<open>rs\<close>.
\<close>

definition carries ::
  "('f \<Rightarrow> 'r list) \<Rightarrow> 'd dataset_write \<Rightarrow> 'r list \<Rightarrow> ('f, 'x) transaction \<Rightarrow> bool" where
  "carries F W rs t \<longleftrightarrow> concat (map F (tx_fragments t)) = rs
     \<and> (if appends (write_target W) (dw_params W) then is_append t else is_overwrite t)"

lemma tx_holds_carries: "tx_holds F B (write_target W) (dw_params W) items t
    \<longleftrightarrow> list_all is_ok items \<and> carries F W (concat (map B (ok_batches items))) t"
  by (auto simp: tx_holds_def carries_def)

lemma merge_carries:
  assumes "list_all2 (carries F W) rss ts" "ts \<noteq> []"
  shows "\<exists>t. merge_transactions ts = Ok t \<and> carries F W (concat rss) t"
proof -
  have kind: "if appends (write_target W) (dw_params W) then is_append t else is_overwrite t" if "t \<in> set ts" for t
    using assms(1) that by (fastforce simp: carries_def list_all2_conv_all_nth in_set_conv_nth)
  then have "uniform ts" by (cases "appends (write_target W) (dw_params W)") (simp_all add: uniform_def)
  then obtain t where t: "merge_transactions ts = Ok t" "tx_fragments t = concat (map tx_fragments ts)"
    "is_append t = is_append (hd ts)" "is_overwrite t = is_overwrite (hd ts)"
    using merge_transactions_aux [of ts] assms(2) by (auto split: result.splits)
  have "concat (map F (tx_fragments t)) = concat rss"
    using assms(1) unfolding t(2) by (induction rss ts rule: list_all2_induct) (auto simp: carries_def)
  then show ?thesis using t kind [of "hd ts"] assms(2) by (auto simp: carries_def)
qed

lemma publish_carries:
  assumes "list_all2 (carries F W) rss ts" "ts \<noteq> []" "publish E W ts sh = (r, sh', published)"
  shows "sh' = sh \<and> (case published of None \<Rightarrow> \<exists>e. r = Err e | Some t \<Rightarrow> carries F W (concat rss) t)
    \<and> (case r of Ok summary \<Rightarrow> ws_rows_written summary = sw_rows_written sh \<and> published \<noteq> None | Err _ \<Rightarrow> True)"
proof -
  obtain t where t: "merge_transactions ts = Ok t" "carries F W (concat rss) t"
    using merge_carries [OF assms(1,2)] by blast
  show ?thesis using assms(3) t
    by (auto simp: publish_def split: result.splits prod.splits)
qed

text \<open>
  A commit takes every added transaction; what it publishes is one transaction with the rows
  of all of them in order, or of no row at all when there was none.
\<close>

lemma commit_carries:
  assumes "insert_documented F B E" "list_all2 (carries F W) rss (sw_transactions sh)"
    and "dataset_commit E W sh = (r, sh', published)"
  shows "sw_transactions sh' = [] \<and> (case published of None \<Rightarrow> \<exists>e. r = Err e | Some t \<Rightarrow> carries F W (concat rss) t)
    \<and> (case r of Ok summary \<Rightarrow> ws_rows_written summary = sw_rows_written sh \<and> published \<noteq> None | Err _ \<Rightarrow> True)"
proof (cases "sw_transactions sh = []")
  case False
  then have "publish E W (sw_transactions sh) (sh\<lparr>sw_transactions := []\<rparr>) = (r, sh', published)"
    using assms(3) by (simp add: dataset_commit_def Let_def)
  from publish_carries [OF assms(2) False this] show ?thesis by (cases r) simp_all
next
  case True
  with assms(2) have rss: "rss = []" by simp
  obtain w n where w: "write_fragments E W (empty_stream (dw_schema W)) = (w, n)" by fastforce
  show ?thesis
  proof (cases w)
    case (Err e)
    with w True assms(3) show ?thesis by (auto simp: dataset_commit_def)
  next
    case (Ok t)
    from write_fragments_Ok [OF assms(1) w [unfolded Ok]] obtain out items where run:
      "configure_column_storage E (empty_stream (dw_schema W)) (dw_options W) = Ok (out, items)"
      "tx_holds F B (write_target W) (dw_params W) items t" "n = counted_rows items" .
    then have "items = []" by (auto simp: configure_column_storage_def empty_stream_def result_simps split: if_splits)
    with run have none: "list_all2 (carries F W) [[]] [t]" "n = 0"
      by (simp_all add: tx_holds_carries ok_batches_def map_filter_simps counted_rows_def)
    have "publish E W [t] (sh\<lparr>sw_transactions := []\<rparr>) = (r, sh', published)"
      using assms(3) w Ok True none(2) by (simp add: dataset_commit_def)
    from publish_carries [OF none(1) _ this] show ?thesis by (cases r; cases published) (simp_all add: rss)
  qed
qed

section \<open>A created write\<close>

lemma created_write:
  assumes "dataset_create S E destination s w = Ok (W, sh)"
  shows "\<exists>path storage session. destination = Some path
    \<and> from_path S path (if is_s3_uri path then wo_s3_config w else None) (wo_opendal_config w) = Ok storage
    \<and> st_object_path storage \<noteq> [] \<and> dw_uri W = url_str (st_location storage)
    \<and> schema_fields s \<noteq> [] \<and> validate_schema (le_arrow E) s = Ok () \<and> dw_schema W = s \<and> dw_options W = w
    \<and> (\<forall>items. \<exists>out items'. configure_column_storage E (s, items) w = Ok (out, items')
        \<and> index_plan_new (le_arrow E) out (wo_indexes w) = Ok (dw_indexes W))
    \<and> wp_session (dw_params W) = Some session
    \<and> (\<forall>scheme\<in>set STORE_SCHEMES. map_of session scheme = Some (store_provider_new (wo_s3_config w) (wo_opendal_config w)))
    \<and> (case dw_dataset W of
         Some d \<Rightarrow> le_load E session (dw_uri W) = Ok d
           \<and> (wo_mode w = ModeAppend \<longrightarrow> validate_generated_columns (le_fields E d) s = Ok ())
       | None \<Rightarrow> le_load E session (dw_uri W) \<in> {Err DatasetNotFound, Err NotFound})
    \<and> sh = \<lparr>sw_rows_written = 0, sw_transactions = []\<rparr>"
proof -
  define provider where "provider = store_provider_new (wo_s3_config w) (wo_opendal_config w)"
  define session where "session = map (\<lambda>scheme. (scheme, provider)) STORE_SCHEMES"
  define s3 where "s3 path = (if is_s3_uri path then wo_s3_config w else None)" for path
  obtain path storage stored rest dataset version where steps:
    "validate_schema (le_arrow E) s = Ok ()" "destination = Some path"
    "from_path S path (s3 path) (wo_opendal_config w) = Ok storage"
    "st_object_path storage \<noteq> []" "configure_column_storage E (empty_stream s) w = Ok (stored, rest)"
    "index_plan_new (le_arrow E) stored (wo_indexes w) = Ok (dw_indexes W)"
    "open_destination E session (url_str (st_location storage)) = Ok dataset"
    "(case (wo_mode w, dataset) of (ModeAppend, Some d) \<Rightarrow> validate_generated_columns (le_fields E d) s | _ \<Rightarrow> Ok ()) = Ok ()"
    "dw_uri W = url_str (st_location storage)" "dw_dataset W = dataset" "dw_options W = w" "dw_schema W = s"
    "wp_session (dw_params W) = Some session" "sh = \<lparr>sw_rows_written = 0, sw_transactions = []\<rparr>"
    using assms
    by (auto simp: dataset_create_def Let_def and_then_Ok ok_or_Ok provider_def [symmetric]
        session_def [symmetric] s3_def [symmetric] split: if_split_asm prod.splits)
  have stored: "stored_schema (le_arrow E) (le_blob E) s w = Ok stored"
    using steps(5) by (auto simp: configure_column_storage_def empty_stream_def result_simps split: if_splits)
  have config: "\<exists>out items'. configure_column_storage E (s, items) w = Ok (out, items')
      \<and> index_plan_new (le_arrow E) out (wo_indexes w) = Ok (dw_indexes W)" for items
    using steps(6) by (auto simp: configure_column_storage_def stored)
  have loaded: "case dataset of Some d \<Rightarrow> le_load E session (dw_uri W) = Ok d
      | None \<Rightarrow> le_load E session (dw_uri W) \<in> {Err DatasetNotFound, Err NotFound}"
    using steps(7,9) by (auto simp: open_destination_def context_of_def split: result.splits load_error.splits)
  have fields: "schema_fields s \<noteq> []" using steps(1) by (auto simp: validate_schema_def)
  have providers: "\<forall>scheme\<in>set STORE_SCHEMES. map_of session scheme = Some provider"
    by (simp add: session_def STORE_SCHEMES_def)
  have agreed: "case dataset of Some d \<Rightarrow> wo_mode w = ModeAppend \<longrightarrow> validate_generated_columns (le_fields E d) s = Ok ()
      | None \<Rightarrow> True"
    using steps(8) by (auto split: option.splits)
  show ?thesis
    using steps(1-4,9-14) config loaded fields providers agreed unfolding provider_def s3_def
    by (intro exI [of _ path] exI [of _ storage] exI [of _ session]) (auto split: option.splits)
qed

text \<open>
  C24: A write that is created has checked everything before a file is written: it has a
  column, the destination is valid and not the root of its storage, its schema can be
  rewritten for storage, whatever the batches, to the schema its indexes were validated
  against, and an append agrees with an existing dataset on its generated columns. No
  transaction is pending, and each scheme of the session is served by one provider with the
  write's S3 configuration and policy; no dataset is assumed only when Lance found none.
\<close>

theorem dataset_create_outcome:
  assumes "dataset_create S E destination s w = Ok (W, sh)"
  shows "\<exists>path storage session. destination = Some path
    \<and> from_path S path (if is_s3_uri path then wo_s3_config w else None) (wo_opendal_config w) = Ok storage
    \<and> st_object_path storage \<noteq> [] \<and> dw_uri W = url_str (st_location storage)
    \<and> schema_fields s \<noteq> [] \<and> validate_schema (le_arrow E) s = Ok () \<and> dw_schema W = s \<and> dw_options W = w
    \<and> (\<forall>items. \<exists>out items'. configure_column_storage E (s, items) w = Ok (out, items')
        \<and> index_plan_new (le_arrow E) out (wo_indexes w) = Ok (dw_indexes W))
    \<and> wp_session (dw_params W) = Some session
    \<and> (\<forall>scheme\<in>set STORE_SCHEMES. map_of session scheme = Some (store_provider_new (wo_s3_config w) (wo_opendal_config w)))
    \<and> (case dw_dataset W of
         Some d \<Rightarrow> le_load E session (dw_uri W) = Ok d
           \<and> (wo_mode w = ModeAppend \<longrightarrow> validate_generated_columns (le_fields E d) s = Ok ())
       | None \<Rightarrow> le_load E session (dw_uri W) \<in> {Err DatasetNotFound, Err NotFound})
    \<and> sh = \<lparr>sw_rows_written = 0, sw_transactions = []\<rparr>"
  by (rule created_write [OF assms])

definition lance_ref :: "(unit, unit record_batch list, unit, unit) lance_env" where
  "lance_ref = \<lparr>le_arrow = arrow_ref, le_arrays = array_ref (), le_blob = lance_blob_ref,
     le_index = \<lparr>ix_count_rows = (\<lambda>_. Ok 0), ix_create_index = (\<lambda>d _ _. Ok d)\<rparr>,
     le_load = (\<lambda>_ _. Err NotFound), le_fields = (\<lambda>_. []), le_parse_version = Ok,
     le_early = (\<lambda>_ _ _ items. if list_all is_ok items then None else Some (Returned (Err ''stream''))),
     le_end = (\<lambda>target p _ items. Returned (if \<not> list_all is_ok items then Err ''stream''
        else Ok \<lparr>tx_operation = (if wp_mode p = ModeAppend \<and> target = Existing () then OpAppend [ok_batches items]
                 else OpOverwrite [ok_batches items] ()), tx_rest = ()\<rparr>)),
     le_commit = (\<lambda>_ _ _ _. Ok ()), le_stats = (0, 0)\<rparr>"

lemma lance_ref_documented: "insert_documented id (\<lambda>b. [b]) lance_ref"
  by (auto simp: insert_documented_def lance_ref_def tx_holds_def tx_kind_defs appends_def split: if_splits)

definition notes_schema :: schema where
  "notes_schema = \<lparr>schema_fields = [Field ''note'' Utf8 True []], schema_metadata = []\<rparr>"

definition notes_write :: "unit dataset_write" where
  "notes_write = \<lparr>dw_uri = ''file:///work/out.lance'', dw_dataset = None,
     dw_params = \<lparr>wp_mode = ModeCreate, wp_max_bytes_per_file = DEFAULT_TARGET_FILE_SIZE,
       wp_data_storage_version = Some DEFAULT_STORAGE_VERSION, wp_external_blob_mode = BlobReference,
       wp_session = Some (map (\<lambda>scheme. (scheme, store_provider_new None opendal_config_default)) STORE_SCHEMES)\<rparr>,
     dw_options = write_options_default, dw_schema = notes_schema, dw_indexes = \<lparr>ip_indexes = []\<rparr>\<rparr>"

lemma notes_created: "dataset_create (storage_ref []) lance_ref (Some ''out.lance'') notes_schema write_options_default
    = Ok (notes_write, \<lparr>sw_rows_written = 0, sw_transactions = []\<rparr>)"
proof -
  have "\<not> is_s3_uri ''out.lance''" by code_simp
  then have path: "\<exists>st. from_path (storage_ref []) ''out.lance'' None opendal_config_default = Ok st
      \<and> st_object_path st = ''work/out.lance'' \<and> url_str (st_location st) = ''file:///work/out.lance''"
    by (simp add: from_path_def from_local_path_def path_is_absolute_def path_push_def operator_new_def
        trim_start_slashes_def context_of_def validate_Ok default_config_sound result_simps)
      (simp add: storage_ref_def)
  have stored: "configure_column_storage lance_ref (empty_stream notes_schema) write_options_default = Ok (notes_schema, [])"
    by (simp add: configure_column_storage_def empty_stream_def stored_schema_def lance_ref_def blob_schema_def
        blob_options_of_def write_options_default_def DEFAULT_BLOB_DEDICATED_SIZE_THRESHOLD_def notes_schema_def
        stored_field_def is_binary_def configure_field.simps is_blob_def configure_column_encoding_def new_with_metadata_def)
  have valid: "validate_schema arrow_ref notes_schema = Ok ()"
    by (simp add: validate_schema_def notes_schema_def validate_type.simps)
  have defaults: "wo_s3_config write_options_default = None" "wo_mode write_options_default = ModeCreate"
    "wo_opendal_config write_options_default = opendal_config_default" "wo_indexes write_options_default = []"
    "wo_target_file_size write_options_default = DEFAULT_TARGET_FILE_SIZE"
    "wo_storage_version write_options_default = DEFAULT_STORAGE_VERSION" "wo_blob_columns write_options_default = []"
    by (simp_all add: write_options_default_def)
  have index: "index_plan_new arrow_ref notes_schema [] = Ok \<lparr>ip_indexes = []\<rparr>"
    by (simp add: index_plan_new_def)
  have env: "le_arrow lance_ref = arrow_ref" "le_load lance_ref = (\<lambda>_ _. Err NotFound)" "le_parse_version lance_ref = Ok"
    by (simp_all add: lance_ref_def)
  show ?thesis
    using path by (auto simp: dataset_create_def valid defaults stored index env open_destination_def Let_def notes_write_def)
qed

theorem dataset_create_outcome_witness:
  "\<exists>W. dataset_create (storage_ref []) lance_ref (Some ''out.lance'') notes_schema write_options_default
      = Ok (W, \<lparr>sw_rows_written = 0, sw_transactions = []\<rparr>) \<and> validate_schema arrow_ref notes_schema = Ok ()"
proof -
  obtain W where W: "dataset_create (storage_ref []) lance_ref (Some ''out.lance'') notes_schema write_options_default
      = Ok (W, \<lparr>sw_rows_written = 0, sw_transactions = []\<rparr>)" using notes_created by blast
  have "validate_schema (le_arrow lance_ref) notes_schema = Ok ()"
    using dataset_create_outcome [OF W] by blast
  with W show ?thesis by (auto simp: lance_ref_def)
qed

end
