(* ===== verification/Fragment.thy ===== *)
theory Fragment
  imports DatasetWrite
begin

text \<open>
  \<open>rust/src/sink/lance/fragment.rs\<close>: one fragment writer, a task that writes data files from
  the batches a caller sends it over a channel of one slot. The handlers of
  \<open>LanceFragmentWriter\<close> are functions of the state; what their awaits yield (whether a send
  succeeded, what the joined task returned) are arguments, and the step relations below say
  which values these can take: a caller and a task that run concurrently over the channel.
  The sender and the task handle that \<open>SinkState\<close> owns are fields of the whole
  configuration.
\<close>

datatype 'b message = Batch 'b | Finish

text \<open>The stream the task reads, from the messages sent before the sender was dropped.\<close>

definition ABORTED :: string where
  "ABORTED = ''Arrow error: Compute error: conversion aborted before finish''"

fun batch_stream :: "'b message list \<Rightarrow> ('b, string) result list" where
  "batch_stream [] = [Err ABORTED]"
| "batch_stream (Batch b # ms) = Ok b # batch_stream ms"
| "batch_stream (Finish # ms) = []"

datatype sink_state = Open | Closing | Finished | Failed

text \<open>The life of a writer, as an order: its two ends are not comparable.\<close>

instantiation sink_state :: order
begin

definition less_eq_sink_state :: "sink_state \<Rightarrow> sink_state \<Rightarrow> bool" where
  "s \<le> t \<longleftrightarrow> s = t \<or> s = Open \<or> s = Closing \<and> t \<noteq> Open"

definition less_sink_state :: "sink_state \<Rightarrow> sink_state \<Rightarrow> bool" where
  "s < t \<longleftrightarrow> s \<noteq> t \<and> (s = Open \<or> s = Closing \<and> t \<noteq> Open)" for s t :: sink_state

instance
  by standard (auto simp: less_eq_sink_state_def less_sink_state_def)

end

lemma sink_state_ends [simp]: "Finished \<le> t \<longleftrightarrow> t = Finished" "Failed \<le> t \<longleftrightarrow> t = Failed"
  by (auto simp: less_eq_sink_state_def)

lemma sink_state_starts [simp]: "Open \<le> t" "Closing \<le> t \<longleftrightarrow> t \<noteq> Open" "t \<le> Open \<longleftrightarrow> t = Open"
  by (auto simp: less_eq_sink_state_def)

section \<open>The handlers\<close>

type_synonym 't joined = "('t res, string) result"

definition closed_error :: error where
  "closed_error = error_message ''writer is already finished or failed''"

definition close_input :: "sink_state \<Rightarrow> sink_state" where
  "close_input st = (case st of Open \<Rightarrow> Closing | _ \<Rightarrow> st)"

definition join_worker :: "'t joined \<Rightarrow> sink_state \<Rightarrow> 't res \<times> sink_state" where
  "join_worker j st = (case st of
     Closing \<Rightarrow> (and_then (context_of ''Lance writer task failed'' j join_error) (\<lambda>result. result), Failed)
   | _ \<Rightarrow> (Err (error_message ''writer is closed''), st))"

definition abort_writer :: "'t joined \<Rightarrow> sink_state \<Rightarrow> sink_state" where
  "abort_writer j st = (let closed = close_input st in
     if closed = Closing then snd (join_worker j closed) else closed)"

definition write_batch :: "schema \<Rightarrow> schema \<Rightarrow> bool \<Rightarrow> 't joined \<Rightarrow> sink_state \<Rightarrow> unit res \<times> sink_state" where
  "write_batch s batch_schema sent j st =
     (if st \<noteq> Open then (Err closed_error, st)
      else if batch_schema \<noteq> s
        then (Err (error_message ''batch schema does not match the conversion schema''), abort_writer j st)
      else if \<not> sent
        then (case join_worker j (close_input st) of
            (Err e, st') \<Rightarrow> (Err e, st')
          | (Ok _, st') \<Rightarrow> (Err (error_message ''Lance writer stopped before accepting a batch''), st'))
      else (Ok (), st))"

definition finish ::
  "bool \<Rightarrow> 't joined \<Rightarrow> sink_state \<Rightarrow> 't shared_write \<Rightarrow> unit res \<times> sink_state \<times> 't shared_write" where
  "finish sent j st sh =
     (if st \<noteq> Open then (Err closed_error, st, sh)
      else (case join_worker j (close_input st) of
          (Err e, st') \<Rightarrow> (Err e, st', sh)
        | (Ok t, st') \<Rightarrow>
            (if \<not> sent then (Err (error_message ''Lance writer stopped before finish''), st', sh)
             else (Ok (), Finished, add_transaction t sh))))"

section \<open>The task\<close>

text \<open>
  The task starts by configuring the storage of its stream, polls it as Lance asks for items,
  and lets go of it when it has the result: from then on a send fails. It may be cancelled
  at any time, with the runtime.
\<close>

datatype 't worker = Starting | Polling schema | Returning "'t joined" | Ended "'t joined"

datatype pending = PendingWrite schema | PendingFinish bool | PendingAbort

record ('p, 't) fragment =
  fg_state :: sink_state
  fg_sender :: bool
  fg_queue :: "'p record_batch message list"
  fg_received :: "'p record_batch message list"
  fg_worker :: "'t worker"
  fg_pending :: "pending option"

definition spawn :: "('p, 't) fragment" where
  "spawn = \<lparr>fg_state = Open, fg_sender = True, fg_queue = [], fg_received = [], fg_worker = Starting, fg_pending = None\<rparr>"

fun batches_of :: "'b message list \<Rightarrow> 'b list" where
  "batches_of [] = []"
| "batches_of (Batch b # ms) = b # batches_of ms"
| "batches_of (Finish # ms) = []"

definition store_item :: "('p, 'f, 'x, 'd) lance_env \<Rightarrow> 'd dataset_write \<Rightarrow> schema \<Rightarrow> 'p item \<Rightarrow> 'p item" where
  "store_item E W out = (if out = dw_schema W then (\<lambda>i. i) else stored_item E (dw_schema W) out)"

definition early_stop ::
  "('p, 'f, 'x, 'd) lance_env \<Rightarrow> 'd dataset_write \<Rightarrow> schema \<Rightarrow> 'p item list \<Rightarrow> ('f, 'x) transaction outcome option" where
  "early_stop E W out items = le_early E (write_target W) (dw_params W) out (map (store_item E W out) items)"

definition at_end ::
  "('p, 'f, 'x, 'd) lance_env \<Rightarrow> 'd dataset_write \<Rightarrow> schema \<Rightarrow> 'p item list \<Rightarrow> ('f, 'x) transaction outcome" where
  "at_end E W out items = le_end E (write_target W) (dw_params W) out (map (store_item E W out) items)"

definition receiver_alive :: "'t worker \<Rightarrow> bool" where
  "receiver_alive w = (case w of Starting \<Rightarrow> True | Polling _ \<Rightarrow> True | _ \<Rightarrow> False)"

inductive worker_step ::
  "('p, 'f, 'x, 'd) lance_env \<Rightarrow> 'd dataset_write \<Rightarrow>
   ('p, ('f, 'x) transaction) fragment \<times> ('f, 'x) transaction shared_write \<Rightarrow>
   ('p, ('f, 'x) transaction) fragment \<times> ('f, 'x) transaction shared_write \<Rightarrow> bool"
  for E W where
  refuse: "fg_worker g = Starting \<Longrightarrow> stored_schema (le_arrow E) (le_blob E) (dw_schema W) (dw_options W) = Err e \<Longrightarrow>
    worker_step E W (g, sh) (g\<lparr>fg_worker := Returning (Ok (Err e))\<rparr>, sh)"
| start: "fg_worker g = Starting \<Longrightarrow> stored_schema (le_arrow E) (le_blob E) (dw_schema W) (dw_options W) = Ok out \<Longrightarrow>
    worker_step E W (g, sh) (g\<lparr>fg_worker := Polling out\<rparr>, sh)"
| stop: "fg_worker g = Polling out \<Longrightarrow> early_stop E W out (map Ok (batches_of (fg_received g))) = Some r \<Longrightarrow>
    worker_step E W (g, sh) (g\<lparr>fg_worker := Returning (Ok (insert_result W r))\<rparr>, sh)"
| receive: "fg_worker g = Polling out \<Longrightarrow> early_stop E W out (map Ok (batches_of (fg_received g))) = None \<Longrightarrow>
    fg_queue g = Batch b # rest \<Longrightarrow>
    worker_step E W (g, sh)
      (g\<lparr>fg_queue := rest, fg_received := fg_received g @ [Batch b]\<rparr>,
       sh\<lparr>sw_rows_written := sw_rows_written sh + counted_rows [store_item E W out (Ok b)]\<rparr>)"
| complete: "fg_worker g = Polling out \<Longrightarrow> early_stop E W out (map Ok (batches_of (fg_received g))) = None \<Longrightarrow>
    fg_queue g = Finish # rest \<Longrightarrow>
    worker_step E W (g, sh)
      (g\<lparr>fg_queue := rest, fg_received := fg_received g @ [Finish],
         fg_worker := Returning (Ok (insert_result W (at_end E W out (map Ok (batches_of (fg_received g))))))\<rparr>, sh)"
| aborted: "fg_worker g = Polling out \<Longrightarrow> early_stop E W out (map Ok (batches_of (fg_received g))) = None \<Longrightarrow>
    fg_queue g = [] \<Longrightarrow> \<not> fg_sender g \<Longrightarrow> items = map Ok (batches_of (fg_received g)) @ [Err ABORTED] \<Longrightarrow>
    worker_step E W (g, sh)
      (g\<lparr>fg_worker := Returning (Ok (insert_result W
         (case early_stop E W out items of Some r \<Rightarrow> r | None \<Rightarrow> at_end E W out items)))\<rparr>, sh)"
| return: "fg_worker g = Returning j \<Longrightarrow> worker_step E W (g, sh) (g\<lparr>fg_worker := Ended j\<rparr>, sh)"
| cancelled: "\<forall>j. fg_worker g \<noteq> Ended j \<Longrightarrow> worker_step E W (g, sh) (g\<lparr>fg_worker := Ended (Err e)\<rparr>, sh)"

text \<open>
  The caller. An operation that waits for the task is pending until the task has ended; its
  handler then runs with what it awaited. A pending operation may be dropped, and so may
  the writer.
\<close>

fun resume :: "'d dataset_write \<Rightarrow> pending \<Rightarrow> 't joined \<Rightarrow> sink_state \<Rightarrow> 't shared_write \<Rightarrow> sink_state \<times> 't shared_write" where
  "resume W (PendingWrite s) j st sh = (snd (write_batch (dw_schema W) s False j st), sh)"
| "resume W (PendingFinish sent) j st sh = snd (finish sent j st sh)"
| "resume W PendingAbort j st sh = (abort_writer j st, sh)"

inductive client_step ::
  "'d dataset_write \<Rightarrow> ('p, 't) fragment \<times> 't shared_write \<Rightarrow> ('p, 't) fragment \<times> 't shared_write \<Rightarrow> bool"
  for W where
  send: "fg_state g = Open \<Longrightarrow> fg_pending g = None \<Longrightarrow> rb_schema b = dw_schema W \<Longrightarrow>
    receiver_alive (fg_worker g) \<Longrightarrow> fg_queue g = [] \<Longrightarrow>
    client_step W (g, sh) (g\<lparr>fg_queue := [Batch b]\<rparr>, sh)"
| reject: "fg_state g = Open \<Longrightarrow> fg_pending g = None \<Longrightarrow>
    s \<noteq> dw_schema W \<or> \<not> receiver_alive (fg_worker g) \<Longrightarrow>
    client_step W (g, sh) (g\<lparr>fg_sender := False, fg_pending := Some (PendingWrite s)\<rparr>, sh)"
| send_finish: "fg_state g = Open \<Longrightarrow> fg_pending g = None \<Longrightarrow> receiver_alive (fg_worker g) \<Longrightarrow> fg_queue g = [] \<Longrightarrow>
    client_step W (g, sh) (g\<lparr>fg_queue := [Finish], fg_sender := False, fg_pending := Some (PendingFinish True)\<rparr>, sh)"
| miss_finish: "fg_state g = Open \<Longrightarrow> fg_pending g = None \<Longrightarrow> \<not> receiver_alive (fg_worker g) \<Longrightarrow>
    client_step W (g, sh) (g\<lparr>fg_sender := False, fg_pending := Some (PendingFinish False)\<rparr>, sh)"
| abort: "fg_state g \<in> {Open, Closing} \<Longrightarrow> fg_pending g = None \<Longrightarrow>
    client_step W (g, sh) (g\<lparr>fg_sender := False, fg_pending := Some PendingAbort\<rparr>, sh)"
| join: "fg_pending g = Some op \<Longrightarrow> fg_worker g = Ended j \<Longrightarrow> resume W op j (fg_state g) sh = (st, sh') \<Longrightarrow>
    client_step W (g, sh) (g\<lparr>fg_state := st, fg_pending := None\<rparr>, sh')"
| drop_operation: "fg_pending g = Some op \<Longrightarrow>
    client_step W (g, sh) (g\<lparr>fg_state := close_input (fg_state g), fg_pending := None\<rparr>, sh)"
| drop_writer: "fg_state g \<noteq> Finished \<Longrightarrow>
    client_step W (g, sh) (g\<lparr>fg_sender := False, fg_state := Failed, fg_pending := None\<rparr>, sh)"

definition fragment_step ::
  "('p, 'f, 'x, 'd) lance_env \<Rightarrow> 'd dataset_write \<Rightarrow>
   ('p, ('f, 'x) transaction) fragment \<times> ('f, 'x) transaction shared_write \<Rightarrow>
   ('p, ('f, 'x) transaction) fragment \<times> ('f, 'x) transaction shared_write \<Rightarrow> bool" where
  "fragment_step E W c c' \<longleftrightarrow> worker_step E W c c' \<or> client_step W c c'"

inductive_cases worker_stepE: "worker_step E W (g, sh) (g', sh')"
inductive_cases client_stepE: "client_step W (g, sh) (g', sh')"

lemmas worker_step_elim = worker_stepE
  [consumes 1, case_names refuse start stop receive complete aborted return cancelled]
lemmas client_step_elim = client_stepE
  [consumes 1, case_names send reject send_finish miss_finish abort join drop_operation drop_writer]

section \<open>Streams of messages\<close>

lemma batch_stream_eq: "batch_stream ms = map Ok (batches_of ms) @ (if Finish \<in> set ms then [] else [Err ABORTED])"
  by (induction ms rule: batches_of.induct) auto

lemma batches_of_append: "Finish \<notin> set ms \<Longrightarrow> batches_of (ms @ ms') = batches_of ms @ batches_of ms'"
  by (induction ms rule: batches_of.induct) auto

lemma batches_of_finish: "batches_of (ms @ [Finish]) = batches_of ms"
  by (induction ms rule: batches_of.induct) auto

definition finishing :: "'b message list \<Rightarrow> bool" where
  "finishing ms \<longleftrightarrow> (\<exists>bs. ms = map Batch bs @ [Finish])"

lemma batches_of_map [simp]: "batches_of (map Batch bs) = bs" "batches_of (map Batch bs @ [Finish]) = bs"
  by (induction bs) simp_all

lemma no_finish_iff: "Finish \<notin> set ms \<longleftrightarrow> (\<exists>bs. ms = map Batch bs)"
proof
  assume "Finish \<notin> set ms"
  then have "ms = map Batch (batches_of ms)" by (induction ms rule: batches_of.induct) auto
  then show "\<exists>bs. ms = map Batch bs" by blast
qed auto

lemma finishing_snoc: "finishing (ms @ [m]) \<longleftrightarrow> Finish \<notin> set ms \<and> m = Finish"
  by (auto simp: finishing_def no_finish_iff)

section \<open>The task computes \<open>write_fragments\<close>\<close>

lemma insert_run_map: "insert_run early ended (map f polled) (map f items)
    = (case insert_run (\<lambda>xs. early (map f xs)) (\<lambda>xs. ended (map f xs)) polled items of (p, r) \<Rightarrow> (map f p, r))"
proof (induction items arbitrary: polled)
  case (Cons i items)
  show ?case using Cons.IH [of "polled @ [i]"]
    by (simp add: insert_run.simps [where items = "i # items"] insert_run.simps [where items = "f i # map f items"]
        split: option.splits)
qed (simp add: insert_run.simps [where items = "[]"] split: option.splits)

lemma insert_run_passes:
  "\<forall>k<length xs. early (polled @ take k xs) = None \<Longrightarrow>
    insert_run early ended polled (xs @ ys) = insert_run early ended (polled @ xs) ys"
proof (induction xs arbitrary: polled)
  case (Cons x xs)
  have "early polled = None" using Cons.prems by (auto dest: spec [of _ 0])
  moreover have "\<forall>k<length xs. early ((polled @ [x]) @ take k xs) = None"
    using Cons.prems by (auto dest: spec [of _ "Suc _"])
  ultimately show ?case
    using Cons.IH [of "polled @ [x]"] by (simp add: insert_run.simps [where items = "x # xs @ ys"])
qed simp

lemma configure_items: "stored_schema (le_arrow E) (le_blob E) (dw_schema W) (dw_options W) = Ok out \<Longrightarrow>
    configure_column_storage E (dw_schema W, items) (dw_options W) = Ok (out, map (store_item E W out) items)"
  by (auto simp: configure_column_storage_def store_item_def)

lemma write_fragments_items:
  assumes "stored_schema (le_arrow E) (le_blob E) (dw_schema W) (dw_options W) = Ok out"
  shows "fst (write_fragments E W (dw_schema W, items))
    = insert_result W (snd (insert_run (early_stop E W out) (at_end E W out) [] items))"
  using insert_run_map [of "le_early E (write_target W) (dw_params W) out" "le_end E (write_target W) (dw_params W) out"
      "store_item E W out" "[]" items]
  by (simp add: write_fragments_def configure_items [OF assms] early_stop_def [abs_def] at_end_def [abs_def]
      split: prod.splits)

text \<open>The task has not been stopped by Lance on any part of what it received.\<close>

definition unstopped :: "('p, 'f, 'x, 'd) lance_env \<Rightarrow> 'd dataset_write \<Rightarrow> schema \<Rightarrow> 'p record_batch list \<Rightarrow> bool" where
  "unstopped E W out bs \<longleftrightarrow> (\<forall>k<length bs. early_stop E W out (take k (map Ok bs)) = None)"

lemma unstopped_snoc: "unstopped E W out (bs @ [b]) \<longleftrightarrow> unstopped E W out bs \<and> early_stop E W out (map Ok bs) = None"
  by (auto simp: unstopped_def less_Suc_eq)

lemma write_fragments_unstopped:
  assumes "stored_schema (le_arrow E) (le_blob E) (dw_schema W) (dw_options W) = Ok out" "unstopped E W out bs"
  shows "fst (write_fragments E W (dw_schema W, map Ok bs @ rest))
    = insert_result W (snd (insert_run (early_stop E W out) (at_end E W out) (map Ok bs) rest))"
  using insert_run_passes [of "map Ok bs" "early_stop E W out" "[]" "at_end E W out" rest] assms(2)
  by (simp add: write_fragments_items [OF assms(1)] unstopped_def)

text \<open>The result of the task by what it polls next: nothing, as Lance stops, the end, or the abort.\<close>

lemma write_fragments_result:
  assumes "stored_schema (le_arrow E) (le_blob E) (dw_schema W) (dw_options W) = Ok out" "unstopped E W out bs"
  shows "early_stop E W out (map Ok bs) = Some r \<Longrightarrow> fst (write_fragments E W (dw_schema W, map Ok bs @ rest)) = insert_result W r"
    and "early_stop E W out (map Ok bs) = None \<Longrightarrow>
      fst (write_fragments E W (dw_schema W, map Ok bs)) = insert_result W (at_end E W out (map Ok bs))"
    and "early_stop E W out (map Ok bs) = None \<Longrightarrow> items = map Ok bs @ [Err ABORTED] \<Longrightarrow>
      fst (write_fragments E W (dw_schema W, items))
        = insert_result W (case early_stop E W out items of Some r \<Rightarrow> r | None \<Rightarrow> at_end E W out items)"
  using write_fragments_unstopped [OF assms] write_fragments_unstopped [OF assms, of "[]"]
  by (simp_all add: insert_run.simps [where items = rest] insert_run.simps [where items = "[Err ABORTED]"]
      insert_run.simps [where items = "[]"] split: option.splits)

section \<open>Invariant of a fragment writer\<close>

definition sent :: "('p, 't) fragment \<Rightarrow> 'p record_batch message list" where
  "sent g = fg_received g @ fg_queue g"

text \<open>What the task has by now: the result of the whole write, once it has one.\<close>

definition worker_inv ::
  "('p, 'f, 'x, 'd) lance_env \<Rightarrow> 'd dataset_write \<Rightarrow> ('p, ('f, 'x) transaction) fragment \<Rightarrow> bool" where
  "worker_inv E W g \<longleftrightarrow> (case fg_worker g of
     Starting \<Rightarrow> fg_received g = []
   | Polling out \<Rightarrow> stored_schema (le_arrow E) (le_blob E) (dw_schema W) (dw_options W) = Ok out
       \<and> Finish \<notin> set (fg_received g) \<and> unstopped E W out (batches_of (fg_received g))
   | Returning j \<Rightarrow> j = Ok (fst (write_fragments E W (dw_schema W, batch_stream (fg_received g))))
   | Ended j \<Rightarrow> (\<forall>r. j = Ok r \<longrightarrow> r = fst (write_fragments E W (dw_schema W, batch_stream (fg_received g)))))"

definition client_inv :: "('p, 't) fragment \<Rightarrow> bool" where
  "client_inv g \<longleftrightarrow> length (fg_queue g) \<le> 1
     \<and> (Finish \<notin> set (sent g) \<or> finishing (sent g))
     \<and> (fg_sender g \<longrightarrow> Finish \<notin> set (sent g))
     \<and> (fg_state g = Open \<and> fg_pending g = None \<longleftrightarrow> fg_sender g)
     \<and> (fg_pending g = Some (PendingFinish True) \<longrightarrow> finishing (sent g))
     \<and> (fg_pending g \<noteq> None \<longrightarrow> fg_state g \<in> {Open, Closing})
     \<and> (fg_state g = Finished \<longrightarrow> finishing (sent g) \<and> (\<exists>t. fg_worker g = Ended (Ok (Ok t))))"

lemma worker_step_inv:
  assumes "worker_step E W (g, sh) (g', sh')" "worker_inv E W g" "client_inv g"
  shows "worker_inv E W g' \<and> client_inv g' \<and> sent g' = sent g \<and> fg_state g' = fg_state g
    \<and> fg_pending g' = fg_pending g \<and> sw_transactions sh' = sw_transactions sh"
  using assms(1)
proof (cases rule: worker_step_elim)
  case (refuse e)
  with assms(2,3) show ?thesis
    by (auto simp: worker_inv_def client_inv_def sent_def write_fragments_def configure_column_storage_def)
next
  case (start out)
  with assms(2,3) show ?thesis by (auto simp: worker_inv_def client_inv_def sent_def unstopped_def)
next
  case (stop out r)
  with assms(2) have "stored_schema (le_arrow E) (le_blob E) (dw_schema W) (dw_options W) = Ok out"
    "unstopped E W out (batches_of (fg_received g))" by (simp_all add: worker_inv_def)
  from write_fragments_result(1) [OF this] stop assms(2,3) show ?thesis
    by (auto simp: worker_inv_def client_inv_def sent_def batch_stream_eq)
next
  case (receive out b rest)
  then show ?thesis using assms(2,3)
    by (auto simp: worker_inv_def client_inv_def sent_def batches_of_append unstopped_snoc)
next
  case (complete out rest)
  with assms(2) have "stored_schema (le_arrow E) (le_blob E) (dw_schema W) (dw_options W) = Ok out"
    "unstopped E W out (batches_of (fg_received g))" by (simp_all add: worker_inv_def)
  from write_fragments_result(2) [OF this] complete assms(2,3) show ?thesis
    by (auto simp: worker_inv_def client_inv_def sent_def batch_stream_eq batches_of_finish)
next
  case (aborted out)
  with assms(2) have "stored_schema (le_arrow E) (le_blob E) (dw_schema W) (dw_options W) = Ok out"
    "unstopped E W out (batches_of (fg_received g))" "Finish \<notin> set (fg_received g)" by (simp_all add: worker_inv_def)
  from write_fragments_result(3) [OF this(1,2)] this(3) aborted assms(2,3) show ?thesis
    by (auto simp: worker_inv_def client_inv_def sent_def batch_stream_eq)
next
  case (return j)
  with assms(2,3) show ?thesis by (auto simp: worker_inv_def client_inv_def sent_def)
next
  case (cancelled e)
  with assms(2,3) show ?thesis by (auto simp: worker_inv_def client_inv_def sent_def)
qed

section \<open>What a finished writer adds\<close>

text \<open>The rows Lance stores for a list of batches of the write's schema.\<close>

definition stored_rows ::
  "('p record_batch \<Rightarrow> 'r list) \<Rightarrow> ('p, 'f, 'x, 'd) lance_env \<Rightarrow> 'd dataset_write \<Rightarrow> 'p record_batch list \<Rightarrow> 'r list" where
  "stored_rows B E W bs = (case configure_column_storage E (dw_schema W, map Ok bs) (dw_options W) of
     Ok (_, items) \<Rightarrow> concat (map B (ok_batches items)) | Err _ \<Rightarrow> [])"

lemma store_item_Err [simp]: "store_item E W out (Err e) = Err e"
  by (simp add: store_item_def stored_item_def)

lemma ended_with_transaction:
  assumes "insert_documented F B E" "worker_inv E W g" "client_inv g" "fg_worker g = Ended (Ok (Ok t))"
  shows "finishing (sent g) \<and> sent g = fg_received g \<and> carries F W (stored_rows B E W (batches_of (sent g))) t"
proof -
  let ?ms = "fg_received g"
  obtain n where run: "write_fragments E W (dw_schema W, batch_stream ?ms) = (Ok t, n)"
    using assms(2,4) by (cases "write_fragments E W (dw_schema W, batch_stream ?ms)") (auto simp: worker_inv_def)
  from write_fragments_Ok [OF assms(1) run] obtain out items where items:
    "configure_column_storage E (dw_schema W, batch_stream ?ms) (dw_options W) = Ok (out, items)"
    "tx_holds F B (write_target W) (dw_params W) items t" .
  then have stored: "stored_schema (le_arrow E) (le_blob E) (dw_schema W) (dw_options W) = Ok out"
    by (auto simp: configure_column_storage_def result_simps split: if_splits)
  then have eq: "items = map (store_item E W out) (batch_stream ?ms)" using items(1) configure_items [OF stored] by simp
  have finish: "Finish \<in> set ?ms"
  proof (rule ccontr)
    assume "Finish \<notin> set ?ms"
    then have "Err ABORTED \<in> set items" by (force simp: eq batch_stream_eq image_iff)
    with items(2) show False by (auto simp: tx_holds_def list_all_iff)
  qed
  then have fin: "finishing (sent g)" using assms(3) by (auto simp: client_inv_def sent_def)
  then obtain bs where bs: "?ms @ fg_queue g = map Batch bs @ [Finish]" by (auto simp: finishing_def sent_def)
  have "fg_queue g = []"
  proof (cases "fg_queue g" rule: rev_cases)
    case (snoc q m)
    with bs have "?ms @ q = map Batch bs" by simp
    with finish show ?thesis by (metis UnI1 no_finish_iff set_append)
  qed
  then have sent: "sent g = ?ms" by (simp add: sent_def)
  have "batch_stream ?ms = map Ok (batches_of ?ms)" using finish by (simp add: batch_stream_eq)
  then have "stored_rows B E W (batches_of ?ms) = concat (map B (ok_batches items))"
    using items(1) by (simp add: stored_rows_def)
  with items(2) fin sent show ?thesis by (simp add: tx_holds_carries)
qed

lemma finish_cases:
  assumes "finish was_sent j st sh = (r, st', sh')"
  shows "(was_sent \<and> st = Open \<and> st' = Finished \<and> r = Ok () \<and> (\<exists>t. j = Ok (Ok t) \<and> sh' = add_transaction t sh))
    \<or> ((\<exists>e. r = Err e) \<and> sh' = sh \<and> st' = (if st = Open then Failed else st))"
  using assms
  by (cases j) (auto simp: finish_def join_worker_def close_input_def result_simps context_of_def
      split: if_splits result.splits)

lemma write_batch_state: "snd (write_batch s s' False j st) = (if st = Open then Failed else st)"
  by (simp add: write_batch_def abort_writer_def join_worker_def close_input_def Let_def split: result.splits)

lemma abort_writer_state: "abort_writer j st = (if st = Open \<or> st = Closing then Failed else st)"
  by (cases st) (simp_all add: abort_writer_def join_worker_def close_input_def)

text \<open>How an operation ends that was waiting for the task: it closes the writer, or finds it closed.\<close>

lemma resume_outcome:
  assumes "resume W op j st sh = (st', sh')"
  shows "(sh' = sh \<and> st' = st \<and> st \<noteq> Open)
    \<or> (sh' = sh \<and> st' = Failed \<and> st \<in> {Open, Closing})
    \<or> (op = PendingFinish True \<and> st = Open \<and> st' = Finished \<and> (\<exists>t. j = Ok (Ok t) \<and> sh' = add_transaction t sh))"
proof (cases op)
  case (PendingFinish was_sent)
  with assms obtain r where "finish was_sent j st sh = (r, st', sh')" by (cases "finish was_sent j st sh") auto
  from finish_cases [OF this] PendingFinish show ?thesis by (auto split: if_splits)
qed (use assms in \<open>auto simp: write_batch_state abort_writer_state split: if_splits\<close>)

text \<open>How a step of the caller changes what the writer holds and what the write has pending.\<close>

datatype 'b effect = Silent | Sends 'b | Seals | Loses

definition client_effect ::
  "('f \<Rightarrow> 'r list) \<Rightarrow> ('p record_batch \<Rightarrow> 'r list) \<Rightarrow> ('p, 'f, 'x, 'd) lance_env \<Rightarrow> 'd dataset_write \<Rightarrow>
   ('p, ('f, 'x) transaction) fragment \<Rightarrow> ('f, 'x) transaction list \<Rightarrow> 'p record_batch effect \<Rightarrow>
   ('p, ('f, 'x) transaction) fragment \<Rightarrow> ('f, 'x) transaction list \<Rightarrow> bool" where
  "client_effect F B E W g ts e g' ts' \<longleftrightarrow> (case e of
     Silent \<Rightarrow> batches_of (sent g') = batches_of (sent g) \<and> ts' = ts
       \<and> (fg_state g' = fg_state g \<or> fg_state g = Open \<and> fg_state g' = Closing)
   | Sends b \<Rightarrow> batches_of (sent g') = batches_of (sent g) @ [b] \<and> ts' = ts \<and> fg_state g = Open \<and> fg_state g' = Open
   | Seals \<Rightarrow> batches_of (sent g') = batches_of (sent g) \<and> fg_state g = Open \<and> fg_state g' = Finished
       \<and> (\<exists>t. ts' = ts @ [t] \<and> carries F W (stored_rows B E W (batches_of (sent g))) t)
   | Loses \<Rightarrow> batches_of (sent g') = batches_of (sent g) \<and> ts' = ts \<and> fg_state g \<in> {Open, Closing} \<and> fg_state g' = Failed)"

text \<open>Whatever the effect, the state only moves forward.\<close>

lemma client_effect_forward:
  assumes "client_effect F B E W g ts e g' ts'"
  shows "fg_state g \<le> fg_state g'"
  using assms by (cases e) (auto simp: client_effect_def)

lemma join_step_inv:
  assumes "resume W op j (fg_state g) sh = (st, sh')" "fg_pending g = Some op" "fg_worker g = Ended j"
    "g' = g\<lparr>fg_state := st, fg_pending := None\<rparr>" "insert_documented F B E" "worker_inv E W g" "client_inv g"
  shows "worker_inv E W g' \<and> client_inv g' \<and> sw_rows_written sh' = sw_rows_written sh \<and> fg_received g' = fg_received g
    \<and> (\<exists>e. client_effect F B E W g (sw_transactions sh) e g' (sw_transactions sh'))"
proof -
  have keep: "worker_inv E W g'" "fg_received g' = fg_received g" "sent g' = sent g"
    using assms by (simp_all add: worker_inv_def sent_def)
  from resume_outcome [OF assms(1)] show ?thesis
  proof (elim disjE conjE exE)
    assume same: "sh' = sh" "st = fg_state g" "fg_state g \<noteq> Open"
    then have "client_effect F B E W g (sw_transactions sh) Silent g' (sw_transactions sh')"
      using assms keep by (simp add: client_effect_def)
    with keep assms same show ?thesis by (auto simp: client_inv_def sent_def)
  next
    assume lost: "sh' = sh" "st = Failed" "fg_state g \<in> {Open, Closing}"
    then have "client_effect F B E W g (sw_transactions sh) Loses g' (sw_transactions sh')"
      using assms keep by (auto simp: client_effect_def)
    with keep assms lost show ?thesis by (auto simp: client_inv_def sent_def)
  next
    fix t
    assume ok: "op = PendingFinish True" "fg_state g = Open" "st = Finished" "j = Ok (Ok t)" "sh' = add_transaction t sh"
    note sealed = ended_with_transaction [OF assms(5-7), of t]
    have "client_effect F B E W g (sw_transactions sh) Seals g' (sw_transactions sh')"
      using assms ok sealed keep by (auto simp: client_effect_def add_transaction_def)
    with keep assms ok sealed show ?thesis by (auto simp: client_inv_def sent_def add_transaction_def)
  qed
qed

lemma client_step_inv:
  assumes "client_step W (g, sh) (g', sh')" "insert_documented F B E" "worker_inv E W g" "client_inv g"
  shows "worker_inv E W g' \<and> client_inv g' \<and> sw_rows_written sh' = sw_rows_written sh \<and> fg_received g' = fg_received g
    \<and> (\<exists>e. client_effect F B E W g (sw_transactions sh) e g' (sw_transactions sh'))"
  using assms(1)
proof (cases rule: client_step_elim)
  case (send b)
  have unfinished: "Finish \<notin> set (sent g)" using send assms(4) by (auto simp: client_inv_def)
  have "client_effect F B E W g (sw_transactions sh) (Sends b) g' (sw_transactions sh')"
    using send unfinished by (simp add: client_effect_def sent_def batches_of_append)
  with send unfinished assms(3,4) show ?thesis
    by (auto simp: client_inv_def worker_inv_def sent_def split: worker.splits)
next
  case (send_finish)
  have unfinished: "Finish \<notin> set (sent g)" using send_finish assms(4) by (auto simp: client_inv_def)
  have "client_effect F B E W g (sw_transactions sh) Silent g' (sw_transactions sh')"
    using send_finish unfinished by (simp add: client_effect_def sent_def batches_of_finish)
  moreover have "finishing (sent g')" using send_finish unfinished by (simp add: sent_def finishing_snoc)
  ultimately show ?thesis using send_finish unfinished assms(3,4)
    by (auto simp: client_inv_def worker_inv_def sent_def split: worker.splits)
next
  case (join op j st)
  then show ?thesis using assms(2-4) by (intro join_step_inv)
next
  case (drop_operation op)
  then have "client_effect F B E W g (sw_transactions sh) Silent g' (sw_transactions sh')"
    using assms(4) by (auto simp: client_effect_def sent_def client_inv_def close_input_def split: sink_state.splits)
  with drop_operation assms(3,4) show ?thesis
    by (auto simp: client_inv_def worker_inv_def sent_def close_input_def split: worker.splits sink_state.splits)
next
  case drop_writer
  then have "client_effect F B E W g (sw_transactions sh) (if fg_state g = Failed then Silent else Loses) g' (sw_transactions sh')"
    by (cases "fg_state g") (auto simp: client_effect_def sent_def)
  with drop_writer assms(3,4) show ?thesis
    by (auto simp: client_inv_def worker_inv_def sent_def split: worker.splits)
qed (use assms(3,4) in \<open>auto simp: client_inv_def worker_inv_def sent_def client_effect_def
      split: worker.splits intro!: exI [of _ Silent]\<close>)

section \<open>Closed writers and pending operations\<close>

text \<open>
  A writer is one-shot. An open writer accepts a batch exactly when it has the write's
  schema and the send succeeds, and stays open; any failure, and any end of \<open>finish\<close>, closes
  it for good, and from then on every operation returns the same error and changes nothing.
  A transaction is added exactly when \<open>finish\<close> was sent and the task returned one.
\<close>

lemma writer_is_one_shot:
  "(case write_batch s batch_schema was_sent j st of (r, st') \<Rightarrow>
      if st \<noteq> Open then r = Err closed_error \<and> st' = st
      else if batch_schema = s \<and> was_sent then r = Ok () \<and> st' = Open
      else (\<exists>e. r = Err e) \<and> st' = Failed)
   \<and> (case finish was_sent j st sh of (r, st', sh') \<Rightarrow>
      if st \<noteq> Open then r = Err closed_error \<and> st' = st \<and> sh' = sh
      else if was_sent \<and> (\<exists>t. j = Ok (Ok t))
        then r = Ok () \<and> st' = Finished \<and> (\<exists>t. j = Ok (Ok t) \<and> sh' = add_transaction t sh)
      else (\<exists>e. r = Err e) \<and> st' = Failed \<and> sh' = sh)"
proof
  show "case write_batch s batch_schema was_sent j st of (r, st') \<Rightarrow>
      if st \<noteq> Open then r = Err closed_error \<and> st' = st
      else if batch_schema = s \<and> was_sent then r = Ok () \<and> st' = Open
      else (\<exists>e. r = Err e) \<and> st' = Failed"
    by (auto simp: write_batch_def abort_writer_state join_worker_def close_input_def split: result.splits)
  show "case finish was_sent j st sh of (r, st', sh') \<Rightarrow>
      if st \<noteq> Open then r = Err closed_error \<and> st' = st \<and> sh' = sh
      else if was_sent \<and> (\<exists>t. j = Ok (Ok t))
        then r = Ok () \<and> st' = Finished \<and> (\<exists>t. j = Ok (Ok t) \<and> sh' = add_transaction t sh)
      else (\<exists>e. r = Err e) \<and> st' = Failed \<and> sh' = sh"
  proof (cases "finish was_sent j st sh")
    case (fields r st' sh')
    then show ?thesis
      by (cases j) (auto simp: finish_def join_worker_def close_input_def context_of_def split: if_splits result.splits)
  qed
qed

fun worker_rank :: "'t worker \<Rightarrow> nat" where
  "worker_rank Starting = 3"
| "worker_rank (Polling _) = 2"
| "worker_rank (Returning _) = 1"
| "worker_rank (Ended _) = 0"

definition work_left :: "('p, 't) fragment \<Rightarrow> nat" where
  "work_left g = worker_rank (fg_worker g) + length (fg_queue g)"

lemma worker_step_decreases:
  assumes "worker_step E W (g, sh) (g', sh')"
  shows "work_left g' < work_left g"
  using assms
proof (cases rule: worker_step_elim)
  case (cancelled e)
  then show ?thesis by (cases "fg_worker g") (simp_all add: work_left_def)
qed (simp_all add: work_left_def)

lemma worker_steps_bounded:
  "(worker_step E W ^^ n) (g, sh) (g', sh') \<Longrightarrow> n + work_left g' \<le> work_left g"
proof (induction n arbitrary: g' sh')
  case (Suc n)
  then obtain g1 sh1 where "(worker_step E W ^^ n) (g, sh) (g1, sh1)" "worker_step E W (g1, sh1) (g', sh')"
    by auto
  with Suc.IH [of g1 sh1] worker_step_decreases [of E W g1 sh1 g' sh'] show ?case by simp
qed simp

lemma worker_steps_inv:
  assumes "(worker_step E W ^^ n) (g, sh) (g', sh')" "worker_inv E W g" "client_inv g"
  shows "worker_inv E W g' \<and> client_inv g' \<and> fg_pending g' = fg_pending g"
  using assms(1)
proof (induction n arbitrary: g' sh')
  case (Suc n)
  then obtain g1 sh1 where one: "(worker_step E W ^^ n) (g, sh) (g1, sh1)" "worker_step E W (g1, sh1) (g', sh')"
    by auto
  with Suc.IH [OF one(1)] worker_step_inv [OF one(2)] show ?case by simp
qed (use assms(2,3) in simp)

text \<open>The steps the task takes by itself, with no cancellation.\<close>

definition advances ::
  "('p, 'f, 'x, 'd) lance_env \<Rightarrow> 'd dataset_write \<Rightarrow> ('p, ('f, 'x) transaction) fragment \<times> ('f, 'x) transaction shared_write \<Rightarrow> bool" where
  "advances E W c \<longleftrightarrow> (\<exists>g' sh'. worker_step E W c (g', sh') \<and> (\<forall>e. fg_worker g' \<noteq> Ended (Err e)))"

lemma advances_or_ended:
  assumes "worker_inv E W g" "client_inv g" "\<not> fg_sender g"
  shows "(\<exists>j. fg_worker g = Ended j) \<or> advances E W (g, sh)"
proof (cases "fg_worker g")
  case Starting
  then show ?thesis
    by (cases "stored_schema (le_arrow E) (le_blob E) (dw_schema W) (dw_options W)")
      (fastforce simp: advances_def dest: worker_step.start worker_step.refuse)+
next
  case (Polling out)
  show ?thesis
  proof (cases "early_stop E W out (map Ok (batches_of (fg_received g)))")
    case (Some r)
    with Polling show ?thesis by (fastforce simp: advances_def dest: worker_step.stop)
  next
    case None
    show ?thesis
    proof (cases "fg_queue g")
      case Nil
      with Polling None assms(3) show ?thesis by (fastforce simp: advances_def dest: worker_step.aborted)
    next
      case (Cons m rest)
      with Polling None show ?thesis
        by (cases m) (fastforce simp: advances_def dest: worker_step.receive worker_step.complete)+
    qed
  qed
next
  case (Returning j)
  then have "worker_step E W (g, sh) (g\<lparr>fg_worker := Ended j\<rparr>, sh)" "\<exists>r. j = Ok r"
    using assms(1) by (auto simp: worker_inv_def intro: worker_step.return)
  then show ?thesis by (fastforce simp: advances_def)
qed simp

lemma pending_returns:
  assumes "worker_inv E W g" "client_inv g" "fg_pending g = Some op" "(worker_step E W ^^ n) (g, sh) (g', sh')"
  shows "n \<le> 4 \<and> fg_pending g' = Some op
    \<and> (case fg_worker g' of
         Ended j \<Rightarrow> \<exists>st sh''. resume W op j (fg_state g') sh' = (st, sh'')
           \<and> client_step W (g', sh') (g'\<lparr>fg_state := st, fg_pending := None\<rparr>, sh'')
       | _ \<Rightarrow> advances E W (g', sh'))"
proof -
  note inv = worker_steps_inv [OF assms(4,1,2)]
  have "n \<le> work_left g" using worker_steps_bounded [OF assms(4)] by simp
  moreover have "work_left g \<le> 4"
    using assms(2) by (cases "fg_worker g") (simp_all add: work_left_def client_inv_def)
  moreover have "\<not> fg_sender g'" using inv assms(3) by (auto simp: client_inv_def)
  moreover have "case fg_worker g' of
      Ended j \<Rightarrow> \<exists>st sh''. resume W op j (fg_state g') sh' = (st, sh'')
        \<and> client_step W (g', sh') (g'\<lparr>fg_state := st, fg_pending := None\<rparr>, sh'')
    | _ \<Rightarrow> advances E W (g', sh')"
  proof (cases "\<exists>j. fg_worker g' = Ended j")
    case True
    then obtain j where j: "fg_worker g' = Ended j" by blast
    obtain st sh'' where "resume W op j (fg_state g') sh' = (st, sh'')" by (meson surj_pair)
    with j inv assms(3) client_step.join [of g' op j W sh' st sh''] show ?thesis by simp
  next
    case False
    with inv advances_or_ended [of E W g' sh'] \<open>\<not> fg_sender g'\<close> show ?thesis by (auto split: worker.splits)
  qed
  ultimately show ?thesis using inv assms(3) by simp
qed

end
