(* ===== verification/Simulation.thy ===== *)
theory Simulation
  imports Prelude
begin

text \<open>
  The two arguments about step relations that the components share: an invariant kept by
  every step holds in every reachable state, and a simulation step by step is one of whole
  runs, with the invariant that some abstract state simulates the concrete one.
\<close>

locale step_invariant =
  fixes step :: "'s \<Rightarrow> 's \<Rightarrow> bool"
    and inv :: "'s \<Rightarrow> bool"
  assumes inv_step: "inv s \<Longrightarrow> step s s' \<Longrightarrow> inv s'"
begin

lemma inv_run: "step\<^sup>*\<^sup>* s s' \<Longrightarrow> inv s \<Longrightarrow> inv s'"
  by (induction rule: rtranclp_induct) (auto intro: inv_step)

end

locale simulation =
  fixes step :: "'s \<Rightarrow> 's \<Rightarrow> bool"
    and abs_step :: "'a \<Rightarrow> 'a \<Rightarrow> bool"
    and sim :: "'s \<Rightarrow> 'a \<Rightarrow> bool"
  assumes sim_step: "sim s a \<Longrightarrow> step s s' \<Longrightarrow> \<exists>a'. (a' = a \<or> abs_step a a') \<and> sim s' a'"
begin

lemma sim_run:
  assumes "step\<^sup>*\<^sup>* s s'" "sim s a"
  shows "\<exists>a'. abs_step\<^sup>*\<^sup>* a a' \<and> sim s' a'"
  using assms
proof (induction rule: rtranclp_induct)
  case (step t t')
  then obtain a1 where "abs_step\<^sup>*\<^sup>* a a1" "sim t a1" by blast
  with sim_step [OF this(2) step.hyps(2)] show ?case by (blast intro: rtranclp.rtrancl_into_rtrancl)
qed blast

end

sublocale simulation \<subseteq> simulated: step_invariant step "\<lambda>s. \<exists>a. sim s a"
  by unfold_locales (use sim_step in blast)

end
