(* ===== verification/DatasetSystem.thy ===== *)
theory DatasetSystem
  imports Fragment Simulation
begin

text \<open>
  The fragment writers of one \<open>LanceDatasetWriter\<close> together: any number of them run
  concurrently and share its pending transactions and row counter. The specification is a
  write in which a writer is still writing, sealed with its batches, or lost, and a log of
  the sealed ones; the system refines it, and a commit publishes the log. \<open>finish_order\<close> is the
  order in which the writers of a run finished, read off their states alone.
\<close>

section \<open>The system\<close>

record ('p, 't) dataset_system =
  ds_writers :: "('p, 't) fragment list"
  ds_shared :: "'t shared_write"

definition created :: "('p, 't) dataset_system" where
  "created = \<lparr>ds_writers = [], ds_shared = \<lparr>sw_rows_written = 0, sw_transactions = []\<rparr>\<rparr>"

inductive system_step ::
  "('p, 'f, 'x, 'd) lance_env \<Rightarrow> 'd dataset_write \<Rightarrow> ('p, ('f, 'x) transaction) dataset_system \<Rightarrow>
   ('p, ('f, 'x) transaction) dataset_system \<Rightarrow> bool"
  for E W where
  fragment_writer: "system_step E W s (s\<lparr>ds_writers := ds_writers s @ [spawn]\<rparr>)"
| runs: "i < length (ds_writers s) \<Longrightarrow> fragment_step E W (ds_writers s ! i, ds_shared s) (g, sh) \<Longrightarrow>
    system_step E W s \<lparr>ds_writers = (ds_writers s)[i := g], ds_shared = sh\<rparr>"

section \<open>The specification\<close>

datatype 'b status = Writing "'b list" | Sealed "'b list" | Lost

record 'b spec =
  ab_writers :: "'b status list"
  ab_log :: "'b list list"

definition spec_start :: "'b spec" where
  "spec_start = \<lparr>ab_writers = [], ab_log = []\<rparr>"

inductive spec_step :: "'b spec \<Rightarrow> 'b spec \<Rightarrow> bool" where
  opens: "spec_step a (a\<lparr>ab_writers := ab_writers a @ [Writing []]\<rparr>)"
| writes: "i < length (ab_writers a) \<Longrightarrow> ab_writers a ! i = Writing bs \<Longrightarrow>
    spec_step a (a\<lparr>ab_writers := (ab_writers a)[i := Writing (bs @ [b])]\<rparr>)"
| seals: "i < length (ab_writers a) \<Longrightarrow> ab_writers a ! i = Writing bs \<Longrightarrow>
    spec_step a \<lparr>ab_writers = (ab_writers a)[i := Sealed bs], ab_log = ab_log a @ [bs]\<rparr>"
| loses: "i < length (ab_writers a) \<Longrightarrow> ab_writers a ! i = Writing bs \<Longrightarrow>
    spec_step a (a\<lparr>ab_writers := (ab_writers a)[i := Lost]\<rparr>)"

fun sealed_batches :: "'b status list \<Rightarrow> 'b list list" where
  "sealed_batches [] = []"
| "sealed_batches (Sealed bs # ws) = bs # sealed_batches ws"
| "sealed_batches (_ # ws) = sealed_batches ws"

lemma sealed_append: "sealed_batches (ws @ ws') = sealed_batches ws @ sealed_batches ws'"
  by (induction ws rule: sealed_batches.induct) auto

lemma sealed_update:
  assumes "i < length ws" "ws ! i = Writing bs"
  shows "mset (sealed_batches (ws[i := w])) = mset (sealed_batches ws) + mset (sealed_batches [w])"
proof -
  have eq: "ws = take i ws @ Writing bs # drop (Suc i) ws" using assms by (metis id_take_nth_drop)
  have "sealed_batches ws = sealed_batches (take i ws) @ sealed_batches (drop (Suc i) ws)"
    by (subst eq) (simp add: sealed_append)
  moreover have "sealed_batches (w # drop (Suc i) ws) = sealed_batches [w] @ sealed_batches (drop (Suc i) ws)"
    by (cases w) simp_all
  ultimately show ?thesis using assms(1) by (simp add: upd_conv_take_nth_drop sealed_append)
qed

interpretation log: step_invariant spec_step "\<lambda>a. mset (ab_log a) = mset (sealed_batches (ab_writers a))"
proof
  fix a a' :: "'b spec"
  assume "mset (ab_log a) = mset (sealed_batches (ab_writers a))" and step: "spec_step a a'"
  from step this(1) show "mset (ab_log a') = mset (sealed_batches (ab_writers a'))"
    by cases (simp_all add: sealed_append sealed_update)
qed

section \<open>Simulation\<close>

definition status_of :: "('p, 't) fragment \<Rightarrow> 'p record_batch status" where
  "status_of g = (case fg_state g of
     Finished \<Rightarrow> Sealed (batches_of (sent g)) | Failed \<Rightarrow> Lost | _ \<Rightarrow> Writing (batches_of (sent g)))"

definition writer_sim ::
  "('p, 'f, 'x, 'd) lance_env \<Rightarrow> 'd dataset_write \<Rightarrow> ('p, ('f, 'x) transaction) fragment \<Rightarrow> 'p record_batch status \<Rightarrow> bool" where
  "writer_sim E W g st \<longleftrightarrow> worker_inv E W g \<and> client_inv g \<and> status_of g = st"

definition system_sim ::
  "('f \<Rightarrow> 'r list) \<Rightarrow> ('p record_batch \<Rightarrow> 'r list) \<Rightarrow> ('p, 'f, 'x, 'd) lance_env \<Rightarrow> 'd dataset_write \<Rightarrow>
   ('p, ('f, 'x) transaction) dataset_system \<Rightarrow> 'p record_batch spec \<Rightarrow> bool" where
  "system_sim F B E W s a \<longleftrightarrow> list_all2 (writer_sim E W) (ds_writers s) (ab_writers a)
     \<and> list_all2 (\<lambda>bs t. carries F W (stored_rows B E W bs) t) (ab_log a) (sw_transactions (ds_shared s))"

lemma spawn_sim: "writer_sim E W spawn (Writing [])"
  by (simp add: writer_sim_def spawn_def worker_inv_def client_inv_def status_of_def sent_def)

lemma writer_step_effect:
  assumes "insert_documented F B E" "fragment_step E W (g, sh) (g', sh')" "writer_sim E W g st"
  shows "writer_sim E W g' (status_of g')
    \<and> (\<exists>e. client_effect F B E W g (sw_transactions sh) e g' (sw_transactions sh'))"
proof -
  have inv: "worker_inv E W g" "client_inv g" using assms(3) by (simp_all add: writer_sim_def)
  from assms(2) have "worker_step E W (g, sh) (g', sh') \<or> client_step W (g, sh) (g', sh')"
    by (simp add: fragment_step_def)
  then show ?thesis
  proof
    assume "worker_step E W (g, sh) (g', sh')"
    from worker_step_inv [OF this inv] have "worker_inv E W g'" "client_inv g'"
      "client_effect F B E W g (sw_transactions sh) Silent g' (sw_transactions sh')"
      by (simp_all add: client_effect_def)
    then show ?thesis by (auto simp: writer_sim_def)
  next
    assume "client_step W (g, sh) (g', sh')"
    from client_step_inv [OF this assms(1) inv] show ?thesis by (simp add: writer_sim_def)
  qed
qed

text \<open>What an effect on one writer is in the specification.\<close>

lemma effect_simulated:
  assumes "client_effect F B E W g ts e g' ts'" "i < length (ab_writers a)" "ab_writers a ! i = status_of g"
    and "list_all2 (\<lambda>bs t. carries F W (stored_rows B E W bs) t) (ab_log a) ts"
  shows "\<exists>a'. (a' = a \<or> spec_step a a') \<and> ab_writers a' = (ab_writers a)[i := status_of g']
    \<and> list_all2 (\<lambda>bs t. carries F W (stored_rows B E W bs) t) (ab_log a') ts'"
proof (cases e)
  case Silent
  with assms have "status_of g' = ab_writers a ! i" "ts' = ts"
    by (auto simp: client_effect_def status_of_def split: sink_state.splits)
  with assms(4) show ?thesis by (intro exI [of _ a]) simp
next
  case (Sends b)
  with assms show ?thesis
    by (intro exI [of _ "a\<lparr>ab_writers := (ab_writers a)[i := status_of g']\<rparr>"])
      (auto simp: client_effect_def status_of_def intro: spec_step.writes)
next
  case Seals
  with assms obtain t where t: "ts' = ts @ [t]" "carries F W (stored_rows B E W (batches_of (sent g))) t"
    "status_of g' = Sealed (batches_of (sent g))" "ab_writers a ! i = Writing (batches_of (sent g))"
    by (auto simp: client_effect_def status_of_def)
  with assms(2,4) show ?thesis
    by (intro exI [of _ "\<lparr>ab_writers = (ab_writers a)[i := status_of g'], ab_log = ab_log a @ [batches_of (sent g)]\<rparr>"])
      (auto intro: spec_step.seals list_all2_appendI)
next
  case Loses
  with assms show ?thesis
    by (intro exI [of _ "a\<lparr>ab_writers := (ab_writers a)[i := status_of g']\<rparr>"])
      (auto simp: client_effect_def status_of_def intro: spec_step.loses)
qed

text \<open>Lance's documented behaviour is part of the simulation relation.\<close>

definition documented_sim ::
  "('f \<Rightarrow> 'r list) \<Rightarrow> ('p record_batch \<Rightarrow> 'r list) \<Rightarrow> ('p, 'f, 'x, 'd) lance_env \<Rightarrow> 'd dataset_write \<Rightarrow>
   ('p, ('f, 'x) transaction) dataset_system \<Rightarrow> 'p record_batch spec \<Rightarrow> bool" where
  "documented_sim F B E W s a \<longleftrightarrow> insert_documented F B E \<and> system_sim F B E W s a"

interpretation writes: simulation "system_step E W" spec_step "documented_sim F B E W"
  for E :: "('p, 'f, 'x, 'd) lance_env" and W :: "'d dataset_write"
    and F :: "'f \<Rightarrow> 'r list" and B :: "'p record_batch \<Rightarrow> 'r list"
proof
  fix s :: "('p, ('f, 'x) transaction) dataset_system" and a s'
  assume both: "documented_sim F B E W s a" and step: "system_step E W s s'"
  then have doc: "insert_documented F B E" and sim: "system_sim F B E W s a" by (simp_all add: documented_sim_def)
  have len: "length (ds_writers s) = length (ab_writers a)"
    and at: "i < length (ab_writers a) \<Longrightarrow> writer_sim E W (ds_writers s ! i) (ab_writers a ! i)"
    and log: "list_all2 (\<lambda>bs t. carries F W (stored_rows B E W bs) t) (ab_log a) (sw_transactions (ds_shared s))" for i
    using sim by (auto simp: system_sim_def list_all2_conv_all_nth)
  from step show "\<exists>a'. (a' = a \<or> spec_step a a') \<and> documented_sim F B E W s' a'"
  proof cases
    case fragment_writer
    with sim spawn_sim show ?thesis
      by (intro exI [of _ "a\<lparr>ab_writers := ab_writers a @ [Writing []]\<rparr>"])
        (auto simp: documented_sim_def doc system_sim_def intro: spec_step.opens list_all2_appendI)
  next
    case (runs i g' sh')
    have i: "i < length (ab_writers a)" "ab_writers a ! i = status_of (ds_writers s ! i)"
      using runs(2) len at [of i] by (simp_all add: writer_sim_def)
    obtain e where e: "writer_sim E W g' (status_of g')"
      "client_effect F B E W (ds_writers s ! i) (sw_transactions (ds_shared s)) e g' (sw_transactions sh')"
      using writer_step_effect [OF doc runs(3) at [OF i(1)]] by blast
    from effect_simulated [OF e(2) i log] obtain a' where a': "a' = a \<or> spec_step a a'"
      "ab_writers a' = (ab_writers a)[i := status_of g']"
      "list_all2 (\<lambda>bs t. carries F W (stored_rows B E W bs) t) (ab_log a') (sw_transactions sh')" by blast
    have "list_all2 (writer_sim E W) ((ds_writers s)[i := g']) (ab_writers a')"
      unfolding a'(2) using sim e(1) by (intro list_all2_update_cong) (simp_all add: system_sim_def)
    with a' runs(1) show ?thesis by (auto simp: documented_sim_def doc system_sim_def)
  qed
qed

lemma created_sim: "insert_documented F B E \<Longrightarrow> documented_sim F B E W created spec_start"
  by (simp add: documented_sim_def system_sim_def created_def spec_start_def)

lemma statuses: "list_all2 (writer_sim E W) gs sts \<Longrightarrow> sts = map status_of gs"
  by (induction gs sts rule: list_all2_induct) (simp_all add: writer_sim_def)

lemma sealed_statuses: "sealed_batches (map status_of gs) =
    map (\<lambda>g. batches_of (sent g)) (filter (\<lambda>g. fg_state g = Finished) gs)"
  by (induction gs) (auto simp: status_of_def split: sink_state.splits)

text \<open>
  The writers of a system that has run on: none is gone, and each is where it was in its life,
  or further. One that is finished or failed stays so.
\<close>

definition continues :: "('p, 't) dataset_system \<Rightarrow> ('p, 't) dataset_system \<Rightarrow> bool" where
  "continues s s' \<longleftrightarrow> length (ds_writers s) \<le> length (ds_writers s')
     \<and> (\<forall>i<length (ds_writers s). fg_state (ds_writers s ! i) \<le> fg_state (ds_writers s' ! i))"

interpretation forward: step_invariant "system_step E W" "\<lambda>s'. (\<exists>a. documented_sim F B E W s' a) \<and> continues s s'"
  for E W F B s
proof
  fix s1 s2
  assume inv: "(\<exists>a. documented_sim F B E W s1 a) \<and> continues s s1" and step: "system_step E W s1 s2"
  then obtain a where a: "documented_sim F B E W s1 a" by blast
  have "continues s s2"
    using step
  proof cases
    case fragment_writer
    with inv show ?thesis by (fastforce simp: continues_def nth_append)
  next
    case (runs i g' sh')
    have "writer_sim E W (ds_writers s1 ! i) (ab_writers a ! i)"
      using a runs(2) by (simp add: documented_sim_def system_sim_def list_all2_conv_all_nth)
    with writer_step_effect [OF _ runs(3)] a obtain e where
      "client_effect F B E W (ds_writers s1 ! i) (sw_transactions (ds_shared s1)) e g' (sw_transactions sh')"
      unfolding documented_sim_def by blast
    from client_effect_forward [OF this] have "fg_state (ds_writers s1 ! k) \<le> fg_state (ds_writers s2 ! k)" for k
      using runs(1,2) by (cases "k = i") simp_all
    with inv runs(1) show ?thesis unfolding continues_def by (force intro: order_trans)
  qed
  moreover obtain a' where "documented_sim F B E W s2 a'" using writes.sim_step [OF a step] by blast
  ultimately show "(\<exists>a. documented_sim F B E W s2 a) \<and> continues s s2" by blast
qed

lemma reached:
  assumes "insert_documented F B E" "(system_step E W)\<^sup>*\<^sup>* created s"
  obtains a where "spec_step\<^sup>*\<^sup>* spec_start a" "documented_sim F B E W s a" "ab_writers a = map status_of (ds_writers s)"
    "mset (ab_log a) = mset (map (\<lambda>g. batches_of (sent g)) (filter (\<lambda>g. fg_state g = Finished) (ds_writers s)))"
proof -
  obtain a where a: "spec_step\<^sup>*\<^sup>* spec_start a" "documented_sim F B E W s a"
    using writes.sim_run [OF assms(2) created_sim [OF assms(1)]] by blast
  have "ab_writers a = map status_of (ds_writers s)"
    using a(2) statuses by (auto simp: documented_sim_def system_sim_def)
  moreover have "mset (ab_log a) = mset (sealed_batches (ab_writers a))"
    using log.inv_run [OF a(1)] by (simp add: spec_start_def)
  ultimately show thesis using a that by (simp add: sealed_statuses)
qed

lemma writers_move_forward:
  assumes "insert_documented F B E" "(system_step E W)\<^sup>*\<^sup>* created s" "(system_step E W)\<^sup>*\<^sup>* s s'"
  shows "continues s s'"
proof -
  obtain a where "documented_sim F B E W s a" by (rule reached [OF assms(1,2)])
  moreover have "continues s s" by (simp add: continues_def)
  ultimately show ?thesis using forward.inv_run [OF assms(3)] by blast
qed

section \<open>The order in which writers finish\<close>

text \<open>
  A run together with the indices of the writers that have finished in it, in the order they
  did. It reads the states of the writers only: the pending transactions play no part in it.
\<close>

definition is_finished :: "('p, 't) dataset_system \<Rightarrow> nat \<Rightarrow> bool" where
  "is_finished s i \<longleftrightarrow> i < length (ds_writers s) \<and> fg_state (ds_writers s ! i) = Finished"

definition finished_now :: "('p, 't) dataset_system \<Rightarrow> ('p, 't) dataset_system \<Rightarrow> nat list" where
  "finished_now s s' = filter (\<lambda>i. is_finished s' i \<and> \<not> is_finished s i) [0..<length (ds_writers s')]"

inductive finish_order ::
  "('p, 'f, 'x, 'd) lance_env \<Rightarrow> 'd dataset_write \<Rightarrow> ('p, ('f, 'x) transaction) dataset_system \<Rightarrow> nat list \<Rightarrow> bool"
  for E W where
  none_yet: "finish_order E W created []"
| goes_on: "finish_order E W s order \<Longrightarrow> system_step E W s s' \<Longrightarrow> finish_order E W s' (order @ finished_now s s')"

text \<open>Every reachable system has such an order, and only those have one.\<close>

lemma reachable_order: "(system_step E W)\<^sup>*\<^sup>* created s \<Longrightarrow> \<exists>order. finish_order E W s order"
  by (induction rule: rtranclp_induct) (blast intro: finish_order.intros)+

lemma order_reachable: "finish_order E W s order \<Longrightarrow> (system_step E W)\<^sup>*\<^sup>* created s"
  by (induction rule: finish_order.induct) (auto intro: rtranclp.rtrancl_into_rtrancl)

lemma filter_upt_at: "i < n \<Longrightarrow> filter (\<lambda>k. k = i \<and> P) [0..<n] = (if P then [i] else [])"
  by (induction n) (auto simp: less_Suc_eq)

lemma finished_now_writer [simp]: "finished_now s (s\<lparr>ds_writers := ds_writers s @ [spawn]\<rparr>) = []"
  by (auto simp: finished_now_def is_finished_def filter_empty_conv nth_append spawn_def)

lemma order_writer: "finish_order E W s order \<Longrightarrow> finish_order E W (s\<lparr>ds_writers := ds_writers s @ [spawn]\<rparr>) order"
  using finish_order.goes_on [OF _ system_step.fragment_writer] by fastforce

lemma finished_now_run:
  assumes "i < length (ds_writers s)"
  shows "finished_now s \<lparr>ds_writers = (ds_writers s)[i := g], ds_shared = sh\<rparr>
    = (if fg_state g = Finished \<and> fg_state (ds_writers s ! i) \<noteq> Finished then [i] else [])"
proof -
  have "finished_now s \<lparr>ds_writers = (ds_writers s)[i := g], ds_shared = sh\<rparr>
      = filter (\<lambda>k. k = i \<and> fg_state g = Finished \<and> fg_state (ds_writers s ! i) \<noteq> Finished) [0..<length (ds_writers s)]"
    unfolding finished_now_def is_finished_def using assms by (auto simp: nth_list_update intro!: filter_cong)
  with assms show ?thesis by (simp add: filter_upt_at)
qed

definition rows_of_writer ::
  "('p record_batch \<Rightarrow> 'r list) \<Rightarrow> ('p, 'f, 'x, 'd) lance_env \<Rightarrow> 'd dataset_write \<Rightarrow> ('p, 't) dataset_system \<Rightarrow> nat \<Rightarrow> 'r list" where
  "rows_of_writer B E W s i = stored_rows B E W (batches_of (sent (ds_writers s ! i)))"

text \<open>The pending transactions are those of the finished writers, in that order.\<close>

definition order_inv ::
  "('f \<Rightarrow> 'r list) \<Rightarrow> ('p record_batch \<Rightarrow> 'r list) \<Rightarrow> ('p, 'f, 'x, 'd) lance_env \<Rightarrow> 'd dataset_write \<Rightarrow>
   ('p, ('f, 'x) transaction) dataset_system \<Rightarrow> nat list \<Rightarrow> bool" where
  "order_inv F B E W s order \<longleftrightarrow> distinct order \<and> set order = {i. is_finished s i}
     \<and> list_all2 (\<lambda>i t. carries F W (rows_of_writer B E W s i) t) order (sw_transactions (ds_shared s))"

lemma order_inv_run:
  assumes "order_inv F B E W s order" "i < length (ds_writers s)"
    and "client_effect F B E W (ds_writers s ! i) (sw_transactions (ds_shared s)) e g (sw_transactions sh)"
    and "s' = \<lparr>ds_writers = (ds_writers s)[i := g], ds_shared = sh\<rparr>"
  shows "order_inv F B E W s' (order @ finished_now s s')"
proof -
  have inv: "distinct order" "set order = {k. is_finished s k}"
    "list_all2 (\<lambda>k t. carries F W (rows_of_writer B E W s k) t) order (sw_transactions (ds_shared s))"
    using assms(1) by (simp_all add: order_inv_def)
  have same: "rows_of_writer B E W s' k = rows_of_writer B E W s k" if "is_finished s k" for k
    using that assms(2-4) by (cases e) (auto simp: rows_of_writer_def is_finished_def client_effect_def nth_list_update)
  have kept: "list_all2 (\<lambda>k t. carries F W (rows_of_writer B E W s' k) t) order (sw_transactions (ds_shared s))"
    using inv(3) by (rule list.rel_mono_strong) (use inv(2) same in auto)
  have fin: "is_finished s' k \<longleftrightarrow> (if k = i then fg_state g = Finished else is_finished s k)" for k
    using assms(2,4) by (auto simp: is_finished_def)
  show ?thesis
  proof (cases "e = Seals")
    case True
    then obtain t where t: "sw_transactions sh = sw_transactions (ds_shared s) @ [t]"
      "carries F W (rows_of_writer B E W s' i) t" "fg_state (ds_writers s ! i) = Open" "fg_state g = Finished"
      using assms(2-4) by (auto simp: client_effect_def rows_of_writer_def)
    then have now: "finished_now s s' = [i]" "\<not> is_finished s i"
      using finished_now_run [OF assms(2)] assms(4) by (simp_all add: is_finished_def)
    have "list_all2 (\<lambda>k t. carries F W (rows_of_writer B E W s' k) t) (order @ [i]) (sw_transactions (ds_shared s) @ [t])"
      using kept t(2) by (intro list_all2_appendI) simp_all
    moreover have "{k. is_finished s' k} = insert i {k. is_finished s k}" using t(4) by (auto simp: fin)
    moreover have "sw_transactions (ds_shared s') = sw_transactions (ds_shared s) @ [t]" using t(1) assms(4) by simp
    ultimately show ?thesis using inv(1,2) now by (simp add: order_inv_def)
  next
    case False
    then have eff: "sw_transactions sh = sw_transactions (ds_shared s)"
      "fg_state g = Finished \<longleftrightarrow> fg_state (ds_writers s ! i) = Finished"
      using assms(3) False by (cases e, auto simp: client_effect_def)+
    then have "finished_now s s' = []" using finished_now_run [OF assms(2)] assms(4) by simp
    moreover have "is_finished s' k = is_finished s k" for k using fin eff(2) assms(2) by (simp add: is_finished_def)
    moreover have "sw_transactions (ds_shared s') = sw_transactions (ds_shared s)" using eff(1) assms(4) by simp
    ultimately show ?thesis using inv(1,2) kept by (simp add: order_inv_def)
  qed
qed

lemma finish_order_inv:
  assumes "insert_documented F B E" "finish_order E W s order"
  shows "order_inv F B E W s order"
  using assms(2)
proof (induction rule: finish_order.induct)
  case none_yet
  show ?case by (simp add: order_inv_def created_def is_finished_def)
next
  case (goes_on s order s')
  obtain a where a: "documented_sim F B E W s a" by (rule reached [OF assms(1) order_reachable [OF goes_on.hyps(1)]])
  from goes_on.hyps(2) show ?case
  proof cases
    case fragment_writer
    then have "is_finished s' i = is_finished s i" for i by (auto simp: is_finished_def nth_append spawn_def)
    moreover have "rows_of_writer B E W s' i = rows_of_writer B E W s i" if "is_finished s i" for i
      using that fragment_writer by (simp add: rows_of_writer_def is_finished_def nth_append)
    ultimately show ?thesis
      using goes_on.IH fragment_writer
      by (auto simp: order_inv_def elim!: list.rel_mono_strong)
  next
    case (runs i g sh)
    have "writer_sim E W (ds_writers s ! i) (ab_writers a ! i)"
      using a runs(2) by (simp add: documented_sim_def system_sim_def list_all2_conv_all_nth)
    with writer_step_effect [OF assms(1) runs(3)] obtain e where
      "client_effect F B E W (ds_writers s ! i) (sw_transactions (ds_shared s)) e g (sw_transactions sh)" by blast
    from order_inv_run [OF goes_on.IH runs(2) this runs(1)] show ?thesis .
  qed
qed

text \<open>What a commit publishes: every row of the finished writers, one writer after the other.\<close>

definition holds_finished ::
  "('f \<Rightarrow> 'r list) \<Rightarrow> ('p record_batch \<Rightarrow> 'r list) \<Rightarrow> ('p, 'f, 'x, 'd) lance_env \<Rightarrow> 'd dataset_write \<Rightarrow>
   ('p, ('f, 'x) transaction) dataset_system \<Rightarrow> ('f, 'x) transaction \<Rightarrow> nat list \<Rightarrow> bool" where
  "holds_finished F B E W s t order \<longleftrightarrow> distinct order \<and> set order = {i. is_finished s i}
     \<and> concat (map F (tx_fragments t)) = concat (map (rows_of_writer B E W s) order)"

lemma commit_finished:
  assumes "insert_documented F B E" "finish_order E W s order"
    and "dataset_commit E W (ds_shared s) = (r, sh', published)"
  shows "case published of Some t \<Rightarrow> holds_finished F B E W s t order | None \<Rightarrow> \<exists>e. r = Err e"
    and "sw_transactions sh' = []"
proof -
  have inv: "order_inv F B E W s order" by (rule finish_order_inv [OF assms(1,2)])
  then have "list_all2 (carries F W) (map (rows_of_writer B E W s) order) (sw_transactions (ds_shared s))"
    by (simp add: order_inv_def list_all2_map1)
  from commit_carries [OF assms(1) this assms(3)] inv
  show "case published of Some t \<Rightarrow> holds_finished F B E W s t order | None \<Rightarrow> \<exists>e. r = Err e" "sw_transactions sh' = []"
    by (auto simp: holds_finished_def order_inv_def carries_def split: option.splits)
qed

section \<open>Runs on concrete data\<close>

definition note_batch :: "nat \<Rightarrow> unit record_batch" where
  "note_batch n = \<lparr>rb_schema = notes_schema, rb_columns = [Array Utf8 n None [] ()], rb_rows = of_nat n\<rparr>"

lemma notes_write_sel [simp]: "dw_schema notes_write = notes_schema" "dw_options notes_write = write_options_default"
  "dw_dataset notes_write = None" "dw_indexes notes_write = \<lparr>ip_indexes = []\<rparr>"
  by (simp_all add: notes_write_def)

lemma notes_stored: "stored_schema (le_arrow lance_ref) (le_blob lance_ref) notes_schema write_options_default = Ok notes_schema"
  by (simp add: stored_schema_def lance_ref_def blob_schema_def blob_options_of_def write_options_default_def
      DEFAULT_BLOB_DEDICATED_SIZE_THRESHOLD_def notes_schema_def stored_field_def is_binary_def
      configure_field.simps is_blob_def configure_column_encoding_def new_with_metadata_def)

lemma notes_poll:
  "early_stop lance_ref notes_write notes_schema (map Ok bs) = None"
  "at_end lance_ref notes_write notes_schema (map Ok bs) = Returned (Ok \<lparr>tx_operation = OpOverwrite [bs] (), tx_rest = ()\<rparr>)"
  "counted_rows [store_item lance_ref notes_write notes_schema (Ok b)] = rb_rows b"
  by (simp_all add: early_stop_def at_end_def store_item_def lance_ref_def list_all_iff ok_batches_def map_filter_map_filter
      List.map_filter_def comp_def notes_write_def counted_rows_def)

text \<open>A writer that runs on its own, and the order of finishing it leaves.\<close>

lemma order_run:
  assumes "(fragment_step E W)\<^sup>*\<^sup>* (ds_writers s ! i, ds_shared s) (g, sh)" "i < length (ds_writers s)"
    and "finish_order E W s order" "insert_documented F B E"
  shows "finish_order E W \<lparr>ds_writers = (ds_writers s)[i := g], ds_shared = sh\<rparr>
    (order @ (if fg_state g = Finished \<and> fg_state (ds_writers s ! i) \<noteq> Finished then [i] else []))"
proof -
  let ?at = "\<lambda>g sh. \<lparr>ds_writers = (ds_writers s)[i := g], ds_shared = sh\<rparr>"
  have "\<exists>ks. finish_order E W (?at g sh) (order @ ks) \<and> set ks \<subseteq> {i}"
    using assms(1)
  proof (induction rule: rtranclp_induct2)
    case refl
    have "?at (ds_writers s ! i) (ds_shared s) = s" by (cases s) simp
    with assms(3) show ?case by (intro exI [of _ "[]"]) (simp only: append_Nil2 list.set empty_subsetI simp_thms)
  next
    case (step g1 sh1 g2 sh2)
    then obtain ks where ks: "finish_order E W (?at g1 sh1) (order @ ks)" "set ks \<subseteq> {i}" by blast
    have "system_step E W (?at g1 sh1) (?at g2 sh2)"
      using system_step.runs [of i "?at g1 sh1" E W g2 sh2] step.hyps(2) assms(2) by simp
    moreover have "set (finished_now (?at g1 sh1) (?at g2 sh2)) \<subseteq> {i}"
      using finished_now_run [of i "?at g1 sh1" g2 sh2] assms(2) by auto
    ultimately show ?case
      using finish_order.goes_on [OF ks(1)] ks(2)
      by (intro exI [of _ "ks @ finished_now (?at g1 sh1) (?at g2 sh2)"]) simp
  qed
  then obtain ks where ks: "finish_order E W (?at g sh) (order @ ks)" "set ks \<subseteq> {i}" by blast
  from finish_order_inv [OF assms(4) ks(1)] finish_order_inv [OF assms(4,3)]
  have "distinct ks" "set ks \<inter> set order = {}" "set (order @ ks) = {k. is_finished (?at g sh) k}"
    "set order = {k. is_finished s k}" by (auto simp: order_inv_def)
  moreover from this(1) ks(2) have "ks = [] \<or> ks = [i]" by (cases ks; cases "tl ks") auto
  ultimately have "ks = (if fg_state g = Finished \<and> fg_state (ds_writers s ! i) \<noteq> Finished then [i] else [])"
    using assms(2) by (auto simp: is_finished_def set_eq_iff)
  with ks(1) show ?thesis by simp
qed

lemma writer_run:
  assumes "(fragment_step E W)\<^sup>*\<^sup>* (ds_writers s ! i, ds_shared s) (g, sh)" "i < length (ds_writers s)"
  shows "(system_step E W)\<^sup>*\<^sup>* s \<lparr>ds_writers = (ds_writers s)[i := g], ds_shared = sh\<rparr>"
  using assms(1)
proof (induction rule: rtranclp_induct2)
  case refl
  have "\<lparr>ds_writers = (ds_writers s)[i := ds_writers s ! i], ds_shared = ds_shared s\<rparr> = s" by (cases s) simp
  then show ?case by (simp only: rtranclp.rtrancl_refl)
next
  case (step g1 sh1 g2 sh2)
  let ?s1 = "\<lparr>ds_writers = (ds_writers s)[i := g1], ds_shared = sh1\<rparr>"
  have "system_step E W ?s1 \<lparr>ds_writers = (ds_writers s)[i := g2], ds_shared = sh2\<rparr>"
    using system_step.runs [of i ?s1 E W g2 sh2] step.hyps(2) assms(2) by simp
  with step.IH show ?case by (rule rtranclp.rtrancl_into_rtrancl)
qed

lemma lone_writer_run: "(fragment_step E W)\<^sup>*\<^sup>* (g, sh) (g', sh') \<Longrightarrow>
    (system_step E W)\<^sup>*\<^sup>* \<lparr>ds_writers = [g], ds_shared = sh\<rparr> \<lparr>ds_writers = [g'], ds_shared = sh'\<rparr>"
  using writer_run [of E W "\<lparr>ds_writers = [g], ds_shared = sh\<rparr>" 0 g' sh'] by simp

lemma lone_writer_created: "system_step E W created \<lparr>ds_writers = [spawn], ds_shared = \<lparr>sw_rows_written = 0, sw_transactions = []\<rparr>\<rparr>"
  using system_step.fragment_writer [of E W created] by (simp add: created_def)

text \<open>The writer has taken one batch of \<open>n\<close> rows.\<close>

definition notes_transaction :: "nat \<Rightarrow> (unit record_batch list, unit) transaction" where
  "notes_transaction n = \<lparr>tx_operation = OpOverwrite [[note_batch n]] (), tx_rest = ()\<rparr>"

definition writing_notes :: "nat \<Rightarrow> (unit, (unit record_batch list, unit) transaction) fragment" where
  "writing_notes n = \<lparr>fg_state = Open, fg_sender = True, fg_queue = [], fg_received = [Batch (note_batch n)],
     fg_worker = Polling notes_schema, fg_pending = None\<rparr>"

abbreviation notes_steps where
  "notes_steps \<equiv> (fragment_step lance_ref notes_write)\<^sup>*\<^sup>*"

lemma notes_taken: "notes_steps (spawn, sh) (writing_notes n, sh\<lparr>sw_rows_written := sw_rows_written sh + of_nat n\<rparr>)"
proof -
  let ?g1 = "spawn\<lparr>fg_queue := [Batch (note_batch n)]\<rparr> :: (unit, (unit record_batch list, unit) transaction) fragment"
  let ?g2 = "?g1\<lparr>fg_worker := Polling notes_schema\<rparr>"
  have "notes_steps (spawn, sh) (?g1, sh)"
    unfolding fragment_step_def [abs_def]
    by (intro r_into_rtranclp disjI2 client_step.send) (simp_all add: spawn_def note_batch_def receiver_alive_def)
  also have "notes_steps (?g1, sh) (?g2, sh)"
    unfolding fragment_step_def [abs_def]
    by (intro r_into_rtranclp disjI1 worker_step.start) (simp_all add: spawn_def notes_stored)
  also have "notes_steps (?g2, sh)
      (?g2\<lparr>fg_queue := [], fg_received := fg_received ?g2 @ [Batch (note_batch n)]\<rparr>,
       sh\<lparr>sw_rows_written := sw_rows_written sh + counted_rows [store_item lance_ref notes_write notes_schema (Ok (note_batch n))]\<rparr>)"
    unfolding fragment_step_def [abs_def]
    by (intro r_into_rtranclp disjI1 worker_step.receive) (simp_all add: spawn_def notes_poll(1) [of "[]", simplified])
  finally show ?thesis
    by (simp add: writing_notes_def spawn_def notes_poll(3) note_batch_def)
qed

text \<open>Its caller finishes, and the task ends.\<close>

definition notes_ended :: "nat \<Rightarrow> (unit, (unit record_batch list, unit) transaction) fragment" where
  "notes_ended n = (writing_notes n)\<lparr>fg_sender := False, fg_received := [Batch (note_batch n), Finish],
     fg_worker := Ended (Ok (Ok (notes_transaction n))),
     fg_pending := Some (PendingFinish True)\<rparr>"

lemma notes_finish: "notes_steps (writing_notes n, sh) (notes_ended n, sh)"
proof -
  let ?g1 = "(writing_notes n)\<lparr>fg_queue := [Finish], fg_sender := False, fg_pending := Some (PendingFinish True)\<rparr>"
  let ?t = "notes_transaction n"
  let ?g2 = "?g1\<lparr>fg_queue := [], fg_received := fg_received ?g1 @ [Finish], fg_worker := Returning (Ok (Ok ?t))\<rparr>"
  have "notes_steps (writing_notes n, sh) (?g1, sh)"
    unfolding fragment_step_def [abs_def]
    by (intro r_into_rtranclp disjI2 client_step.send_finish) (simp_all add: writing_notes_def receiver_alive_def)
  also have "notes_steps (?g1, sh) (?g2, sh)"
  proof -
    have "worker_step lance_ref notes_write (?g1, sh)
      (?g1\<lparr>fg_queue := [], fg_received := fg_received ?g1 @ [Finish], fg_worker := Returning (Ok (insert_result notes_write
         (at_end lance_ref notes_write notes_schema (map Ok (batches_of (fg_received ?g1))))))\<rparr>, sh)"
      by (rule worker_step.complete) (simp_all add: writing_notes_def notes_poll(1) [of "[_]", simplified])
    moreover have "insert_result notes_write
        (at_end lance_ref notes_write notes_schema (map Ok (batches_of (fg_received ?g1)))) = Ok ?t"
      using notes_poll(2) [of "[note_batch n]"] by (simp add: writing_notes_def insert_result_Ok notes_transaction_def)
    ultimately show ?thesis by (simp add: fragment_step_def r_into_rtranclp)
  qed
  also have "notes_steps (?g2, sh) (?g2\<lparr>fg_worker := Ended (Ok (Ok ?t))\<rparr>, sh)"
    unfolding fragment_step_def [abs_def]
    by (intro r_into_rtranclp disjI1 worker_step.return) simp
  finally show ?thesis by (simp add: notes_ended_def writing_notes_def)
qed

text \<open>And the caller has the result.\<close>

definition notes_finished :: "nat \<Rightarrow> (unit, (unit record_batch list, unit) transaction) fragment" where
  "notes_finished n = (notes_ended n)\<lparr>fg_state := Finished, fg_pending := None\<rparr>"

lemma notes_join: "fragment_step lance_ref notes_write (notes_ended n, sh) (notes_finished n, add_transaction (notes_transaction n) sh)"
  unfolding fragment_step_def notes_finished_def
  by (intro disjI2 client_step.join [of _ "PendingFinish True" "Ok (Ok (notes_transaction n))"])
    (simp_all add: notes_ended_def writing_notes_def finish_def join_worker_def close_input_def context_of_def)

lemma notes_joined: "notes_steps (writing_notes n, sh) (notes_finished n, add_transaction (notes_transaction n) sh)"
  using notes_finish notes_join by (rule rtranclp.rtrancl_into_rtrancl)

lemma notes_life: "notes_steps (spawn, sh)
    (notes_finished n, add_transaction (notes_transaction n) (sh\<lparr>sw_rows_written := sw_rows_written sh + of_nat n\<rparr>))"
  using notes_taken notes_joined by (rule rtranclp_trans)

lemma notes_states [simp]: "fg_state spawn = Open" "fg_state (writing_notes n) = Open" "fg_state (notes_ended n) = Open"
  "fg_state (notes_finished n) = Finished" "fg_worker (notes_ended n) = Ended (Ok (Ok (notes_transaction n)))"
  "fg_pending (notes_ended n) = Some (PendingFinish True)" "fg_received (notes_ended n) = [Batch (note_batch n), Finish]"
  "batches_of (sent (notes_ended n)) = [note_batch n]" "batches_of (sent (notes_finished n)) = [note_batch n]"
  by (simp_all add: spawn_def notes_finished_def notes_ended_def writing_notes_def sent_def)

lemma notes_reach:
  assumes "notes_steps (writing_notes n, \<lparr>sw_rows_written = of_nat n, sw_transactions = []\<rparr>) (g, sh)"
  shows "(system_step lance_ref notes_write)\<^sup>*\<^sup>* created \<lparr>ds_writers = [g], ds_shared = sh\<rparr>"
proof -
  have "notes_steps (spawn, \<lparr>sw_rows_written = 0, sw_transactions = []\<rparr>) (g, sh)"
    using notes_taken [of "\<lparr>sw_rows_written = 0, sw_transactions = []\<rparr>" n] assms by (auto intro: rtranclp_trans)
  from lone_writer_created lone_writer_run [OF this] show ?thesis by (rule converse_rtranclp_into_rtranclp)
qed

text \<open>Two writers: the second opened has two rows and finishes first, the first has three.\<close>

definition two_notes :: "(unit, (unit record_batch list, unit) transaction) dataset_system" where
  "two_notes = \<lparr>ds_writers = [notes_finished 3, notes_finished 2],
     ds_shared = \<lparr>sw_rows_written = 5, sw_transactions = [notes_transaction 2, notes_transaction 3]\<rparr>\<rparr>"

lemma two_notes_order: "finish_order lance_ref notes_write two_notes [1, 0]"
proof -
  let ?step = "system_step lance_ref notes_write"
  let ?s0 = "\<lparr>ds_writers = [spawn, spawn], ds_shared = \<lparr>sw_rows_written = 0, sw_transactions = []\<rparr>\<rparr>
    :: (unit, (unit record_batch list, unit) transaction) dataset_system"
  let ?s1 = "\<lparr>ds_writers = [spawn, notes_finished 2],
    ds_shared = \<lparr>sw_rows_written = 2, sw_transactions = [notes_transaction 2]\<rparr>\<rparr>"
  have writers: "finish_order lance_ref notes_write ?s0 []"
    using order_writer [OF order_writer [OF finish_order.none_yet], of lance_ref notes_write] by (simp add: created_def)
  have "finish_order lance_ref notes_write ?s1 [1]"
    using order_run [OF _ _ writers lance_ref_documented, of 1 "notes_finished 2" "ds_shared ?s1"]
      notes_life [of "ds_shared ?s0" 2]
    by (simp add: add_transaction_def)
  from order_run [OF _ _ this lance_ref_documented, of 0 "notes_finished 3" "ds_shared two_notes"] show ?thesis
    using notes_life [of "ds_shared ?s1" 3] by (simp add: two_notes_def add_transaction_def)
qed

lemma two_notes_commit: "\<exists>summary sh' t. dataset_commit lance_ref notes_write (ds_shared two_notes) = (Ok summary, sh', Some t)"
  by (simp add: two_notes_def notes_transaction_def dataset_commit_def publish_def merge_transactions_def
      index_plan_create_def vector_partitions_def context_of_def lance_ref_def)

section \<open>Properties\<close>



text \<open>
  C2: Whatever the interleaving, a commit that publishes anything publishes one transaction
  whose rows are those of every batch accepted by a writer that finished, writer after writer
  in the order they finished in the run, and no row of a writer that failed, was dropped or
  was still open; one that succeeds has published; and no transaction is left to be committed
  twice.
\<close>

theorem commit_publishes_finished:
  assumes "insert_documented F B E" "(system_step E W)\<^sup>*\<^sup>* created s"
    and "dataset_commit E W (ds_shared s) = (r, sh', published)"
  shows "(\<exists>order. finish_order E W s order)
    \<and> (\<forall>order. finish_order E W s order \<longrightarrow>
        distinct order \<and> set order = {i. i < length (ds_writers s) \<and> fg_state (ds_writers s ! i) = Finished}
        \<and> (case published of
             Some t \<Rightarrow> concat (map F (tx_fragments t))
               = concat (map (\<lambda>i. stored_rows B E W (batches_of (sent (ds_writers s ! i)))) order)
           | None \<Rightarrow> \<exists>e. r = Err e))
    \<and> sw_transactions sh' = []"
proof (intro conjI allI impI)
  show "\<exists>order. finish_order E W s order" by (rule reachable_order [OF assms(2)])
  then show "sw_transactions sh' = []" using commit_finished(2) [OF assms(1) _ assms(3)] by blast
  fix order
  assume order: "finish_order E W s order"
  from finish_order_inv [OF assms(1) order]
  show "distinct order" "set order = {i. i < length (ds_writers s) \<and> fg_state (ds_writers s ! i) = Finished}"
    by (simp_all add: order_inv_def is_finished_def)
  from commit_finished(1) [OF assms(1) order assms(3)]
  show "case published of
      Some t \<Rightarrow> concat (map F (tx_fragments t)) = concat (map (\<lambda>i. stored_rows B E W (batches_of (sent (ds_writers s ! i)))) order)
    | None \<Rightarrow> \<exists>e. r = Err e"
    by (simp add: holds_finished_def rows_of_writer_def [abs_def] split: option.splits)
qed

theorem commit_publishes_finished_witness:
  "finish_order lance_ref notes_write two_notes [1, 0]
    \<and> (\<exists>summary sh' t. dataset_commit lance_ref notes_write (ds_shared two_notes) = (Ok summary, sh', Some t)
        \<and> concat (tx_fragments t) = stored_rows (\<lambda>b. [b]) lance_ref notes_write [note_batch 2]
            @ stored_rows (\<lambda>b. [b]) lance_ref notes_write [note_batch 3])"
proof
  show order: "finish_order lance_ref notes_write two_notes [1, 0]" by (rule two_notes_order)
  obtain summary sh' t where out: "dataset_commit lance_ref notes_write (ds_shared two_notes) = (Ok summary, sh', Some t)"
    using two_notes_commit by blast
  from commit_publishes_finished [OF lance_ref_documented order_reachable [OF order] out] order
  have "concat (map id (tx_fragments t))
      = concat (map (\<lambda>i. stored_rows (\<lambda>b. [b]) lance_ref notes_write (batches_of (sent (ds_writers two_notes ! i)))) [1, 0])"
    by fastforce
  with out show "\<exists>summary sh' t. dataset_commit lance_ref notes_write (ds_shared two_notes) = (Ok summary, sh', Some t)
      \<and> concat (tx_fragments t) = stored_rows (\<lambda>b. [b]) lance_ref notes_write [note_batch 2]
          @ stored_rows (\<lambda>b. [b]) lance_ref notes_write [note_batch 3]"
    by (simp add: two_notes_def)
qed

text \<open>
  C22: An operation that waits for the task always returns: the task can then take at most
  four more steps of its own, in whatever order, and as long as it has not ended, one of them
  is possible without a cancellation; once it has ended, the operation can complete.
\<close>

theorem pending_operation_returns:
  assumes "insert_documented F B E" "(system_step E W)\<^sup>*\<^sup>* created s" "g \<in> set (ds_writers s)"
    and "fg_pending g = Some op" "(worker_step E W ^^ n) (g, sh) (g', sh')"
  shows "n \<le> 4 \<and> fg_pending g' = Some op
    \<and> (case fg_worker g' of
         Ended j \<Rightarrow> \<exists>st sh''. resume W op j (fg_state g') sh' = (st, sh'')
           \<and> client_step W (g', sh') (g'\<lparr>fg_state := st, fg_pending := None\<rparr>, sh'')
       | _ \<Rightarrow> advances E W (g', sh'))"
proof -
  obtain a where a: "documented_sim F B E W s a" by (rule reached [OF assms(1,2)])
  with assms(3) have "worker_inv E W g" "client_inv g"
    by (auto simp: documented_sim_def system_sim_def writer_sim_def list_all2_conv_all_nth in_set_conv_nth)
  from pending_returns [OF this assms(4,5)] show ?thesis .
qed

theorem pending_operation_returns_witness:
  "\<exists>st sh'. client_step notes_write (notes_ended 3, \<lparr>sw_rows_written = 3, sw_transactions = []\<rparr>)
     ((notes_ended 3)\<lparr>fg_state := st, fg_pending := None\<rparr>, sh')"
proof -
  let ?sh = "\<lparr>sw_rows_written = 3, sw_transactions = []\<rparr> :: (unit record_batch list, unit) transaction shared_write"
  have g: "fg_pending (notes_ended 3) = Some (PendingFinish True)" by simp
  have run: "(worker_step lance_ref notes_write ^^ 0) (notes_ended 3, ?sh) (notes_ended 3, ?sh)" by simp
  have "notes_ended 3 \<in> set (ds_writers \<lparr>ds_writers = [notes_ended 3], ds_shared = ?sh\<rparr>)" by simp
  from pending_operation_returns [OF lance_ref_documented notes_reach [OF notes_finish, of 3] _ g run] this
  show ?thesis by auto
qed

text \<open>
  The order is that in which the calls of \<open>finish\<close> return, not the one in which they are made, as
  the C header has it: here the first writer is already waiting in \<open>finish\<close> when the second has
  not yet been given a batch, and the rows of the second come first.
\<close>

lemma call_order_not_kept:
  "\<exists>s. (system_step lance_ref notes_write)\<^sup>*\<^sup>* created s
    \<and> map fg_state (ds_writers s) = [Open, Open] \<and> map fg_pending (ds_writers s) = [Some (PendingFinish True), None]
    \<and> (system_step lance_ref notes_write)\<^sup>*\<^sup>* s two_notes
    \<and> sw_transactions (ds_shared two_notes) = [notes_transaction 2, notes_transaction 3]"
proof (intro exI conjI)
  let ?s = "\<lparr>ds_writers = [notes_ended 3, spawn], ds_shared = \<lparr>sw_rows_written = 3, sw_transactions = []\<rparr>\<rparr>
    :: (unit, (unit record_batch list, unit) transaction) dataset_system"
  let ?s1 = "\<lparr>ds_writers = [notes_ended 3, notes_finished 2],
    ds_shared = \<lparr>sw_rows_written = 5, sw_transactions = [notes_transaction 2]\<rparr>\<rparr>"
  have "(system_step lance_ref notes_write)\<^sup>*\<^sup>* created
      \<lparr>ds_writers = [notes_ended 3], ds_shared = \<lparr>sw_rows_written = 3, sw_transactions = []\<rparr>\<rparr>"
    using notes_reach [OF notes_finish, of 3] by simp
  from rtranclp.rtrancl_into_rtrancl [OF this system_step.fragment_writer]
  show "(system_step lance_ref notes_write)\<^sup>*\<^sup>* created ?s" by simp
  show "map fg_state (ds_writers ?s) = [Open, Open]" "map fg_pending (ds_writers ?s) = [Some (PendingFinish True), None]"
    "sw_transactions (ds_shared two_notes) = [notes_transaction 2, notes_transaction 3]"
    by (simp_all add: two_notes_def spawn_def)
  have "(system_step lance_ref notes_write)\<^sup>*\<^sup>* ?s ?s1"
    using writer_run [of lance_ref notes_write ?s 1 "notes_finished 2" "ds_shared ?s1"] notes_life [of "ds_shared ?s" 2]
    by (simp add: add_transaction_def)
  also have "(system_step lance_ref notes_write)\<^sup>*\<^sup>* ?s1 two_notes"
    using writer_run [of lance_ref notes_write ?s1 0 "notes_finished 3" "ds_shared two_notes"]
      r_into_rtranclp [where r = "fragment_step lance_ref notes_write", OF notes_join [of 3 "ds_shared ?s1"]]
    by (simp add: two_notes_def add_transaction_def)
  finally show "(system_step lance_ref notes_write)\<^sup>*\<^sup>* ?s two_notes" .
qed

section \<open>The row counter\<close>

definition rows_received :: "('p, 'f, 'x, 'd) lance_env \<Rightarrow> 'd dataset_write \<Rightarrow> 'p record_batch message list \<Rightarrow> u64" where
  "rows_received E W ms = (case configure_column_storage E (dw_schema W, map Ok (batches_of ms)) (dw_options W) of
     Ok (_, items) \<Rightarrow> counted_rows items | Err _ \<Rightarrow> 0)"

lemma rows_received_items:
  assumes "stored_schema (le_arrow E) (le_blob E) (dw_schema W) (dw_options W) = Ok out"
  shows "rows_received E W ms = counted_rows (map (store_item E W out) (map Ok (batches_of ms)))"
  by (simp add: rows_received_def configure_items [OF assms])

lemma rows_received_Nil [simp]: "rows_received E W [] = 0"
  by (cases "stored_schema (le_arrow E) (le_blob E) (dw_schema W) (dw_options W)")
    (simp_all add: rows_received_items counted_rows_def, simp add: rows_received_def configure_column_storage_def)

lemma worker_step_rows:
  assumes "worker_step E W (g, sh) (g', sh')" "worker_inv E W g"
  shows "sw_rows_written sh' + rows_received E W (fg_received g) = sw_rows_written sh + rows_received E W (fg_received g')"
  using assms(1)
proof (cases rule: worker_step_elim)
  case (receive out b rest)
  then have "stored_schema (le_arrow E) (le_blob E) (dw_schema W) (dw_options W) = Ok out"
    "Finish \<notin> set (fg_received g)"
    using assms(2) by (simp_all add: worker_inv_def)
  with receive show ?thesis by (simp add: rows_received_items batches_of_append counted_rows_def)
qed (simp_all add: rows_received_def batches_of_finish)

lemma sum_list_replaced:
  fixes h :: "'b \<Rightarrow> 'a::len word"
  assumes "i < length xs" "y' + h (xs ! i) = y + h x"
  shows "y = sum_list (map h xs) \<Longrightarrow> y' = sum_list (map h (xs[i := x]))"
proof -
  have xs: "xs = take i xs @ xs ! i # drop (Suc i) xs" using assms(1) by (rule id_take_nth_drop)
  have old: "sum_list (map h xs) = sum_list (map h (take i xs)) + h (xs ! i) + sum_list (map h (drop (Suc i) xs))"
    by (subst (1) xs) simp
  have new: "sum_list (map h (xs[i := x])) = sum_list (map h (take i xs)) + h x + sum_list (map h (drop (Suc i) xs))"
    using assms(1) by (simp add: upd_conv_take_nth_drop)
  assume "y = sum_list (map h xs)"
  then show "y' = sum_list (map h (xs[i := x]))" using old new assms(2) by (simp add: algebra_simps)
qed

lemma rows_counted:
  assumes "insert_documented F B E" "(system_step E W)\<^sup>*\<^sup>* created s"
  shows "sw_rows_written (ds_shared s) = sum_list (map (\<lambda>g. rows_received E W (fg_received g)) (ds_writers s))"
  using assms(2)
proof (induction rule: rtranclp_induct)
  case base
  show ?case by (simp add: created_def)
next
  case (step s s')
  obtain a where a: "documented_sim F B E W s a" by (rule reached [OF assms(1) step.hyps(1)])
  from step.hyps(2) show ?case
  proof cases
    case fragment_writer
    then show ?thesis
      using step.IH by (simp add: spawn_def)
  next
    case (runs i g sh)
    have sim: "writer_sim E W (ds_writers s ! i) (ab_writers a ! i)"
      using a runs(2) by (auto simp: documented_sim_def system_sim_def list_all2_conv_all_nth)
    then have inv: "worker_inv E W (ds_writers s ! i)" "client_inv (ds_writers s ! i)" by (simp_all add: writer_sim_def)
    from runs(3) have "worker_step E W (ds_writers s ! i, ds_shared s) (g, sh) \<or> client_step W (ds_writers s ! i, ds_shared s) (g, sh)"
      by (simp add: fragment_step_def)
    then have "sw_rows_written sh + rows_received E W (fg_received (ds_writers s ! i))
        = sw_rows_written (ds_shared s) + rows_received E W (fg_received g)"
      using worker_step_rows [OF _ inv(1)] client_step_inv [OF _ assms(1) inv] by fastforce
    from sum_list_replaced [OF runs(2), of "sw_rows_written sh" "\<lambda>g. rows_received E W (fg_received g)", OF this step.IH]
    show ?thesis using runs(1) by simp
  qed
qed


text \<open>
  The row counter that \<open>commit\<close> reports is, modulo 2^64, the rows of all batches that
  the tasks of all writers took from their channels, whether or not the writer finished.
\<close>

lemma rows_written_counts_received:
  assumes "insert_documented F B E" "(system_step E W)\<^sup>*\<^sup>* created s"
  shows "sw_rows_written (ds_shared s) = sum_list (map (\<lambda>g. rows_received E W (fg_received g)) (ds_writers s))"
  by (rule rows_counted [OF assms])


lemma rows_written_counts_received_example:
  "(3 :: u64) = rows_received lance_ref notes_write [Batch (note_batch 3), Finish]"
  using rows_written_counts_received [OF lance_ref_documented notes_reach [OF notes_finish, of 3]] by simp

text \<open>
  C23: The row counter of a commit is not the number of rows it publishes: a writer that took
  a batch of three rows and was dropped before it finished leaves no transaction, and a
  commit publishes no row, yet reports three rows written.
\<close>

theorem dropped_writer_rows_reported:
  "\<exists>s. (system_step lance_ref notes_write)\<^sup>*\<^sup>* created s
    \<and> map fg_state (ds_writers s) = [Failed]
    \<and> (\<exists>summary sh' t. dataset_commit lance_ref notes_write (ds_shared s) = (Ok summary, sh', Some t)
        \<and> concat (tx_fragments t) = [] \<and> ws_rows_written summary = 3)"
proof -
  let ?sh = "\<lparr>sw_rows_written = 3, sw_transactions = []\<rparr> :: (unit record_batch list, unit) transaction shared_write"
  let ?g = "(writing_notes 3)\<lparr>fg_sender := False, fg_state := Failed, fg_pending := None\<rparr>"
  have "notes_steps (writing_notes 3, ?sh) (?g, ?sh)"
    unfolding fragment_step_def [abs_def]
    by (intro r_into_rtranclp disjI2 client_step.drop_writer) (simp add: writing_notes_def)
  from notes_reach [of 3, simplified, OF this]
  have reach: "(system_step lance_ref notes_write)\<^sup>*\<^sup>* created \<lparr>ds_writers = [?g], ds_shared = ?sh\<rparr>" .
  have "stored_schema (le_arrow lance_ref) (le_blob lance_ref) notes_schema write_options_default = Ok notes_schema"
    by (rule notes_stored)
  then have "write_fragments lance_ref notes_write (empty_stream notes_schema)
      = (Ok \<lparr>tx_operation = OpOverwrite [[]] (), tx_rest = ()\<rparr>, 0)"
    by (simp add: write_fragments_def configure_column_storage_def empty_stream_def insert_run.simps counted_rows_def
        insert_result_def context_of_def)
      (simp add: lance_ref_def insert_result_def context_of_def ok_batches_def List.map_filter_def notes_write_def counted_rows_def)
  then have "\<exists>summary sh' t. dataset_commit lance_ref notes_write ?sh = (Ok summary, sh', Some t)
      \<and> concat (tx_fragments t) = [] \<and> ws_rows_written summary = 3"
    by (simp add: dataset_commit_def publish_def merge_transactions_def tx_fragments_def index_plan_create_def
        vector_partitions_def context_of_def lance_ref_def)
  with reach show ?thesis by (intro exI [of _ "\<lparr>ds_writers = [?g], ds_shared = ?sh\<rparr>"]) simp
qed

end
