(* ===== verification/LanceWriter.thy ===== *)
theory LanceWriter
  imports DatasetSystem
begin

text \<open>
  \<open>LanceWriter\<close> of \<open>rust/src/sink/lance.rs\<close>: a dataset write with one fragment writer that is
  committed by \<open>finish\<close>.
\<close>

definition lance_writer_create ::
  "storage_env \<Rightarrow> ('p, 'f, 'x, 'd) lance_env \<Rightarrow> string option \<Rightarrow> schema \<Rightarrow> write_options \<Rightarrow>
   ('d dataset_write \<times> ('p, ('f, 'x) transaction) dataset_system) res" where
  "lance_writer_create S E destination s w =
     map_ok (\<lambda>(W, sh). (W, \<lparr>ds_writers = [spawn], ds_shared = sh\<rparr>)) (dataset_create S E destination s w)"

text \<open>\<open>schema\<close> and \<open>write_batch\<close> are those of its fragment writer.\<close>

definition lance_writer_schema :: "'d dataset_write \<Rightarrow> schema" where
  "lance_writer_schema W = dw_schema W"

definition lance_writer_write_batch ::
  "'d dataset_write \<Rightarrow> schema \<Rightarrow> bool \<Rightarrow> 't joined \<Rightarrow> sink_state \<Rightarrow> unit res \<times> sink_state" where
  "lance_writer_write_batch W batch_schema was_sent j st = write_batch (lance_writer_schema W) batch_schema was_sent j st"

text \<open>
  \<open>finish\<close>: the dataset is taken first, so that a second call fails; the result, whether a
  dataset is left, the writer's state, the shared state and what was published.
\<close>

definition lance_writer_finish ::
  "('p, 'f, 'x, 'd) lance_env \<Rightarrow> 'd dataset_write \<Rightarrow> bool \<Rightarrow> bool \<Rightarrow> ('f, 'x) transaction joined \<Rightarrow> sink_state \<Rightarrow>
   ('f, 'x) transaction shared_write \<Rightarrow>
   write_summary res \<times> bool \<times> sink_state \<times> ('f, 'x) transaction shared_write \<times> ('f, 'x) transaction option" where
  "lance_writer_finish E W has_dataset was_sent j st sh =
     (if \<not> has_dataset then (Err closed_error, False, st, sh, None)
      else (case finish was_sent j st sh of
          (Err e, st', sh') \<Rightarrow> (Err e, False, st', sh', None)
        | (Ok _, st', sh') \<Rightarrow> (case dataset_commit E W sh' of
            (r, sh'', published) \<Rightarrow> (r, False, st', sh'', published))))"

lemma lone_writer_open:
  assumes "insert_documented F B E" "(system_step E W)\<^sup>*\<^sup>* created \<lparr>ds_writers = [g], ds_shared = sh\<rparr>"
    and "fg_state g \<noteq> Finished"
  shows "worker_inv E W g \<and> client_inv g \<and> sw_transactions sh = []"
proof -
  obtain a where a: "documented_sim F B E W \<lparr>ds_writers = [g], ds_shared = sh\<rparr> a"
    "mset (ab_log a) = mset (map (\<lambda>g. batches_of (sent g)) (filter (\<lambda>g. fg_state g = Finished) [g]))"
    by (rule reached [OF assms(1,2)]) simp
  then have "ab_log a = []" using assms(3) by simp
  with a(1) show ?thesis
    by (auto simp: documented_sim_def system_sim_def list_all2_Cons1 writer_sim_def)
qed

text \<open>
  When \<open>finish\<close> of a writer gets its result, after whatever run of the writer and its
  task, what it publishes is one transaction with the rows of exactly the batches that
  \<open>write_batch\<close> accepted, in order; a result of success means that it has published, and
  counts the rows that were received, all of them; otherwise nothing is published unless the
  indexes could not be built. Either way no dataset is left to be committed again.
\<close>

lemma lance_writer_finish_publishes:
  assumes "insert_documented F B E" "(system_step E W)\<^sup>*\<^sup>* created \<lparr>ds_writers = [g], ds_shared = sh\<rparr>"
    and "fg_state g = Open" "fg_worker g = Ended j"
    and "lance_writer_finish E W True was_sent j (fg_state g) sh = (r, left, st, sh', published)"
  shows "\<not> left \<and> sw_transactions sh' = []
    \<and> (case published of
         Some t \<Rightarrow> was_sent \<and> st = Finished \<and> concat (map F (tx_fragments t)) = stored_rows B E W (batches_of (sent g))
       | None \<Rightarrow> \<exists>e. r = Err e)
    \<and> (case r of Ok summary \<Rightarrow> published \<noteq> None \<and> ws_rows_written summary = rows_received E W (sent g) | Err _ \<Rightarrow> True)"
proof -
  have "fg_state g \<noteq> Finished" using assms(3) by simp
  note inv = lone_writer_open [OF assms(1,2) this]
  obtain fr fst' fsh where fin: "finish was_sent j (fg_state g) sh = (fr, fst', fsh)"
    by (cases "finish was_sent j (fg_state g) sh") auto
  from finish_cases [OF fin] show ?thesis
  proof (elim disjE conjE exE)
    fix t
    assume ok: "was_sent" "fst' = Finished" "fr = Ok ()" "j = Ok (Ok t)" "fsh = add_transaction t sh"
    have sealed: "finishing (sent g) \<and> sent g = fg_received g \<and> carries F W (stored_rows B E W (batches_of (sent g))) t"
      using inv assms(4) ok(4) by (intro ended_with_transaction [OF assms(1)]) simp_all
    then have carry: "carries F W (stored_rows B E W (batches_of (sent g))) t" by blast
    have commit: "dataset_commit E W (add_transaction t sh) = (r, sh', published)" "\<not> left" "st = Finished"
      using assms(5) fin ok by (auto simp: lance_writer_finish_def split: prod.splits)
    have one: "list_all2 (carries F W) [stored_rows B E W (batches_of (sent g))] (sw_transactions (add_transaction t sh))"
      using inv carry by (simp add: add_transaction_def)
    have "sw_rows_written sh = rows_received E W (fg_received g)"
      using rows_counted [OF assms(1,2)] by simp
    then have rows: "sw_rows_written (add_transaction t sh) = rows_received E W (sent g)"
      using sealed by (simp add: add_transaction_def)
    from commit_carries [OF assms(1) one commit(1)] commit(2,3) ok(1) rows show ?thesis
      by (cases r; cases published) (simp_all add: carries_def)
  next
    fix e
    assume bad: "fr = Err e" "fsh = sh"
    then show ?thesis using assms(5) fin inv by (auto simp: lance_writer_finish_def)
  qed
qed

lemma lance_writer_finish_publishes_example:
  "\<exists>summary sh' t. lance_writer_finish lance_ref notes_write True True (Ok (Ok (notes_transaction 3)))
      Open \<lparr>sw_rows_written = 3, sw_transactions = []\<rparr> = (Ok summary, False, Finished, sh', Some t)
    \<and> concat (tx_fragments t) = stored_rows (\<lambda>b. [b]) lance_ref notes_write [note_batch 3]"
proof -
  let ?t = "notes_transaction 3"
  let ?sh = "\<lparr>sw_rows_written = 3, sw_transactions = []\<rparr> :: (unit record_batch list, unit) transaction shared_write"
  have g: "fg_state (notes_ended 3) = Open" "fg_worker (notes_ended 3) = Ended (Ok (Ok ?t))" "batches_of (sent (notes_ended 3)) = [note_batch 3]"
    by simp_all
  obtain r left st sh' published where out:
    "lance_writer_finish lance_ref notes_write True True (Ok (Ok ?t)) (fg_state (notes_ended 3)) ?sh = (r, left, st, sh', published)"
    by (cases "lance_writer_finish lance_ref notes_write True True (Ok (Ok ?t)) (fg_state (notes_ended 3)) ?sh") auto
  note result = lance_writer_finish_publishes [OF lance_ref_documented notes_reach [OF notes_finish, of 3, simplified] g(1,2) out]
  have "\<exists>summary. r = Ok summary"
    using out unfolding g(1)
    by (auto simp: lance_writer_finish_def finish_def join_worker_def close_input_def context_of_def add_transaction_def
        dataset_commit_def publish_def merge_transactions_def index_plan_create_def vector_partitions_def lance_ref_def)
  with result out g show ?thesis by (cases published) auto
qed

end
