(* ===== verification/RowGroup.thy ===== *)
theory RowGroup
  imports Errors Simulation
begin

text \<open>
  \<open>rust/src/source/parquet.rs\<close>, the reading of one row group ahead of its consumer:
  \<open>ReadAheadBudget\<close> and \<open>spawn_row_group\<close>. The task that decodes and the consumer that polls
  run concurrently over an unbounded channel whose queued bytes the budget bounds; the step
  relation has one step per await. A batch is a value and its memory size; the reader is the
  list of items it will yield and, when decoding panics after them, how.
\<close>

section \<open>The budget\<close>

definition u32_or_max :: "usize \<Rightarrow> u32" where
  "u32_or_max n = (if unat n < 2 ^ 32 then ucast n else u_max)"

definition budget_capacity :: "usize \<Rightarrow> u32" where
  "budget_capacity bytes = max (u32_or_max bytes) 1"

definition reserve_permits :: "u32 \<Rightarrow> usize \<Rightarrow> u32" where
  "reserve_permits capacity size_of_batch =
     (let bytes = u32_or_max size_of_batch
      in if bytes < 1 then 1 else if capacity < bytes then capacity else bytes)"

lemma unat_u32_or_max: "unat (u32_or_max n) = min (unat n) (2 ^ 32 - 1)"
  by (auto simp: u32_or_max_def unsigned_ucast_eq take_bit_nat_eq_self unat_max)

lemma capacity_pos: "0 < unat (budget_capacity bytes)"
  by (auto simp: budget_capacity_def max_def unat_gt_0 word_le_nat_alt)

lemma unat_reserve_permits:
  "0 < unat capacity \<Longrightarrow> unat (reserve_permits capacity n) = min (max 1 (unat n)) (unat capacity)"
  using unsigned_less [of capacity, where ?'a = nat]
  by (auto simp: reserve_permits_def Let_def word_less_nat_alt unat_u32_or_max)

section \<open>The task and its consumer\<close>

type_synonym 'b row_item = "('b \<times> usize, string) result"

datatype 'b reading = Decoding | Reserving "'b \<times> usize" | Finished | Failed string

record 'b row_group =
  rg_unread :: "'b row_item list"
  rg_crash :: "string option"
  rg_task :: "'b reading"
  rg_permits :: nat
  rg_queue :: "('b row_item \<times> nat) list"
  rg_emitted :: "'b res list"
  rg_over :: bool

definition row_group_start :: "u32 \<Rightarrow> 'b row_item list \<Rightarrow> string option \<Rightarrow> 'b row_group" where
  "row_group_start capacity items crash =
     \<lparr>rg_unread = items, rg_crash = crash, rg_task = Decoding, rg_permits = unat capacity, rg_queue = [],
      rg_emitted = [], rg_over = False\<rparr>"

definition item_error :: "'b row_item \<Rightarrow> 'b res" where
  "item_error i = map_err parquet_error (map_ok fst i)"

definition crash_error :: "string \<Rightarrow> error" where
  "crash_error e = error_message (''Parquet row group task failed: '' @ e)"

inductive row_group_step :: "u32 \<Rightarrow> 'b row_group \<Rightarrow> 'b row_group \<Rightarrow> bool" for capacity where
  decode: "rg_task g = Decoding \<Longrightarrow> rg_unread g = Ok b # rest \<Longrightarrow>
    row_group_step capacity g (g\<lparr>rg_unread := rest, rg_task := Reserving b\<rparr>)"
| reserve: "rg_task g = Reserving b \<Longrightarrow> n = unat (reserve_permits capacity (snd b)) \<Longrightarrow> n \<le> rg_permits g \<Longrightarrow>
    row_group_step capacity g
      (g\<lparr>rg_task := Decoding, rg_permits := rg_permits g - n, rg_queue := rg_queue g @ [(Ok b, n)]\<rparr>)"
| decode_error: "rg_task g = Decoding \<Longrightarrow> rg_unread g = Err e # rest \<Longrightarrow>
    row_group_step capacity g (g\<lparr>rg_unread := rest, rg_queue := rg_queue g @ [(Err e, 0)]\<rparr>)"
| end_of_group: "rg_task g = Decoding \<Longrightarrow> rg_unread g = [] \<Longrightarrow>
    row_group_step capacity g (g\<lparr>rg_task := (case rg_crash g of None \<Rightarrow> Finished | Some e \<Rightarrow> Failed e)\<rparr>)"
| poll: "rg_queue g = (i, n) # rest \<Longrightarrow>
    row_group_step capacity g
      (g\<lparr>rg_queue := rest, rg_permits := rg_permits g + n, rg_emitted := rg_emitted g @ [item_error i]\<rparr>)"
| completion: "rg_queue g = [] \<Longrightarrow> \<not> rg_over g \<Longrightarrow> rg_task g = Finished \<Longrightarrow>
    row_group_step capacity g (g\<lparr>rg_over := True\<rparr>)"
| failure: "rg_queue g = [] \<Longrightarrow> \<not> rg_over g \<Longrightarrow> rg_task g = Failed e \<Longrightarrow>
    row_group_step capacity g (g\<lparr>rg_over := True, rg_emitted := rg_emitted g @ [Err (crash_error e)]\<rparr>)"

inductive_cases row_group_stepE: "row_group_step capacity g g'"

text \<open>What the consumer of a row group is promised.\<close>

definition row_group_stream :: "'b row_item list \<Rightarrow> string option \<Rightarrow> 'b res list" where
  "row_group_stream items crash =
     map item_error items @ (case crash of None \<Rightarrow> [] | Some e \<Rightarrow> [Err (crash_error e)])"

section \<open>Invariants\<close>

definition held :: "'b row_group \<Rightarrow> 'b row_item list" where
  "held g = (case rg_task g of Reserving b \<Rightarrow> [Ok b] | _ \<Rightarrow> [])"

fun task_ended :: "'b reading \<Rightarrow> bool" where
  "task_ended Finished = True"
| "task_ended (Failed e) = True"
| "task_ended (Reserving b) = False"
| "task_ended Decoding = False"

definition queued_sizes :: "'b row_group \<Rightarrow> nat list" where
  "queued_sizes g = map (\<lambda>(i, n). case i of Ok b \<Rightarrow> unat (snd b) | Err _ \<Rightarrow> 0) (rg_queue g)"

definition item_permits :: "u32 \<Rightarrow> 'b row_item \<Rightarrow> nat" where
  "item_permits capacity i = (case i of Ok b \<Rightarrow> unat (reserve_permits capacity (snd b)) | Err _ \<Rightarrow> 0)"

definition row_group_inv :: "u32 \<Rightarrow> 'b row_item list \<Rightarrow> string option \<Rightarrow> 'b row_group \<Rightarrow> bool" where
  "row_group_inv capacity items crash g \<longleftrightarrow> rg_crash g = crash
     \<and> rg_permits g + sum_list (map snd (rg_queue g)) = unat capacity
     \<and> list_all (\<lambda>(i, n). n = item_permits capacity i) (rg_queue g)
     \<and> (task_ended (rg_task g) \<longrightarrow> rg_unread g = []
          \<and> rg_task g = (case crash of None \<Rightarrow> Finished | Some e \<Rightarrow> Failed e))
     \<and> (if rg_over g then rg_emitted g = row_group_stream items crash \<and> rg_queue g = []
            \<and> task_ended (rg_task g)
          else rg_emitted g @ map item_error (map fst (rg_queue g) @ held g @ rg_unread g) = map item_error items)"

lemma row_group_inv_start: "row_group_inv capacity items crash (row_group_start capacity items crash)"
  by (simp add: row_group_inv_def row_group_start_def held_def)

lemma row_group_inv_step:
  assumes "row_group_inv capacity items crash g" "row_group_step capacity g g'"
  shows "row_group_inv capacity items crash g'"
  using assms(2)
proof cases
  case (end_of_group)
  with assms(1) show ?thesis by (cases crash) (auto simp: row_group_inv_def held_def)
next
  case (failure e)
  then have "crash = Some e" using assms(1) by (auto simp: row_group_inv_def split: option.splits)
  with failure assms(1) show ?thesis by (auto simp: row_group_inv_def held_def row_group_stream_def)
next
  case completion
  then have "crash = None" using assms(1) by (auto simp: row_group_inv_def split: option.splits)
  with completion assms(1) show ?thesis by (auto simp: row_group_inv_def held_def row_group_stream_def)
qed (use assms(1) in \<open>auto simp: row_group_inv_def held_def item_permits_def\<close>)

interpretation budget: step_invariant "row_group_step capacity" "row_group_inv capacity items crash"
  for capacity :: u32 and items :: "'b row_item list" and crash
  by unfold_locales (rule row_group_inv_step)

section \<open>What reading ahead costs and delivers\<close>

text \<open>
  Sizes paid for with permits: in full up to the capacity, and with the whole capacity beyond it.
  Within one capacity they cost at most the permits, or the capacity went to a single one.
\<close>

lemma permits_bound_sizes:
  fixes capacity :: nat
  assumes "list_all (\<lambda>(size, n). if size \<le> capacity then size \<le> n else n = capacity) payments" "0 < capacity"
    "sum_list (map snd payments) \<le> capacity"
  shows "sum_list (map fst payments) \<le> sum_list (map snd payments)
    \<or> sum_list (map snd payments) = capacity \<and> (\<exists>k. filter ((<) 0) (map fst payments) = [k])"
  using assms
proof (induction payments)
  case (Cons p payments)
  obtain size n where p: "p = (size, n)" by fastforce
  note bounds = Cons.prems [unfolded p, simplified]
  from bounds Cons.IH have rest: "sum_list (map fst payments) \<le> sum_list (map snd payments)
    \<or> sum_list (map snd payments) = capacity \<and> (\<exists>k. filter ((<) 0) (map fst payments) = [k])" by simp
  show ?case
  proof (cases "size \<le> capacity")
    case True
    with bounds rest show ?thesis by (auto simp: p)
  next
    case False
    with bounds have "n = capacity" "sum_list (map snd payments) = 0" by auto
    with rest bounds(2) have "sum_list (map fst payments) = 0" by auto
    then have "filter ((<) 0) (map fst payments) = []" by (auto simp: filter_empty_conv)
    with False \<open>n = capacity\<close> \<open>sum_list (map snd payments) = 0\<close> show ?thesis by (simp add: p)
  qed
qed simp

text \<open>
  C29: The batches of a row group that wait for the consumer together take at most
  \<open>read_ahead_bytes\<close>, except that a batch larger than that waits alone: whatever the decoding,
  its errors and the polls, either the sizes in the queue sum up to at most the budget, or
  only one of them is not zero.
\<close>

theorem read_ahead_bounded:
  assumes "bytes \<noteq> 0"
    and "(row_group_step (budget_capacity bytes))\<^sup>*\<^sup>* (row_group_start (budget_capacity bytes) items crash) g"
  shows "sum_list (queued_sizes g) \<le> unat bytes \<or> (\<exists>k. filter ((<) 0) (queued_sizes g) = [k])"
proof -
  let ?c = "budget_capacity bytes"
  let ?payments = "map (\<lambda>(i, n). (case i of Ok b \<Rightarrow> unat (snd b) | Err _ \<Rightarrow> 0, n)) (rg_queue g)"
  have cap: "0 < unat ?c" "unat ?c \<le> unat bytes"
    using assms(1) capacity_pos [of bytes] unat_u32_or_max [of bytes]
    by (auto simp: budget_capacity_def max_def word_le_nat_alt unat_gt_0 Suc_le_eq)
  have sizes: "map fst ?payments = queued_sizes g" "map snd ?payments = map snd (rg_queue g)"
    by (auto simp: queued_sizes_def)
  have inv: "row_group_inv ?c items crash g"
    using budget.inv_run [OF assms(2) row_group_inv_start] .
  have "list_all (\<lambda>(size, n). if size \<le> unat ?c then size \<le> n else n = unat ?c) ?payments"
    using inv cap(1) unfolding row_group_inv_def list.pred_map comp_def
    by (auto simp: item_permits_def unat_reserve_permits elim!: list.pred_mono_strong split: result.splits)
  moreover have "sum_list (map snd ?payments) \<le> unat ?c" unfolding sizes using inv by (simp add: row_group_inv_def)
  ultimately show ?thesis using permits_bound_sizes [OF _ cap(1), of ?payments] cap(2) unfolding sizes by fastforce
qed

definition row_group_work :: "'b row_group \<Rightarrow> nat" where
  "row_group_work g = 3 * length (rg_unread g) + (case rg_task g of Decoding \<Rightarrow> 1 | Reserving _ \<Rightarrow> 3 | _ \<Rightarrow> 0)
     + length (rg_queue g) + (if rg_over g then 0 else 1)"

lemma row_group_work_decreases: "row_group_step capacity g g' \<Longrightarrow> row_group_work g' < row_group_work g"
  by (erule row_group_stepE) (auto simp: row_group_work_def split: option.splits)

lemma row_group_progress:
  assumes "row_group_inv capacity items crash g" "\<not> rg_over g" "0 < unat capacity"
  shows "\<exists>g'. row_group_step capacity g g'"
proof (cases "rg_queue g")
  case (Cons q rest)
  then show ?thesis by (cases q) (blast intro: row_group_step.poll)
next
  case Nil
  show ?thesis
  proof (cases "rg_task g")
    case Decoding
    show ?thesis
    proof (cases "rg_unread g")
      case Nil
      with Decoding show ?thesis by (blast intro: row_group_step.end_of_group)
    next
      case (Cons i rest)
      with Decoding show ?thesis
        by (cases i) (blast intro: row_group_step.decode row_group_step.decode_error)+
    qed
  next
    case (Reserving b)
    have "rg_permits g = unat capacity" using assms(1) Nil by (simp add: row_group_inv_def)
    then have "unat (reserve_permits capacity (snd b)) \<le> rg_permits g"
      using assms(3) by (simp add: unat_reserve_permits)
    with Reserving show ?thesis by (blast intro: row_group_step.reserve)
  qed (use Nil assms(2) in \<open>blast intro: row_group_step.completion row_group_step.failure\<close>)+
qed

text \<open>
  C30: Reading a row group always ends and loses nothing. The task and the consumer can take
  at most three steps per item and two more; until the stream is over, one of them can move,
  so a batch larger than the whole budget cannot block them; and a stream that is over has
  emitted every item the reader decoded, in order, and the panic of the task, if it panicked,
  as a last error.
\<close>

theorem row_group_delivers:
  assumes "(row_group_step (budget_capacity bytes) ^^ n) (row_group_start (budget_capacity bytes) items crash) g"
  shows "n \<le> 3 * length items + 2
    \<and> (if rg_over g then rg_emitted g = row_group_stream items crash
        else \<exists>g'. row_group_step (budget_capacity bytes) g g')"
proof -
  let ?c = "budget_capacity bytes"
  have work: "(row_group_step ?c ^^ n) g0 g \<Longrightarrow> n + row_group_work g \<le> row_group_work g0" for g0 :: "'a row_group" and n g
  proof (induction n arbitrary: g)
    case (Suc n)
    then obtain h where "(row_group_step ?c ^^ n) g0 h" "row_group_step ?c h g" by auto
    with Suc.IH [of h] row_group_work_decreases [of ?c h g] show ?case by simp
  qed simp
  have "(row_group_step ?c)\<^sup>*\<^sup>* (row_group_start ?c items crash) g" using assms by (rule relpowp_imp_rtranclp)
  then have inv: "row_group_inv ?c items crash g" by (rule budget.inv_run [OF _ row_group_inv_start])
  have "n \<le> 3 * length items + 2"
    using work [OF assms] by (simp add: row_group_work_def row_group_start_def)
  moreover have "rg_emitted g = row_group_stream items crash" if "rg_over g"
    using that inv by (simp add: row_group_inv_def)
  moreover have "\<exists>g'. row_group_step ?c g g'" if "\<not> rg_over g"
    using row_group_progress [OF inv that capacity_pos] .
  ultimately show ?thesis by simp
qed

theorem read_ahead_bounded_witness:
  "\<exists>g. (row_group_step (budget_capacity 10))\<^sup>*\<^sup>* (row_group_start (budget_capacity 10) [Ok (''a'', 25)] None) g
     \<and> queued_sizes g = [25] \<and> (sum_list (queued_sizes g) \<le> 10 \<or> (\<exists>k. filter ((<) 0) (queued_sizes g) = [k]))"
proof -
  let ?c = "budget_capacity 10"
  let ?g0 = "row_group_start ?c [Ok (''a'', 25)] None"
  let ?g1 = "?g0\<lparr>rg_unread := [], rg_task := Reserving (''a'', 25)\<rparr>"
  let ?n = "unat (reserve_permits ?c (snd (''a'', 25)))"
  let ?g2 = "?g1\<lparr>rg_task := Decoding, rg_permits := rg_permits ?g1 - ?n, rg_queue := rg_queue ?g1 @ [(Ok (''a'', 25), ?n)]\<rparr>"
  have "row_group_step ?c ?g0 ?g1" by (rule row_group_step.decode) (simp_all add: row_group_start_def)
  moreover have "row_group_step ?c ?g1 ?g2"
    by (rule row_group_step.reserve) (simp_all add: row_group_start_def unat_reserve_permits capacity_pos)
  ultimately have run: "(row_group_step ?c)\<^sup>*\<^sup>* ?g0 ?g2" by simp
  have "(10 :: usize) \<noteq> 0" by simp
  from read_ahead_bounded [OF this run] run show ?thesis
    by (intro exI [of _ ?g2]) (simp add: queued_sizes_def row_group_start_def)
qed

theorem row_group_delivers_witness:
  "\<exists>g'. row_group_step (budget_capacity 1) (row_group_start (budget_capacity 1) [Ok (''a'', 25), Err ''bad page''] None) g'"
proof -
  let ?g0 = "row_group_start (budget_capacity 1) [Ok (''a'', 25), Err ''bad page''] None"
  have "(row_group_step (budget_capacity 1) ^^ 0) ?g0 ?g0" by simp
  from row_group_delivers [OF this] show ?thesis by (simp add: row_group_start_def)
qed

end
