(* ===== verification/Parquet.thy ===== *)
theory Parquet
  imports RowGroup Arrow Metrics OpendalConfig Merge
begin

text \<open>
  \<open>rust/src/source/parquet.rs\<close> and \<open>parquet_metadata.rs\<close>: the files of a scan, their footers
  and schemas, the columns it reads and the streams of its row groups. The parquet crate and
  storage are the record \<open>parquet_io\<close>: what loading a footer yields and reads, the leaves
  \<open>ProjectionMask::roots\<close> selects (\<open>None\<close> is its panic), the items a row group's reader
  yields and how it panics after them, and \<open>RecordBatch::project\<close>. A scan that panics is \<open>None\<close>.
\<close>

record parquet_meta =
  pm_schema :: schema
  pm_row_groups :: "u64 list list"

record 'b reader =
  rd_items :: "'b row_item list"
  rd_crash :: "string option"

type_synonym mask = "nat \<Rightarrow> bool"

datatype bytes_range = ByteRange u64 u64 | Suffix u64

record 'b parquet_io =
  pq_read :: "operator \<Rightarrow> string \<Rightarrow> bytes_range \<Rightarrow> (bytes, opendal_error) result"
  pq_footer :: "operator \<Rightarrow> string \<Rightarrow> (parquet_meta, string) result"
  pq_footer_ranges :: "operator \<Rightarrow> string \<Rightarrow> bytes_range list"
  pq_mask :: "parquet_meta \<Rightarrow> nat list \<Rightarrow> mask option"
  pq_build :: "operator \<Rightarrow> string \<Rightarrow> parquet_meta \<Rightarrow> mask option \<Rightarrow> usize \<Rightarrow> nat \<Rightarrow> ('b reader, string) result"
  pq_project :: "'b \<Rightarrow> nat list \<Rightarrow> ('b, string) result"
  pq_flatten :: "usize \<Rightarrow> 'b res list list \<Rightarrow> 'b res list"

section \<open>Reads\<close>

definition MAX_CONCURRENT_RANGE_READS :: nat where
  "MAX_CONCURRENT_RANGE_READS = 8"

text \<open>A read counts its bytes when it succeeds.\<close>

definition parquet_read ::
  "'b parquet_io \<Rightarrow> operator \<Rightarrow> string \<Rightarrow> bytes_range \<Rightarrow> read_metrics \<Rightarrow> (bytes, string) result \<times> read_metrics" where
  "parquet_read IO op path r m = (case pq_read IO op path r of
     Err e \<Rightarrow> (Err (''External: '' @ od_display e), m)
   | Ok b \<Rightarrow> (Ok b, add_bytes_read (of_nat (length b)) m))"

fun count_reads :: "'b parquet_io \<Rightarrow> operator \<Rightarrow> string \<Rightarrow> bytes_range list \<Rightarrow> read_metrics \<Rightarrow> read_metrics" where
  "count_reads IO op path [] m = m"
| "count_reads IO op path (r # rs) m = count_reads IO op path rs (snd (parquet_read IO op path r m))"

text \<open>
  Several ranges, in order; when one fails, the reads that were already in flight behind it,
  less than eight, may have counted their bytes (\<open>ahead\<close>).
\<close>

definition get_byte_ranges ::
  "'b parquet_io \<Rightarrow> operator \<Rightarrow> string \<Rightarrow> bytes_range list \<Rightarrow> nat \<Rightarrow> read_metrics \<Rightarrow> (bytes list, string) result \<times> read_metrics" where
  "get_byte_ranges IO op path ranges ahead m =
     (let read = (\<lambda>r. fst (parquet_read IO op path r m));
          finished = length (takeWhile (\<lambda>r. is_ok (read r)) ranges)
      in (try_map read ranges,
          count_reads IO op path (take (finished + min ahead MAX_CONCURRENT_RANGE_READS) ranges) m))"

section \<open>Footers\<close>

record file_metadata =
  fm_path :: string
  fm_metadata :: parquet_meta

definition load_footer :: "'b parquet_io \<Rightarrow> operator \<Rightarrow> string \<Rightarrow> file_metadata res" where
  "load_footer IO op path =
     map_ok (\<lambda>md. \<lparr>fm_path = path, fm_metadata = md\<rparr>) (map_err parquet_error (pq_footer IO op path))"

definition schema_mismatch :: "file_metadata \<Rightarrow> error" where
  "schema_mismatch file = error_message (''Parquet schema does not match the first file: '' @ fm_path file)"

text \<open>The result, and the metrics after a load of every footer.\<close>

definition load_parquet_metadata ::
  "'b parquet_io \<Rightarrow> operator \<Rightarrow> string list \<Rightarrow> read_metrics \<Rightarrow> (schema \<times> file_metadata list \<times> read_metrics) res" where
  "load_parquet_metadata IO op paths m =
     and_then (try_map (load_footer IO op) paths) (\<lambda>fls. case fls of
       [] \<Rightarrow> Err (error_message ''Parquet source contains no .parquet files'')
     | first # rest \<Rightarrow>
         (let s = pm_schema (fm_metadata first)
          in and_then (try_each (\<lambda>file. if pm_schema (fm_metadata file) \<noteq> s then Err (schema_mismatch file) else Ok ()) rest)
               (\<lambda>_. Ok (s, fls, fold (\<lambda>path. count_reads IO op path (pq_footer_ranges IO op path)) paths m))))"

section \<open>Columns\<close>

record column_projection =
  cp_roots :: "nat list"
  cp_order :: "nat list"

definition partition_point :: "('a \<Rightarrow> bool) \<Rightarrow> 'a list \<Rightarrow> nat" where
  "partition_point p xs = length (takeWhile p xs)"

definition column_projection_new :: "nat list \<Rightarrow> column_projection option" where
  "column_projection_new columns =
     (if columns = [] then None
      else let roots = remdups_adj (sort columns)
           in Some \<lparr>cp_roots = roots, cp_order = map (\<lambda>column. partition_point (\<lambda>root. root < column) roots) columns\<rparr>)"

definition column_chunk_bytes :: "parquet_meta \<Rightarrow> mask option \<Rightarrow> u64" where
  "column_chunk_bytes md selected =
     foldl saturating_add 0
       (map snd (filter (\<lambda>(leaf, _). case selected of None \<Rightarrow> True | Some included \<Rightarrow> included leaf)
          (concat (map (enumerate 0) (pm_row_groups md)))))"

section \<open>Opening\<close>

text \<open>\<open>spawn_row_group\<close>, or the reader itself without read-ahead.\<close>

definition row_group_batches :: "usize \<Rightarrow> 'b reader \<Rightarrow> 'b res list" where
  "row_group_batches read_ahead rd =
     (if read_ahead = 0 then map item_error (rd_items rd)
      else row_group_stream (rd_items rd) (rd_crash rd))"

definition file_mask :: "'b parquet_io \<Rightarrow> column_projection option \<Rightarrow> parquet_meta \<Rightarrow> mask option option" where
  "file_mask IO projection md = (case projection of
     None \<Rightarrow> Some None
   | Some p \<Rightarrow> map_option Some (pq_mask IO md (cp_roots p)))"

definition project_schema :: "arrow_api \<Rightarrow> column_projection option \<Rightarrow> schema \<Rightarrow> schema res" where
  "project_schema A projection s = (case projection of
     None \<Rightarrow> Ok s
   | Some p \<Rightarrow> and_then (map_err arrow_error (aa_project A s (cp_roots p)))
       (\<lambda>s'. map_err arrow_error (aa_project A s' (cp_order p))))"

definition file_row_groups ::
  "'b parquet_io \<Rightarrow> operator \<Rightarrow> usize \<Rightarrow> usize \<Rightarrow> file_metadata \<times> mask option \<Rightarrow> 'b res list res list" where
  "file_row_groups IO op batch_size read_ahead fm = (case fm of (file, selected) \<Rightarrow>
     map (\<lambda>row_group. map_ok (row_group_batches read_ahead)
            (map_err parquet_error (pq_build IO op (fm_path file) (fm_metadata file) selected batch_size row_group)))
       [0..<length (pm_row_groups (fm_metadata file))])"

definition project_item :: "'b parquet_io \<Rightarrow> column_projection option \<Rightarrow> 'b res \<Rightarrow> 'b res" where
  "project_item IO projection item = (case projection of
     None \<Rightarrow> item
   | Some p \<Rightarrow> and_then item (\<lambda>batch. map_err arrow_error (pq_project IO batch (cp_order p))))"

definition flatten_streams :: "'b parquet_io \<Rightarrow> bool \<Rightarrow> usize \<Rightarrow> 'b res list res list \<Rightarrow> 'b res list" where
  "flatten_streams IO in_order parallelism readers =
     (let streams = map (\<lambda>r. case r of Err e \<Rightarrow> [Err e] | Ok items \<Rightarrow> items) readers
      in if in_order then concat streams else pq_flatten IO parallelism streams)"

definition open_parquet_paths ::
  "arrow_api \<Rightarrow> 'b parquet_io \<Rightarrow> operator \<Rightarrow> string list \<Rightarrow> usize \<Rightarrow> bool \<Rightarrow> usize \<Rightarrow> usize \<Rightarrow> nat list option \<Rightarrow>
   read_metrics \<Rightarrow> (schema \<times> 'b res list \<times> read_metrics) res option" where
  "open_parquet_paths A IO op paths batch_size in_order parallelism read_ahead columns m =
     (if batch_size = 0 then Some (Err (error_message ''batch_size must be positive''))
      else if parallelism = 0 then Some (Err (error_message ''max_read_parallelism must be positive''))
      else let projection = Option.bind columns column_projection_new
           in case load_parquet_metadata IO op paths m of
             Err e \<Rightarrow> Some (Err e)
           | Ok (file_schema, fls, m1) \<Rightarrow> (case project_schema A projection file_schema of
               Err e \<Rightarrow> Some (Err e)
             | Ok s \<Rightarrow> (case those (map (\<lambda>file. map_option (Pair file) (file_mask IO projection (fm_metadata file))) fls) of
                 None \<Rightarrow> None
               | Some masked \<Rightarrow>
                   (let unread = foldl saturating_add 0 (map (\<lambda>(file, selected). column_chunk_bytes (fm_metadata file) selected) masked);
                        m2 = set_total_bytes (saturating_add (snap_bytes_read (snapshot m1)) unread) m1;
                        readers = concat (map (file_row_groups IO op batch_size read_ahead) masked)
                    in Some (Ok (s, map (project_item IO projection) (flatten_streams IO in_order parallelism readers), m2))))))"

section \<open>Projections\<close>

lemma strict_remdups_adj: "sorted xs \<Longrightarrow> sorted_wrt (<) (remdups_adj xs)" for xs :: "'a::linorder list"
proof (induction xs rule: remdups_adj.induct)
  case (3 x y xs)
  then show ?case by (auto simp: order_less_le)
qed simp_all

lemma column_projection_sound:
  assumes "column_projection_new columns = Some p"
  shows "sorted_wrt (<) (cp_roots p) \<and> set (cp_roots p) = set columns \<and> length (cp_order p) = length columns
    \<and> (\<forall>i<length columns. cp_order p ! i < length (cp_roots p) \<and> cp_roots p ! (cp_order p ! i) = columns ! i)"
proof -
  let ?roots = "remdups_adj (sort columns)"
  have p: "p = \<lparr>cp_roots = ?roots, cp_order = map (\<lambda>column. partition_point (\<lambda>root. root < column) ?roots) columns\<rparr>"
    using assms by (auto simp: column_projection_new_def Let_def split: if_splits)
  have strict: "sorted_wrt (<) ?roots" by (rule strict_remdups_adj) simp
  have at: "partition_point (\<lambda>root. root < c) ?roots < length ?roots
      \<and> ?roots ! partition_point (\<lambda>root. root < c) ?roots = c" if "c \<in> set columns" for c
  proof -
    have "c \<in> set ?roots" using that by simp
    then obtain k where k: "k < length ?roots" "?roots ! k = c" unfolding in_set_conv_nth by blast
    have "takeWhile (\<lambda>root. root < c) ?roots = take k ?roots"
    proof (rule takeWhile_eq_take_P_nth)
      show "?roots ! i < c" if "i < k" "i < length ?roots" for i
        using sorted_wrt_nth_less [OF strict that(1) k(1)] k(2) by simp
    qed (use k in simp)
    with k show ?thesis by (simp add: partition_point_def)
  qed
  then show ?thesis using strict p by auto
qed

section \<open>Outcome of opening\<close>

text \<open>
  What the parquet crate documents: a mask is built of root indices that the file's schema
  has, and a batch is projected exactly when it has the columns.
\<close>

definition mask_documented :: "'b parquet_io \<Rightarrow> bool" where
  "mask_documented IO \<longleftrightarrow> (\<forall>md roots. list_all (\<lambda>i. i < length (schema_fields (pm_schema md))) roots \<longrightarrow> pq_mask IO md roots \<noteq> None)"

definition project_documented :: "('b \<Rightarrow> 'c list) \<Rightarrow> 'b parquet_io \<Rightarrow> bool" where
  "project_documented cols IO \<longleftrightarrow> (\<forall>batch columns. case pq_project IO batch columns of
     Ok batch' \<Rightarrow> cols batch' = map (nth (cols batch)) columns
   | Err _ \<Rightarrow> \<not> list_all (\<lambda>i. i < length (cols batch)) columns)"

lemma load_Ok:
  assumes "load_parquet_metadata IO op paths m = Ok (s, fls, m')"
  shows "paths \<noteq> [] \<and> list_all2 (\<lambda>path file. fm_path file = path \<and> pq_footer IO op path = Ok (fm_metadata file)) paths fls
    \<and> (\<forall>file\<in>set fls. pm_schema (fm_metadata file) = s)
    \<and> m' = fold (\<lambda>path. count_reads IO op path (pq_footer_ranges IO op path)) paths m"
proof -
  obtain loaded where loaded: "try_map (load_footer IO op) paths = Ok loaded"
    using assms by (auto simp: load_parquet_metadata_def and_then_Ok)
  then obtain first rest where fls: "fls = first # rest" "try_map (load_footer IO op) paths = Ok fls"
    "s = pm_schema (fm_metadata first)"
    "try_each (\<lambda>file. if pm_schema (fm_metadata file) \<noteq> s then Err (schema_mismatch file) else Ok ()) rest = Ok ()"
    "m' = fold (\<lambda>path. count_reads IO op path (pq_footer_ranges IO op path)) paths m"
    using assms by (cases loaded) (auto simp: load_parquet_metadata_def and_then_Ok Let_def)
  have "list_all2 (\<lambda>path file. fm_path file = path \<and> pq_footer IO op path = Ok (fm_metadata file)) paths fls"
    using fls(2) unfolding try_map_Ok
    by (rule list.rel_mono_strong) (auto simp: load_footer_def result_simps)
  moreover have "\<forall>file\<in>set fls. pm_schema (fm_metadata file) = s"
    using fls(1,3,4) by (auto simp: try_each_Ok split: if_splits)
  moreover have "paths \<noteq> []" using fls(1,2) by auto
  ultimately show ?thesis using fls(5) by blast
qed

lemma project_schema_Ok:
  assumes "arrow_ok A" "project_schema A (Option.bind columns column_projection_new) s = Ok s'"
  shows "schema_metadata s' = schema_metadata s
    \<and> (case columns of Some (c # cs) \<Rightarrow> list_all (\<lambda>i. i < length (schema_fields s)) (c # cs)
          \<and> schema_fields s' = map (nth (schema_fields s)) (c # cs)
        | _ \<Rightarrow> schema_fields s' = schema_fields s)
    \<and> (\<forall>p. Option.bind columns column_projection_new = Some p \<longrightarrow> list_all (\<lambda>i. i < length (schema_fields s)) (cp_roots p))"
proof (cases "Option.bind columns column_projection_new")
  case None
  then have "columns = None \<or> columns = Some []"
    by (cases columns) (auto simp: column_projection_new_def Let_def split: if_splits)
  with assms(2) None show ?thesis by (auto simp: project_schema_def)
next
  case (Some p)
  then obtain c cs where cs: "columns = Some (c # cs)" "column_projection_new (c # cs) = Some p"
    by (cases columns) (auto simp: column_projection_new_def Let_def neq_Nil_conv split: if_splits)
  note sound = column_projection_sound [OF cs(2)]
  obtain s1 where s1: "aa_project A s (cp_roots p) = Ok s1" "aa_project A s1 (cp_order p) = Ok s'"
    using assms(2) Some by (auto simp: project_schema_def result_simps)
  note r1 = project_Ok [OF assms(1) s1(1)] and r2 = project_Ok [OF assms(1) s1(2)]
  have "schema_fields s' = map (nth (schema_fields s)) (c # cs)"
  proof (rule nth_equalityI)
    fix i
    assume "i < length (schema_fields s')"
    then have i: "i < length (c # cs)" using sound r2 by simp
    then have "schema_fields s' ! i = map (nth (schema_fields s)) (cp_roots p) ! (cp_order p ! i)"
      using sound r1 r2 by simp
    also have "\<dots> = schema_fields s ! ((c # cs) ! i)" using sound i by simp
    finally show "schema_fields s' ! i = map (nth (schema_fields s)) (c # cs) ! i" using i by (simp only: nth_map)
  qed (use sound r2 in simp)
  moreover have "list_all (\<lambda>i. i < length (schema_fields s)) (c # cs)"
    using sound r1 by (simp only: list_all_iff) blast
  ultimately show ?thesis using cs r1 r2 Some by simp
qed

lemma those_map_pair:
  "those (map (\<lambda>x. map_option (Pair x) (f x)) xs) = (if \<forall>x\<in>set xs. f x \<noteq> None then Some (map (\<lambda>x. (x, the (f x))) xs) else None)"
  by (induction xs) (auto split: option.splits)

lemma masks_exist:
  assumes "mask_documented IO" "\<forall>file\<in>set fls. pm_schema (fm_metadata file) = s"
    and "\<forall>p. projection = Some p \<longrightarrow> list_all (\<lambda>i. i < length (schema_fields s)) (cp_roots p)"
  shows "those (map (\<lambda>file. map_option (Pair file) (file_mask IO projection (fm_metadata file))) fls)
    = Some (map (\<lambda>file. (file, map_option (\<lambda>p. the (pq_mask IO (fm_metadata file) (cp_roots p))) projection)) fls)"
proof -
  have "file_mask IO projection (fm_metadata fm)
      = Some (map_option (\<lambda>p. the (pq_mask IO (fm_metadata fm) (cp_roots p))) projection)" if "fm \<in> set fls" for fm
  proof (cases projection)
    case (Some p)
    then have "list_all (\<lambda>i. i < length (schema_fields (pm_schema (fm_metadata fm)))) (cp_roots p)"
      using assms(2,3) that by simp
    then obtain sel where "pq_mask IO (fm_metadata fm) (cp_roots p) = Some sel"
      using assms(1) unfolding mask_documented_def by blast
    with Some show ?thesis by (simp add: file_mask_def)
  qed (simp add: file_mask_def)
  then show ?thesis unfolding those_map_pair by auto
qed

lemma unat_saturating_sum: "unat (foldl saturating_add a ws) = min (unat a + sum_list (map unat ws)) (2 ^ 64 - 1)"
  for a :: u64
proof (induction ws arbitrary: a)
  case Nil
  have "unat a < 2 ^ 64" using unsigned_less [of a, where ?'a = nat] by simp
  then show ?case by simp
qed (simp add: unat_saturating_add)

text \<open>The bytes of the column chunks a scan still has to read.\<close>

definition selected_bytes :: "'b parquet_io \<Rightarrow> column_projection option \<Rightarrow> parquet_meta \<Rightarrow> u64" where
  "selected_bytes IO projection md = column_chunk_bytes md (map_option (\<lambda>p. the (pq_mask IO md (cp_roots p))) projection)"

lemma open_parquet_cases:
  assumes "arrow_ok A" "mask_documented IO" "batch_size \<noteq> 0" "parallelism \<noteq> 0"
    and "load_parquet_metadata IO op paths m = Ok (s0, fls, m1)"
    and "project_schema A (Option.bind columns column_projection_new) s0 = Ok s"
  shows "open_parquet_paths A IO op paths batch_size in_order parallelism read_ahead columns m = Some (Ok (s,
    map (project_item IO (Option.bind columns column_projection_new)) (flatten_streams IO in_order parallelism
      (concat (map (file_row_groups IO op batch_size read_ahead)
        (map (\<lambda>file. (file, map_option (\<lambda>p. the (pq_mask IO (fm_metadata file) (cp_roots p)))
           (Option.bind columns column_projection_new))) fls)))),
    set_total_bytes (saturating_add (rm_bytes_read m1)
      (foldl saturating_add 0 (map (\<lambda>file. selected_bytes IO (Option.bind columns column_projection_new) (fm_metadata file)) fls))) m1))"
proof -
  have same: "\<forall>file\<in>set fls. pm_schema (fm_metadata file) = s0" using load_Ok [OF assms(5)] by blast
  have "\<forall>p. Option.bind columns column_projection_new = Some p \<longrightarrow> list_all (\<lambda>i. i < length (schema_fields s0)) (cp_roots p)"
    using project_schema_Ok [OF assms(1,6)] by blast
  from masks_exist [OF assms(2) same this] show ?thesis
    using assms(3-6) by (simp add: open_parquet_paths_def Let_def snapshot_def selected_bytes_def comp_def)
qed

text \<open>
  C28: Opening a scan never panics, whatever the columns asked for: an index a file does not
  have is an error before any mask is built. A scan that opens has at least one file, a
  footer of every file, all with the schema of the first; its schema is the columns asked
  for, in the order asked for, repetitions included, and every column when none are asked
  for; and its total is the bytes read so far and the selected column chunks, saturating.
\<close>

theorem parquet_open_outcome:
  assumes "arrow_ok A" "mask_documented IO"
  shows "case open_parquet_paths A IO op paths batch_size in_order parallelism read_ahead columns m of
      None \<Rightarrow> False
    | Some (Err e) \<Rightarrow> True
    | Some (Ok (s, _, m')) \<Rightarrow> (\<exists>s0 mds. paths \<noteq> [] \<and> batch_size \<noteq> 0 \<and> parallelism \<noteq> 0
        \<and> list_all2 (\<lambda>path md. pq_footer IO op path = Ok md \<and> pm_schema md = s0) paths mds
        \<and> schema_metadata s = schema_metadata s0
        \<and> (case columns of Some (c # cs) \<Rightarrow> list_all (\<lambda>i. i < length (schema_fields s0)) (c # cs)
              \<and> schema_fields s = map (nth (schema_fields s0)) (c # cs)
            | _ \<Rightarrow> schema_fields s = schema_fields s0)
        \<and> unat (rm_total_bytes m') = min (unat (rm_bytes_read m')
            + sum_list (map (unat \<circ> selected_bytes IO (Option.bind columns column_projection_new)) mds)) (2 ^ 64 - 1))"
proof (cases "batch_size = 0 \<or> parallelism = 0")
  case True
  then show ?thesis by (auto simp: open_parquet_paths_def)
next
  case False
  let ?projection = "Option.bind columns column_projection_new"
  show ?thesis
  proof (cases "load_parquet_metadata IO op paths m")
    case (Err e)
    with False show ?thesis by (simp add: open_parquet_paths_def Let_def)
  next
    case (Ok loaded)
    then obtain s0 fls m1 where load: "load_parquet_metadata IO op paths m = Ok (s0, fls, m1)" by (cases loaded) auto
    note footers = load_Ok [OF load]
    show ?thesis
    proof (cases "project_schema A ?projection s0")
      case (Err e)
      with False load show ?thesis by (simp add: open_parquet_paths_def Let_def)
    next
      case (Ok s)
      note projected = project_schema_Ok [OF assms(1) Ok]
      let ?unread = "foldl saturating_add 0 (map (\<lambda>file. selected_bytes IO ?projection (fm_metadata file)) fls)"
      have "list_all2 (\<lambda>path md. pq_footer IO op path = Ok md \<and> pm_schema md = s0) paths (map fm_metadata fls)"
        using footers by (auto simp: list_all2_conv_all_nth)
      moreover have "unat (saturating_add (rm_bytes_read m1) ?unread) = min (unat (rm_bytes_read m1)
          + sum_list (map (unat \<circ> selected_bytes IO ?projection) (map fm_metadata fls))) (2 ^ 64 - 1)"
        by (simp add: unat_saturating_add unat_saturating_sum comp_def)
      ultimately show ?thesis
        using open_parquet_cases [OF assms _ _ load Ok, of batch_size parallelism in_order read_ahead] False footers projected
        by (auto simp: set_total_bytes_def intro!: exI [of _ s0] exI [of _ "map fm_metadata fls"])
    qed
  qed
qed

section \<open>What a scan delivers\<close>

abbreviation projection_of :: "nat list option \<Rightarrow> column_projection option" where
  "projection_of columns \<equiv> Option.bind columns column_projection_new"

text \<open>The columns asked for, of a batch of every column.\<close>

definition picked :: "nat list option \<Rightarrow> 'c list \<Rightarrow> 'c list" where
  "picked columns full = (case columns of Some (c # cs) \<Rightarrow> map (nth full) (c # cs) | _ \<Rightarrow> full)"

definition at_roots :: "column_projection option \<Rightarrow> 'c list \<Rightarrow> 'c list" where
  "at_roots projection full = (case projection of None \<Rightarrow> full | Some p \<Rightarrow> map (nth full) (cp_roots p))"

definition group_mask :: "'b parquet_io \<Rightarrow> column_projection option \<Rightarrow> parquet_meta \<Rightarrow> mask option" where
  "group_mask IO projection md = map_option (\<lambda>p. the (pq_mask IO md (cp_roots p))) projection"

text \<open>
  What the readers of a file yield, from what the file holds: each row group's batches with
  the columns the mask selects, in file order, and no panic.
\<close>

definition file_reads ::
  "('b \<Rightarrow> 'c list) \<Rightarrow> 'b parquet_io \<Rightarrow> operator \<Rightarrow> usize \<Rightarrow> column_projection option \<Rightarrow> nat \<Rightarrow> 'c list list list \<Rightarrow>
   file_metadata \<Rightarrow> bool" where
  "file_reads cols IO op batch_size projection width groups fm \<longleftrightarrow> length groups = length (pm_row_groups (fm_metadata fm))
     \<and> (\<forall>i<length groups. list_all (\<lambda>full. length full = width) (groups ! i)
         \<and> (\<exists>rd. pq_build IO op (fm_path fm) (fm_metadata fm) (group_mask IO projection (fm_metadata fm)) batch_size i = Ok rd
              \<and> rd_crash rd = None
              \<and> map (map_ok (\<lambda>b. cols (fst b))) (rd_items rd) = map (\<lambda>full. Ok (at_roots projection full)) (groups ! i)))"

lemma project_item_picks:
  assumes "project_documented cols IO" "map_ok (\<lambda>b. cols (fst b)) i = Ok (at_roots (projection_of columns) full)"
  shows "map_ok cols (project_item IO (projection_of columns) (item_error i)) = Ok (picked columns full)"
proof -
  obtain b where b: "i = Ok b" "cols (fst b) = at_roots (projection_of columns) full"
    using assms(2) by (cases i) auto
  show ?thesis
  proof (cases "projection_of columns")
    case None
    then have "columns = None \<or> columns = Some []"
      by (cases columns) (auto simp: column_projection_new_def Let_def split: if_splits)
    with None b show ?thesis by (auto simp: project_item_def item_error_def at_roots_def picked_def)
  next
    case (Some p)
    then obtain c cs where cs: "columns = Some (c # cs)" "column_projection_new (c # cs) = Some p"
      by (cases columns) (auto simp: column_projection_new_def Let_def neq_Nil_conv split: if_splits)
    note sound = column_projection_sound [OF cs(2)]
    have width: "cols (fst b) = map (nth full) (cp_roots p)" using b(2) Some by (simp add: at_roots_def)
    have inside: "list_all (\<lambda>k. k < length (cols (fst b))) (cp_order p)"
      using sound by (simp add: width list_all_length)
    obtain b' where b': "pq_project IO (fst b) (cp_order p) = Ok b'" "cols b' = map (nth (cols (fst b))) (cp_order p)"
      using assms(1) [unfolded project_documented_def, rule_format, of "fst b" "cp_order p"] inside
      by (cases "pq_project IO (fst b) (cp_order p)") simp_all
    have "cols b' = map (nth full) (c # cs)"
    proof (rule nth_equalityI)
      fix k
      assume "k < length (cols b')"
      then have k: "k < length (c # cs)" using sound b'(2) by simp
      then have "cols b' ! k = full ! (cp_roots p ! (cp_order p ! k))" using sound by (simp add: b'(2) width)
      also have "\<dots> = full ! ((c # cs) ! k)" using sound k by simp
      finally show "cols b' ! k = map (nth full) (c # cs) ! k" using k by (simp only: nth_map)
    qed (use sound b'(2) in simp)
    with Some b b'(1) cs show ?thesis by (simp add: project_item_def item_error_def picked_def)
  qed
qed

lemma row_group_picks:
  assumes "project_documented cols IO" "rd_crash rd = None"
    and "map (map_ok (\<lambda>b. cols (fst b))) (rd_items rd) = map (\<lambda>full. Ok (at_roots (projection_of columns) full)) batches"
  shows "map (\<lambda>i. map_ok cols (project_item IO (projection_of columns) i)) (row_group_batches read_ahead rd)
    = map (\<lambda>full. Ok (picked columns full)) batches"
proof -
  have "row_group_batches read_ahead rd = map item_error (rd_items rd)"
    using assms(2) by (simp add: row_group_batches_def row_group_stream_def)
  moreover have "length (rd_items rd) = length batches" using arg_cong [OF assms(3), of length] by simp
  moreover have "map_ok cols (project_item IO (projection_of columns) (item_error (rd_items rd ! k)))
      = Ok (picked columns (batches ! k))" if "k < length batches" for k
  proof (rule project_item_picks [OF assms(1)])
    show "map_ok (\<lambda>b. cols (fst b)) (rd_items rd ! k) = Ok (at_roots (projection_of columns) (batches ! k))"
      using arg_cong [OF assms(3), of "\<lambda>xs. xs ! k"] that \<open>length (rd_items rd) = length batches\<close> by simp
  qed
  ultimately show ?thesis by (auto intro: nth_equalityI)
qed

definition delivered :: "('b \<Rightarrow> 'c list) \<Rightarrow> 'b parquet_io \<Rightarrow> nat list option \<Rightarrow> 'b res list res \<Rightarrow> 'c list res list" where
  "delivered cols IO columns r = map (\<lambda>i. map_ok cols (project_item IO (projection_of columns) i))
     (case r of Err e \<Rightarrow> [Err e] | Ok items \<Rightarrow> items)"

text \<open>The streams of one file, and of all of them.\<close>

lemma file_streams:
  assumes "project_documented cols IO" "file_reads cols IO op batch_size (projection_of columns) width groups fm"
  shows "map (delivered cols IO columns) (file_row_groups IO op batch_size read_ahead (fm, group_mask IO (projection_of columns) (fm_metadata fm)))
    = map (map (\<lambda>full. Ok (picked columns full))) groups"
proof (rule nth_equalityI)
  show "length (map (delivered cols IO columns) (file_row_groups IO op batch_size read_ahead (fm, group_mask IO (projection_of columns) (fm_metadata fm))))
    = length (map (map (\<lambda>full. Ok (picked columns full))) groups)"
    using assms(2) by (simp add: file_reads_def file_row_groups_def)
  fix k
  assume "k < length (map (delivered cols IO columns) (file_row_groups IO op batch_size read_ahead (fm, group_mask IO (projection_of columns) (fm_metadata fm))))"
  then have k: "k < length groups" "k < length (pm_row_groups (fm_metadata fm))"
    using assms(2) by (simp_all add: file_reads_def file_row_groups_def)
  obtain rd where rd: "pq_build IO op (fm_path fm) (fm_metadata fm)
      (group_mask IO (projection_of columns) (fm_metadata fm)) batch_size k = Ok rd" "rd_crash rd = None"
    "map (map_ok (\<lambda>b. cols (fst b))) (rd_items rd) = map (\<lambda>full. Ok (at_roots (projection_of columns) full)) (groups ! k)"
    using assms(2) k by (auto simp: file_reads_def)
  from row_group_picks [OF assms(1) rd(2,3)] rd(1) k
  show "map (delivered cols IO columns) (file_row_groups IO op batch_size read_ahead (fm, group_mask IO (projection_of columns) (fm_metadata fm))) ! k
    = map (map (\<lambda>full. Ok (picked columns full))) groups ! k"
    by (simp add: file_row_groups_def delivered_def)
qed

text \<open>The streams of all files, opened for a scan.\<close>

lemma scan_delivers:
  assumes "arrow_ok A" "mask_documented IO" "project_documented cols IO" "\<forall>k xss. pq_flatten IO k xss \<in> merges xss"
    and "batch_size \<noteq> 0" "parallelism \<noteq> 0"
    and "load_parquet_metadata IO op paths m = Ok (s0, fls, m1)"
    and "project_schema A (projection_of columns) s0 = Ok s"
    and "\<forall>fm\<in>set fls. file_reads cols IO op batch_size (projection_of columns) (length (schema_fields s0)) (content (fm_path fm)) fm"
  shows "\<exists>batches m'. open_parquet_paths A IO op paths batch_size in_order parallelism read_ahead columns m = Some (Ok (s, batches, m'))
    \<and> (let streams = map (map (\<lambda>full. Ok (picked columns full))) (concat (map (\<lambda>fm. content (fm_path fm)) fls))
       in if in_order then map (map_ok cols) batches = concat streams else map (map_ok cols) batches \<in> merges streams)"
proof -
  define readers where "readers = concat (map (file_row_groups IO op batch_size read_ahead)
    (map (\<lambda>fm. (fm, group_mask IO (projection_of columns) (fm_metadata fm))) fls))"
  define raw where "raw = map (\<lambda>r. case r of Err e \<Rightarrow> [Err e] | Ok items \<Rightarrow> items) readers"
  define one where "one i = map_ok cols (project_item IO (projection_of columns) i)" for i
  define streams where "streams = map (map (\<lambda>full. Ok (picked columns full) :: 'b list res)) (concat (map (\<lambda>fm. content (fm_path fm)) fls))"
  have "map (delivered cols IO columns) readers = streams"
    unfolding readers_def streams_def map_concat map_map comp_def
    by (intro arg_cong [of _ _ concat] map_cong refl file_streams [OF assms(3)]) (use assms(9) in blast)
  then have streams: "map (map one) raw = streams"
    by (simp add: raw_def one_def [abs_def] delivered_def [abs_def] comp_def)
  obtain m' where opened: "open_parquet_paths A IO op paths batch_size in_order parallelism read_ahead columns m
      = Some (Ok (s, map (project_item IO (projection_of columns)) (flatten_streams IO in_order parallelism readers), m'))"
    using open_parquet_cases [OF assms(1,2,5-8)] by (simp add: readers_def group_mask_def)
  have "if in_order then map one (flatten_streams IO in_order parallelism readers) = concat streams
      else map one (flatten_streams IO in_order parallelism readers) \<in> merges streams"
    using assms(4) merges_map [of "pq_flatten IO parallelism raw" raw one]
    by (simp add: flatten_streams_def raw_def [symmetric] Let_def streams [symmetric] map_concat)
  with opened show ?thesis
    by (cases in_order) (simp_all add: one_def [abs_def] comp_def streams_def Let_def)
qed

text \<open>
  C27: A scan of files that can be read delivers every batch of every row group of every file,
  with exactly the columns asked for, in the order asked for, whatever the batch size and the
  read-ahead: in the order of the files and their row groups when the insertion order is
  preserved, and otherwise as an interleaving that keeps the order inside each row group.
\<close>

theorem parquet_scan_delivers:
  assumes "arrow_ok A" "mask_documented IO" "project_documented cols IO" "\<forall>k xss. pq_flatten IO k xss \<in> merges xss"
    and "batch_size \<noteq> 0" "parallelism \<noteq> 0"
    and "load_parquet_metadata IO op paths m = Ok (s0, fls, m1)"
    and "project_schema A (projection_of columns) s0 = Ok s"
    and "\<forall>fm\<in>set fls. file_reads cols IO op batch_size (projection_of columns) (length (schema_fields s0)) (content (fm_path fm)) fm"
  shows "\<exists>batches m'. open_parquet_paths A IO op paths batch_size in_order parallelism read_ahead columns m = Some (Ok (s, batches, m'))
    \<and> (let streams = map (map (\<lambda>full. Ok (picked columns full))) (concat (map (\<lambda>fm. content (fm_path fm)) fls))
       in if in_order then map (map_ok cols) batches = concat streams else map (map_ok cols) batches \<in> merges streams)"
  by (rule scan_delivers [OF assms])

section \<open>A concrete scan\<close>

text \<open>One file of two columns and two row groups; a batch is the list of its columns.\<close>

definition parquet_ref :: "nat list parquet_io" where
  "parquet_ref = \<lparr>pq_read = (\<lambda>_ _ _. Ok ''PAR1''),
     pq_footer = (\<lambda>_ _. Ok \<lparr>pm_schema = \<lparr>schema_fields = [Field ''a'' Int64 False [], Field ''b'' Int64 False []], schema_metadata = []\<rparr>,
        pm_row_groups = [[10, 20], [30, 40]]\<rparr>),
     pq_footer_ranges = (\<lambda>_ _. [Suffix 8]),
     pq_mask = (\<lambda>md roots. if list_all (\<lambda>i. i < length (schema_fields (pm_schema md))) roots then Some (\<lambda>leaf. leaf \<in> set roots) else None),
     pq_build = (\<lambda>_ _ _ selected _ i. Ok \<lparr>rd_items = [Ok (map snd (filter (\<lambda>(leaf, _). case selected of None \<Rightarrow> True | Some p \<Rightarrow> p leaf)
        [(0, 10 * i), (1, 10 * i + 1)]), 16)], rd_crash = None\<rparr>),
     pq_project = (\<lambda>b columns. if list_all (\<lambda>i. i < length b) columns then Ok (map (nth b) columns) else Err ''project''),
     pq_flatten = (\<lambda>_. concat)\<rparr>"

lemma parquet_ref_documented: "mask_documented parquet_ref" "project_documented id parquet_ref"
  "\<forall>k xss. pq_flatten parquet_ref k xss \<in> merges xss"
  by (simp_all add: mask_documented_def project_documented_def parquet_ref_def concat_in_merges)

definition data_root :: operator where
  "data_root = \<lparr>op_service = FsRoot ''/'', op_layers = []\<rparr>"

theorem parquet_scan_delivers_witness:
  "\<exists>s batches m'. open_parquet_paths arrow_ref parquet_ref data_root [''x.parquet''] 100 True 4 1024 (Some [1, 0, 1]) read_metrics_default
      = Some (Ok (s, batches, m')) \<and> batches = [Ok [1, 0, 1], Ok [11, 10, 11]]"
proof -
  let ?md = "\<lparr>pm_schema = \<lparr>schema_fields = [Field ''a'' Int64 False [], Field ''b'' Int64 False []], schema_metadata = []\<rparr>,
        pm_row_groups = [[10, 20], [30, 40]]\<rparr>"
  let ?fm = "\<lparr>fm_path = ''x.parquet'', fm_metadata = ?md\<rparr>"
  have "load_footer parquet_ref data_root ''x.parquet'' = Ok ?fm" by (simp add: load_footer_def parquet_ref_def)
  then have "\<exists>m1. load_parquet_metadata parquet_ref data_root [''x.parquet''] read_metrics_default = Ok (pm_schema ?md, [?fm], m1)"
    by (simp add: load_parquet_metadata_def Let_def)
  then obtain m1 where load: "load_parquet_metadata parquet_ref data_root [''x.parquet''] read_metrics_default = Ok (pm_schema ?md, [?fm], m1)"
    by blast
  have p: "projection_of (Some [1, 0, 1]) = Some \<lparr>cp_roots = [0, 1], cp_order = [1, 0, 1]\<rparr>"
    by (simp add: column_projection_new_def partition_point_def Let_def)
  have "\<exists>s. project_schema arrow_ref (projection_of (Some [1, 0, 1])) (pm_schema ?md) = Ok s"
    unfolding p by (simp add: project_schema_def arrow_ref_def)
  then obtain s where schema: "project_schema arrow_ref (projection_of (Some [1, 0, 1])) (pm_schema ?md) = Ok s" by blast
  have reads: "\<forall>fm\<in>set [?fm]. file_reads id parquet_ref data_root 100 (projection_of (Some [1, 0, 1])) (length (schema_fields (pm_schema ?md)))
      ((\<lambda>_. [[[0, 1]], [[10, 11]]]) (fm_path fm)) fm"
    unfolding p by (simp add: file_reads_def parquet_ref_def at_roots_def group_mask_def less_Suc_eq)
  obtain batches m' where out: "open_parquet_paths arrow_ref parquet_ref data_root [''x.parquet''] 100 True 4 1024 (Some [1, 0, 1]) read_metrics_default
      = Some (Ok (s, batches, m'))"
    "map (map_ok id) batches = concat (map (map (\<lambda>full. Ok (picked (Some [1, 0, 1]) full))) (concat (map (\<lambda>fm. (\<lambda>_. [[[0, 1]], [[10, 11]]]) (fm_path fm)) [?fm])))"
    using parquet_scan_delivers [OF arrow_ref_ok parquet_ref_documented _ _ load schema reads, where parallelism = 4 and in_order = True and read_ahead = 1024] by (auto simp: Let_def)
  have "map_ok id = (\<lambda>i :: nat list res. i)" by (rule ext, case_tac i) simp_all
  with out(2) have "batches = [Ok [1, 0, 1], Ok [11, 10, 11]]" by (simp add: picked_def)
  with out(1) show ?thesis by blast
qed

theorem parquet_open_outcome_witness:
  "open_parquet_paths arrow_ref parquet_ref data_root [''x.parquet''] 100 True 4 1024 (Some [7]) read_metrics_default \<noteq> None"
  using parquet_open_outcome [OF arrow_ref_ok parquet_ref_documented(1), where op = data_root and paths = "[''x.parquet'']" and batch_size = 100
    and in_order = True and parallelism = 4 and read_ahead = 1024 and columns = "Some [7]" and m = read_metrics_default]
  by (auto split: option.splits)

end
