(* ===== verification/HuggingFace.thy ===== *)
theory HuggingFace
  imports Parquet Source Storage
begin

text \<open>
  \<open>rust/src/source/huggingface.rs\<close>: the Parquet shards of one split of a Hugging Face dataset,
  found on its conversion branch and read as one scan. Listing a directory is an argument;
  reading the shards is \<open>open_parquet_paths\<close>, of which the metrics are passed on.
\<close>

definition HF_DEFAULT_BATCH_SIZE :: usize where
  "HF_DEFAULT_BATCH_SIZE = 8192"

definition DEFAULT_READ_AHEAD_BYTES :: usize where
  "DEFAULT_READ_AHEAD_BYTES = 32 * 1024 * 1024"

definition PARQUET_REVISION :: string where
  "PARQUET_REVISION = ''refs/convert/parquet''"

record huggingface_source =
  hs_dataset :: string
  hs_config :: string
  hs_split :: string
  hs_token :: "string option"
  hs_preserve_insertion_order :: bool
  hs_projection :: "nat list option"
  hs_read_options :: source_read_options
  hs_read_ahead_bytes :: usize
  hs_opendal_config :: opendal_config

definition huggingface_source_new :: "string \<Rightarrow> huggingface_source" where
  "huggingface_source_new dataset = \<lparr>hs_dataset = dataset, hs_config = ''default'', hs_split = ''train'',
     hs_token = None, hs_preserve_insertion_order = True, hs_projection = None,
     hs_read_options = source_read_options_default, hs_read_ahead_bytes = DEFAULT_READ_AHEAD_BYTES,
     hs_opendal_config = opendal_config_default\<rparr>"

definition hf_with_config :: "string \<Rightarrow> huggingface_source \<Rightarrow> huggingface_source" where
  "hf_with_config config h = h\<lparr>hs_config := config\<rparr>"

definition hf_with_split :: "string \<Rightarrow> huggingface_source \<Rightarrow> huggingface_source" where
  "hf_with_split split h = h\<lparr>hs_split := split\<rparr>"

definition hf_with_token :: "string \<Rightarrow> huggingface_source \<Rightarrow> huggingface_source" where
  "hf_with_token token h = h\<lparr>hs_token := Some token\<rparr>"

definition hf_with_preserve_insertion_order :: "bool \<Rightarrow> huggingface_source \<Rightarrow> huggingface_source" where
  "hf_with_preserve_insertion_order preserve h = h\<lparr>hs_preserve_insertion_order := preserve\<rparr>"

definition hf_with_projection :: "nat list \<Rightarrow> huggingface_source \<Rightarrow> huggingface_source" where
  "hf_with_projection columns h = h\<lparr>hs_projection := Some columns\<rparr>"

definition hf_with_max_read_parallelism :: "usize \<Rightarrow> huggingface_source \<Rightarrow> huggingface_source" where
  "hf_with_max_read_parallelism n h = h\<lparr>hs_read_options := (hs_read_options h)\<lparr>max_read_parallelism := n\<rparr>\<rparr>"

definition hf_with_read_ahead_bytes :: "usize \<Rightarrow> huggingface_source \<Rightarrow> huggingface_source" where
  "hf_with_read_ahead_bytes n h = h\<lparr>hs_read_ahead_bytes := n\<rparr>"

definition hf_with_opendal_config :: "opendal_config \<Rightarrow> huggingface_source \<Rightarrow> huggingface_source" where
  "hf_with_opendal_config config h = h\<lparr>hs_opendal_config := config\<rparr>"

definition huggingface_validate :: "huggingface_source \<Rightarrow> unit res" where
  "huggingface_validate h =
     (if hs_dataset h = [] \<or> hs_config h = [] \<or> hs_split h = []
      then Err (error_message ''dataset, config, and split must not be empty'') else Ok ())"

section \<open>The shards\<close>

record dir_entry =
  en_path :: string
  en_is_file :: bool

type_synonym lister = "operator \<Rightarrow> string \<Rightarrow> (dir_entry list, opendal_error) result"

definition list_parquet_files :: "lister \<Rightarrow> operator \<Rightarrow> string \<Rightarrow> string list res" where
  "list_parquet_files list op directory =
     map_ok (\<lambda>entries. sort (map en_path (filter (\<lambda>e. en_is_file e \<and> suffix ''.parquet'' (en_path e)) entries)))
       (context_of (''listing '' @ directory) (list op directory) opendal_into)"

fun first_with_shards :: "lister \<Rightarrow> operator \<Rightarrow> string list \<Rightarrow> string list res" where
  "first_with_shards list op [] = Err (error_message ''source contains no Parquet shards'')"
| "first_with_shards list op (directory # rest) =
     and_then (list_parquet_files list op directory) (\<lambda>paths.
       if paths \<noteq> [] then Ok paths else first_with_shards list op rest)"

definition split_directories :: "huggingface_source \<Rightarrow> string list" where
  "split_directories h =
     [hs_config h @ ''/'' @ hs_split h @ ''/'', hs_config h @ ''/partial-'' @ hs_split h @ ''/'']"

definition parquet_files :: "lister \<Rightarrow> operator \<Rightarrow> huggingface_source \<Rightarrow> string list res" where
  "parquet_files list op h = first_with_shards list op (split_directories h)"

definition huggingface_context :: "huggingface_source \<Rightarrow> string" where
  "huggingface_context h = ''reading Hugging Face dataset '' @ quoted (hs_dataset h) @ '' config ''
     @ quoted (hs_config h) @ '' split '' @ quoted (hs_split h)"

text \<open>\<open>HuggingFaceSource::open\<close>; \<open>None\<close> is a panic of the scan.\<close>

definition huggingface_source_open ::
  "storage_env \<Rightarrow> arrow_api \<Rightarrow> 'b parquet_io \<Rightarrow> lister \<Rightarrow> huggingface_source \<Rightarrow> read_metrics \<Rightarrow>
   (schema \<times> 'b res list \<times> read_metrics) res option" where
  "huggingface_source_open S A IO list h m =
     (case and_then (huggingface_validate h) (\<lambda>_.
           and_then (opendal_config_validate (se_fits S) (hs_opendal_config h)) (\<lambda>_.
           and_then (source_read_options_validate (hs_read_options h)) (\<lambda>read_options.
           and_then (huggingface_operator S (hs_dataset h) PARQUET_REVISION (hs_token h) (hs_opendal_config h)) (\<lambda>op.
           map_ok (\<lambda>paths. (read_options, op, paths))
             (context_of (huggingface_context h) (parquet_files list op h) (\<lambda>e. e)))))) of
        Err e \<Rightarrow> Some (Err e)
      | Ok (read_options, op, paths) \<Rightarrow>
          map_option (\<lambda>r. context_of (huggingface_context h) r (\<lambda>e. e))
            (open_parquet_paths A IO op paths HF_DEFAULT_BATCH_SIZE (hs_preserve_insertion_order h)
               (max_read_parallelism read_options) (hs_read_ahead_bytes h) (hs_projection h) m))"

section \<open>Which shards are read\<close>

definition shards :: "dir_entry list \<Rightarrow> string list" where
  "shards entries = map en_path (filter (\<lambda>e. en_is_file e \<and> suffix ''.parquet'' (en_path e)) entries)"

lemma first_with_shards_Ok:
  assumes "first_with_shards list op directories = Ok paths"
  shows "\<exists>before directory after entries. directories = before @ directory # after
    \<and> (\<forall>d\<in>set before. \<exists>es. list op d = Ok es \<and> shards es = [])
    \<and> list op directory = Ok entries \<and> shards entries \<noteq> [] \<and> paths = sort (shards entries)"
  using assms
proof (induction directories)
  case (Cons d rest)
  obtain es where es: "list op d = Ok es"
    "(if sort (shards es) \<noteq> [] then Ok (sort (shards es)) else first_with_shards list op rest) = Ok paths"
    using Cons.prems by (auto simp: list_parquet_files_def shards_def [symmetric] and_then_Ok map_ok_Ok context_of_Ok)
  show ?case
  proof (cases "shards es = []")
    case True
    then have "first_with_shards list op rest = Ok paths" using es(2) by simp
    from Cons.IH [OF this] obtain before directory after entries where "rest = before @ directory # after"
      "\<forall>d\<in>set before. \<exists>es. list op d = Ok es \<and> shards es = []" "list op directory = Ok entries"
      "shards entries \<noteq> []" "paths = sort (shards entries)" by blast
    then show ?thesis using es(1) True by (intro exI [of _ "d # before"] exI [of _ directory] exI [of _ after] exI [of _ entries]) auto
  next
    case False
    then have "sort (shards es) \<noteq> []" by (metis mset_sort mset_zero_iff)
    then show ?thesis using es False by (intro exI [of _ "[]"] exI [of _ d] exI [of _ rest] exI [of _ es]) auto
  qed
qed simp

text \<open>
  C31: A split that opens reads, under the given policy and token, the conversion branch of
  its dataset, all Parquet files of the split's directory and nothing else, in the order of
  their names whatever the listing's order; those of the partial conversion only when the
  full one has none; as one scan of at least one file.
\<close>

theorem huggingface_reads_split:
  assumes "huggingface_source_open S A IO list h m = Some (Ok (s, batches, m'))"
  shows "\<exists>op directory entries. op_layers op = policy_layers (hs_opendal_config h)
    \<and> op_service op = HfService ([RepoType ''dataset'', RepoId (hs_dataset h), Revision ''refs/convert/parquet'', DownloadMode ''http'']
        @ (case hs_token h of Some t \<Rightarrow> [Token t] | None \<Rightarrow> []))
    \<and> list op directory = Ok entries \<and> shards entries \<noteq> []
    \<and> (directory = hs_config h @ ''/'' @ hs_split h @ ''/''
       \<or> directory = hs_config h @ ''/partial-'' @ hs_split h @ ''/''
         \<and> (\<exists>es. list op (hs_config h @ ''/'' @ hs_split h @ ''/'') = Ok es \<and> shards es = []))
    \<and> open_parquet_paths A IO op (sort (shards entries)) 8192 (hs_preserve_insertion_order h)
        (max_read_parallelism (hs_read_options h)) (hs_read_ahead_bytes h) (hs_projection h) m = Some (Ok (s, batches, m'))"
proof -
  obtain op paths where steps:
    "source_read_options_validate (hs_read_options h) = Ok (hs_read_options h)"
    "huggingface_operator S (hs_dataset h) PARQUET_REVISION (hs_token h) (hs_opendal_config h) = Ok op"
    "parquet_files list op h = Ok paths"
    "open_parquet_paths A IO op paths HF_DEFAULT_BATCH_SIZE (hs_preserve_insertion_order h)
       (max_read_parallelism (hs_read_options h)) (hs_read_ahead_bytes h) (hs_projection h) m = Some (Ok (s, batches, m'))"
    using assms
    by (auto simp: huggingface_source_open_def and_then_Ok map_ok_Ok context_of_Ok source_read_options_validate_def
        split: result.splits if_splits)
  obtain base where base: "operator_new S (HfService ([RepoType ''dataset'', RepoId (hs_dataset h), Revision PARQUET_REVISION,
      DownloadMode ''http''] @ (case hs_token h of Some t \<Rightarrow> [Token t] | None \<Rightarrow> []))) = Ok base"
    "opendal_config_apply (se_fits S) (hs_opendal_config h) base = Ok op"
    using steps(2) by (auto simp: huggingface_operator_def and_then_Ok map_err_Ok Let_def)
  from first_with_shards_Ok [OF steps(3) [unfolded parquet_files_def]] obtain before directory after entries where found:
    "split_directories h = before @ directory # after" "\<forall>d\<in>set before. \<exists>es. list op d = Ok es \<and> shards es = []"
    "list op directory = Ok entries" "shards entries \<noteq> []" "paths = sort (shards entries)" by blast
  have "directory = hs_config h @ ''/'' @ hs_split h @ ''/''
      \<or> directory = hs_config h @ ''/partial-'' @ hs_split h @ ''/''
        \<and> (\<exists>es. list op (hs_config h @ ''/'' @ hs_split h @ ''/'') = Ok es \<and> shards es = [])"
    using found(1,2) by (cases before) (auto simp: split_directories_def Cons_eq_append_conv)
  with applied_operator [OF base] found(3-5) steps(4) show ?thesis
    by (intro exI [of _ op] exI [of _ directory] exI [of _ entries]) (simp add: PARQUET_REVISION_def HF_DEFAULT_BATCH_SIZE_def)
qed

definition hub_listing :: lister where
  "hub_listing op directory = Ok (if directory = ''default/partial-train/''
     then [\<lparr>en_path = ''default/partial-train/1.parquet'', en_is_file = True\<rparr>,
           \<lparr>en_path = ''default/partial-train/0.parquet'', en_is_file = True\<rparr>] else [])"

lemma hub_shards: "parquet_files hub_listing op (huggingface_source_new ''org/set'')
    = Ok [''default/partial-train/0.parquet'', ''default/partial-train/1.parquet'']"
proof -
  have sorted: "sort [''default/partial-train/1.parquet'', ''default/partial-train/0.parquet'']
      = [''default/partial-train/0.parquet'', ''default/partial-train/1.parquet'']" by code_simp
  have names: "suffix ''.parquet'' ''default/partial-train/1.parquet''" "suffix ''.parquet'' ''default/partial-train/0.parquet''"
    by code_simp+
  have full: "list_parquet_files hub_listing op ''default/train/'' = Ok []"
    by (simp add: list_parquet_files_def hub_listing_def context_of_def)
  have partial: "list_parquet_files hub_listing op ''default/partial-train/''
      = Ok [''default/partial-train/0.parquet'', ''default/partial-train/1.parquet'']"
    by (simp add: list_parquet_files_def hub_listing_def context_of_def names sorted del: sort_key_simps)
  have dirs: "split_directories (huggingface_source_new ''org/set'') = [''default/train/'', ''default/partial-train/'']"
    by (simp add: split_directories_def huggingface_source_new_def)
  show ?thesis by (simp add: parquet_files_def dirs full partial)
qed

lemma hub_opens:
  "\<exists>s batches m'. huggingface_source_open (storage_ref []) arrow_ref parquet_ref hub_listing (huggingface_source_new ''org/set'')
     read_metrics_default = Some (Ok (s, batches, m'))"
proof -
  let ?h = "huggingface_source_new ''org/set''"
  let ?paths = "[''default/partial-train/0.parquet'', ''default/partial-train/1.parquet'']"
  have h: "hs_opendal_config ?h = opendal_config_default" "hs_token ?h = None" "hs_projection ?h = None"
    "hs_read_options ?h = source_read_options_default" "huggingface_validate ?h = Ok ()"
    by (simp_all add: huggingface_source_new_def huggingface_validate_def)
  have sound: "sound_config (\<lambda>_. True) opendal_config_default" by (simp add: default_config_sound)
  then have config: "opendal_config_validate (\<lambda>_. True) opendal_config_default = Ok opendal_config_default"
    by (simp add: validate_Ok)
  obtain op where op: "huggingface_operator (storage_ref []) (hs_dataset ?h) PARQUET_REVISION None opendal_config_default = Ok op"
    using sound by (auto simp: huggingface_operator_def operator_new_def apply_Ok Let_def)
  have opts: "source_read_options_validate source_read_options_default = Ok source_read_options_default"
    "max_read_parallelism source_read_options_default \<noteq> 0"
    by (simp_all add: source_read_options_validate_def source_read_options_default_def DEFAULT_MAX_READ_PARALLELISM_def)
  obtain md where md: "pq_footer parquet_ref op path = Ok md" for path by (simp add: parquet_ref_def)
  have "load_footer parquet_ref op path = Ok \<lparr>fm_path = path, fm_metadata = md\<rparr>" for path by (simp add: load_footer_def md)
  then have "\<exists>m1. load_parquet_metadata parquet_ref op ?paths read_metrics_default
      = Ok (pm_schema md, map (\<lambda>path. \<lparr>fm_path = path, fm_metadata = md\<rparr>) ?paths, m1)"
    by (simp add: load_parquet_metadata_def Let_def)
  then obtain m1 where load: "load_parquet_metadata parquet_ref op ?paths read_metrics_default
      = Ok (pm_schema md, map (\<lambda>path. \<lparr>fm_path = path, fm_metadata = md\<rparr>) ?paths, m1)" by blast
  have schema: "project_schema arrow_ref (Option.bind None column_projection_new) (pm_schema md) = Ok (pm_schema md)"
    by (simp add: project_schema_def)
  have batch: "HF_DEFAULT_BATCH_SIZE \<noteq> 0" by (simp add: HF_DEFAULT_BATCH_SIZE_def)
  from open_parquet_cases [OF arrow_ref_ok parquet_ref_documented(1) batch opts(2) load schema]
  have "\<exists>s batches m'. open_parquet_paths arrow_ref parquet_ref op ?paths HF_DEFAULT_BATCH_SIZE (hs_preserve_insertion_order ?h)
      (max_read_parallelism source_read_options_default) (hs_read_ahead_bytes ?h) None read_metrics_default = Some (Ok (s, batches, m'))"
    by blast
  then show ?thesis
    by (auto simp: huggingface_source_open_def h config op opts(1) hub_shards context_of_def)
qed

theorem huggingface_reads_split_witness:
  "\<exists>s batches m' op. huggingface_source_open (storage_ref []) arrow_ref parquet_ref hub_listing
      (huggingface_source_new ''org/set'') read_metrics_default = Some (Ok (s, batches, m'))
    \<and> op_service op = HfService [RepoType ''dataset'', RepoId ''org/set'', Revision ''refs/convert/parquet'', DownloadMode ''http'']
    \<and> open_parquet_paths arrow_ref parquet_ref op
        [''default/partial-train/0.parquet'', ''default/partial-train/1.parquet''] 8192 True
        (max_read_parallelism source_read_options_default) DEFAULT_READ_AHEAD_BYTES None read_metrics_default
      = Some (Ok (s, batches, m'))"
proof -
  obtain s batches m' where run: "huggingface_source_open (storage_ref []) arrow_ref parquet_ref hub_listing
      (huggingface_source_new ''org/set'') read_metrics_default = Some (Ok (s, batches, m'))" using hub_opens by blast
  from huggingface_reads_split [OF run] obtain op directory entries where
    op: "op_service op = HfService [RepoType ''dataset'', RepoId ''org/set'', Revision ''refs/convert/parquet'', DownloadMode ''http'']"
    and listed: "hub_listing op directory = Ok entries" "shards entries \<noteq> []"
    and opened: "open_parquet_paths arrow_ref parquet_ref op (sort (shards entries)) 8192 True
        (max_read_parallelism source_read_options_default) DEFAULT_READ_AHEAD_BYTES None read_metrics_default
      = Some (Ok (s, batches, m'))"
    by (auto simp: huggingface_source_new_def)
  have "entries = [\<lparr>en_path = ''default/partial-train/1.parquet'', en_is_file = True\<rparr>,
      \<lparr>en_path = ''default/partial-train/0.parquet'', en_is_file = True\<rparr>]"
    using listed by (auto simp: hub_listing_def shards_def split: if_splits)
  moreover have "sort (shards [\<lparr>en_path = ''default/partial-train/1.parquet'', en_is_file = True\<rparr>,
      \<lparr>en_path = ''default/partial-train/0.parquet'', en_is_file = True\<rparr>])
      = [''default/partial-train/0.parquet'', ''default/partial-train/1.parquet'']" by code_simp
  ultimately show ?thesis using run op opened
    by (intro exI [of _ s] exI [of _ batches] exI [of _ m'] exI [of _ op]) (simp only: simp_thms)
qed

end
