(* ===== verification/FfiConfig.thy ===== *)
theory FfiConfig
  imports ColumnStorage HuggingFace
begin

text \<open>
  \<open>rust/src/ffi.rs\<close>, the values that cross the C interface: strings, lists, the enumerations and
  the configurations, decoded into the options of the crate, and the error a call returns. A C
  pointer is an option, null being \<open>None\<close>; what a string pointer points to are the bytes before
  its terminator, and a list pointer with a count points to at least that many values, as the
  header requires of the caller. The text of a decoding error is the argument \<open>D\<close>.
\<close>

type_synonym c_string = "bytes option"

section \<open>Strings and lists\<close>

definition c_str :: "(bytes \<Rightarrow> string) \<Rightarrow> bytes \<Rightarrow> string res" where
  "c_str D b = (if utf8_valid b then Ok b else Err (utf8_error (D b)))"

definition optional_string :: "(bytes \<Rightarrow> string) \<Rightarrow> c_string \<Rightarrow> string option res" where
  "optional_string D v = (case v of
     None \<Rightarrow> Ok None
   | Some b \<Rightarrow> map_ok (\<lambda>s. if s \<noteq> [] then Some s else None) (c_str D b))"

definition string_list :: "(bytes \<Rightarrow> string) \<Rightarrow> c_string list option \<Rightarrow> usize \<Rightarrow> string list res" where
  "string_list D values n =
     (if n = 0 then Ok []
      else (case values of
          None \<Rightarrow> Err (error_message ''null string list'')
        | Some vs \<Rightarrow> try_map (\<lambda>v. case v of
              None \<Rightarrow> Err (error_message ''null string list value'') | Some b \<Rightarrow> c_str D b)
            (take (unat n) vs)))"

definition i32_list :: "i32 list option \<Rightarrow> usize \<Rightarrow> i32 list res" where
  "i32_list values n =
     (if n = 0 then Ok []
      else (case values of
          None \<Rightarrow> Err (error_message ''null integer list'')
        | Some vs \<Rightarrow> Ok (take (unat n) vs)))"

section \<open>Enumerations\<close>

definition LANCE_WRITE_MODE_CREATE :: i32 where "LANCE_WRITE_MODE_CREATE = 0"
definition LANCE_WRITE_MODE_APPEND :: i32 where "LANCE_WRITE_MODE_APPEND = 1"
definition LANCE_WRITE_MODE_OVERWRITE :: i32 where "LANCE_WRITE_MODE_OVERWRITE = 2"
definition LANCE_INDEX_SCALAR :: i32 where "LANCE_INDEX_SCALAR = 0"
definition LANCE_INDEX_VECTOR :: i32 where "LANCE_INDEX_VECTOR = 1"
definition LANCE_INDEX_TEXT :: i32 where "LANCE_INDEX_TEXT = 2"
definition LANCE_INDEX_BLOOM_FILTER :: i32 where "LANCE_INDEX_BLOOM_FILTER = 3"
definition LANCE_STRUCTURAL_ENCODING_DEFAULT :: i32 where "LANCE_STRUCTURAL_ENCODING_DEFAULT = 0"
definition LANCE_STRUCTURAL_ENCODING_MINIBLOCK :: i32 where "LANCE_STRUCTURAL_ENCODING_MINIBLOCK = 1"
definition LANCE_STRUCTURAL_ENCODING_FULLZIP :: i32 where "LANCE_STRUCTURAL_ENCODING_FULLZIP = 2"

lemmas c_enum_defs =
  LANCE_WRITE_MODE_CREATE_def LANCE_WRITE_MODE_APPEND_def LANCE_WRITE_MODE_OVERWRITE_def
  LANCE_INDEX_SCALAR_def LANCE_INDEX_VECTOR_def LANCE_INDEX_TEXT_def LANCE_INDEX_BLOOM_FILTER_def
  LANCE_STRUCTURAL_ENCODING_DEFAULT_def LANCE_STRUCTURAL_ENCODING_MINIBLOCK_def LANCE_STRUCTURAL_ENCODING_FULLZIP_def

definition index_kind_of :: "i32 \<Rightarrow> index_kind res" where
  "index_kind_of kind =
     (if kind = LANCE_INDEX_SCALAR then Ok Scalar
      else if kind = LANCE_INDEX_VECTOR then Ok Vector
      else if kind = LANCE_INDEX_TEXT then Ok Text
      else if kind = LANCE_INDEX_BLOOM_FILTER then Ok BloomFilter
      else Err (error_message (''invalid Lance index kind: '' @ show_int (sint kind))))"

definition structural_encoding_of :: "i32 \<Rightarrow> structural_encoding option res" where
  "structural_encoding_of encoding =
     (if encoding = LANCE_STRUCTURAL_ENCODING_DEFAULT then Ok None
      else if encoding = LANCE_STRUCTURAL_ENCODING_MINIBLOCK then Ok (Some MiniBlock)
      else if encoding = LANCE_STRUCTURAL_ENCODING_FULLZIP then Ok (Some FullZip)
      else Err (error_message (''invalid Lance structural encoding: '' @ show_int (sint encoding))))"

definition write_mode_of :: "i32 \<Rightarrow> write_mode res" where
  "write_mode_of mode =
     (if mode = LANCE_WRITE_MODE_CREATE then Ok ModeCreate
      else if mode = LANCE_WRITE_MODE_APPEND then Ok ModeAppend
      else if mode = LANCE_WRITE_MODE_OVERWRITE then Ok ModeOverwrite
      else Err (error_message (''invalid Lance write mode: '' @ show_int (sint mode))))"

section \<open>Configurations\<close>

record lance_s3_config =
  ls_endpoint :: c_string
  ls_region :: c_string
  ls_key_id :: c_string
  ls_secret :: c_string
  ls_session_token :: c_string
  ls_use_ssl :: i32
  ls_virtual_host_style :: i32

record lance_column_encoding =
  lc_column :: c_string
  lc_compression :: c_string
  lc_has_compression_level :: i32
  lc_compression_level :: i32
  lc_structural_encoding :: i32

record lance_write_config =
  lw_mode :: i32
  lw_blob_inline_size_threshold :: i64
  lw_blob_dedicated_size_threshold :: i64
  lw_target_file_size :: i64
  lw_storage_version :: c_string
  lw_column_encodings :: "lance_column_encoding list option"
  lw_column_encoding_count :: usize
  lw_blob_columns :: "c_string list option"
  lw_blob_column_count :: usize
  lw_index_columns :: "c_string list option"
  lw_index_kinds :: "i32 list option"
  lw_index_column_count :: usize

record lance_source_defaults =
  ld_max_read_parallelism :: u64
  ld_read_ahead_bytes :: u64

definition column_setting ::
  "(bytes \<Rightarrow> string) \<Rightarrow> (string, column_encoding) smap \<Rightarrow> lance_column_encoding \<Rightarrow> (string, column_encoding) smap res" where
  "column_setting D encodings e =
     and_then (optional_string D (lc_column e)) (\<lambda>c.
     and_then (ok_or c (error_message ''column encoding has no column'')) (\<lambda>column.
     and_then (optional_string D (lc_compression e)) (\<lambda>compression.
     and_then (structural_encoding_of (lc_structural_encoding e)) (\<lambda>structural.
     case map_of encodings column of
       Some _ \<Rightarrow> Err (error_message (''duplicate column encoding column: '' @ column))
     | None \<Rightarrow> Ok (sm_insert column \<lparr>ce_compression = compression,
         ce_compression_level = (if lc_has_compression_level e \<noteq> 0 then Some (lc_compression_level e) else None),
         ce_structural_encoding = structural\<rparr> encodings)))))"

definition column_encodings_of :: "(bytes \<Rightarrow> string) \<Rightarrow> lance_write_config \<Rightarrow> (string, column_encoding) smap res" where
  "column_encodings_of D c =
     (if lw_column_encoding_count c = 0 then Ok []
      else (case lw_column_encodings c of
          None \<Rightarrow> Err (error_message ''null column encoding list'')
        | Some es \<Rightarrow> try_fold (column_setting D) [] (take (unat (lw_column_encoding_count c)) es)))"

definition parse_opendal_config :: "(u64 \<Rightarrow> bool) \<Rightarrow> opendal_config option \<Rightarrow> opendal_config res" where
  "parse_opendal_config fits c =
     opendal_config_validate fits (case c of None \<Rightarrow> opendal_config_default | Some config \<Rightarrow> config)"

definition s3_config_of :: "(bytes \<Rightarrow> string) \<Rightarrow> lance_s3_config option \<Rightarrow> s3_config option res" where
  "s3_config_of D c = (case c of
     None \<Rightarrow> Ok None
   | Some config \<Rightarrow>
       and_then (optional_string D (ls_endpoint config)) (\<lambda>endpoint.
       and_then (optional_string D (ls_region config)) (\<lambda>region.
       and_then (optional_string D (ls_key_id config)) (\<lambda>key_id.
       and_then (optional_string D (ls_secret config)) (\<lambda>secret.
       and_then (optional_string D (ls_session_token config)) (\<lambda>session_token.
       Ok (Some \<lparr>s3_endpoint = endpoint, s3_region = region, s3_key_id = key_id, s3_secret = secret,
           s3_session_token = session_token, s3_use_ssl = (ls_use_ssl config \<noteq> 0),
           s3_virtual_host_style = (ls_virtual_host_style config \<noteq> 0)\<rparr>)))))))"

text \<open>A size of 64 bits fits the platform's \<open>usize\<close>, so the conversion of a positive value succeeds.\<close>

definition optional_threshold :: "i64 \<Rightarrow> string \<Rightarrow> bool \<Rightarrow> usize option res" where
  "optional_threshold v name allow_zero =
     (if sint v < 0 then Ok None
      else if v = 0 \<and> \<not> allow_zero then Err (error_message (name @ '' must be greater than zero''))
      else Ok (Some v))"

definition indexes_of :: "(bytes \<Rightarrow> string) \<Rightarrow> lance_write_config \<Rightarrow> (string \<times> index_kind) list res" where
  "indexes_of D c =
     and_then (string_list D (lw_index_columns c) (lw_index_column_count c)) (\<lambda>columns.
     and_then (i32_list (lw_index_kinds c) (lw_index_column_count c)) (\<lambda>kinds.
     try_map (\<lambda>(column, kind). map_ok (Pair column) (index_kind_of kind)) (zip columns kinds)))"

text \<open>The options \<open>lance_conversion_open\<close> builds, in the order it evaluates them.\<close>

definition write_options_of ::
  "(bytes \<Rightarrow> string) \<Rightarrow> (u64 \<Rightarrow> bool) \<Rightarrow> lance_write_config \<Rightarrow> lance_s3_config option \<Rightarrow> opendal_config option \<Rightarrow> write_options res" where
  "write_options_of D fits c s3 opendal =
     and_then (write_mode_of (lw_mode c)) (\<lambda>mode.
     and_then (s3_config_of D s3) (\<lambda>s3_config.
     and_then (parse_opendal_config fits opendal) (\<lambda>config.
     and_then (optional_threshold (lw_blob_inline_size_threshold c) ''blob inline size threshold'' True) (\<lambda>inline.
     and_then (optional_threshold (lw_blob_dedicated_size_threshold c) ''blob dedicated size threshold'' False) (\<lambda>dedicated.
     and_then (optional_threshold (lw_target_file_size c) ''target file size'' False) (\<lambda>target.
     and_then (optional_string D (lw_storage_version c)) (\<lambda>version.
     and_then (column_encodings_of D c) (\<lambda>encodings.
     and_then (string_list D (lw_blob_columns c) (lw_blob_column_count c)) (\<lambda>blobs.
     and_then (indexes_of D c) (\<lambda>indexes.
     Ok \<lparr>wo_mode = mode, wo_s3_config = s3_config, wo_opendal_config = config,
         wo_blob_inline_size_threshold = inline, wo_blob_dedicated_size_threshold = dedicated,
         wo_target_file_size = (case target of Some n \<Rightarrow> n | None \<Rightarrow> wo_target_file_size write_options_default),
         wo_storage_version = (case version of Some v \<Rightarrow> v | None \<Rightarrow> wo_storage_version write_options_default),
         wo_column_encoding = encodings, wo_blob_columns = blobs, wo_indexes = indexes\<rparr>))))))))))"

section \<open>Defaults\<close>

definition lance_opendal_default_config :: opendal_config where
  "lance_opendal_default_config = opendal_config_default"

definition threshold_of :: "usize option \<Rightarrow> i64" where
  "threshold_of v = (case v of None \<Rightarrow> - 1 | Some n \<Rightarrow> n)"

definition lance_write_default_config :: lance_write_config where
  "lance_write_default_config = \<lparr>lw_mode = LANCE_WRITE_MODE_CREATE,
     lw_blob_inline_size_threshold = threshold_of (wo_blob_inline_size_threshold write_options_default),
     lw_blob_dedicated_size_threshold = threshold_of (wo_blob_dedicated_size_threshold write_options_default),
     lw_target_file_size = threshold_of (Some (wo_target_file_size write_options_default)),
     lw_storage_version = None, lw_column_encodings = None, lw_column_encoding_count = 0,
     lw_blob_columns = None, lw_blob_column_count = 0, lw_index_columns = None, lw_index_kinds = None,
     lw_index_column_count = 0\<rparr>"

definition lance_source_defaults_value :: lance_source_defaults where
  "lance_source_defaults_value = \<lparr>ld_max_read_parallelism = DEFAULT_MAX_READ_PARALLELISM,
     ld_read_ahead_bytes = DEFAULT_READ_AHEAD_BYTES\<rparr>"

section \<open>The error of a call\<close>

text \<open>
  \<open>call\<close>: the operation's result, or \<open>None\<close> when it panics. An interior nul would make
  \<open>CString::new\<close> fail, and its \<open>unwrap\<close> panic, so each one is replaced; \<open>c_string_new\<close> is that
  constructor. The display of an error needs the location it was raised at.
\<close>

definition escape_nul :: "string \<Rightarrow> string" where
  "escape_nul s = concat (map (\<lambda>c. if c = CHR 0x00 then [CHR 0x5C, CHR ''0''] else [c]) s)"

definition c_string_new :: "string \<Rightarrow> bytes option" where
  "c_string_new s = (if CHR 0x00 \<in> set s then None else Some s)"

definition call :: "string \<Rightarrow> unit res option \<Rightarrow> c_string option" where
  "call location result = (case result of
     Some (Ok _) \<Rightarrow> Some None
   | Some (Err e) \<Rightarrow> map_option Some (c_string_new (escape_nul (error_display location e)))
   | None \<Rightarrow> map_option Some (c_string_new (escape_nul ''panic in Lance conversion FFI'')))"

lemma escape_nul_free: "CHR 0x00 \<notin> set (escape_nul s)"
  by (auto simp: escape_nul_def)

lemma escape_nul_id: "CHR 0x00 \<notin> set s \<Longrightarrow> escape_nul s = s"
  by (induction s) (auto simp: escape_nul_def)

lemma call_cases:
  "call location result = Some (case result of
     Some (Ok _) \<Rightarrow> None
   | Some (Err e) \<Rightarrow> Some (escape_nul (error_display location e))
   | None \<Rightarrow> Some (escape_nul ''panic in Lance conversion FFI''))"
  by (simp add: call_def c_string_new_def escape_nul_free split: option.split result.split)

text \<open>
  C16: A call returns null exactly when its operation succeeds. Otherwise, and also when the
  operation panics, it returns a C string without interior nul; no error makes the call itself
  panic, and an error without a nul is reported as it displays.
\<close>

theorem call_reports_outcome:
  "case call location result of
     None \<Rightarrow> False
   | Some reported \<Rightarrow> (reported = None) = (result = Some (Ok ()))
       \<and> (case reported of None \<Rightarrow> True | Some text \<Rightarrow> CHR 0x00 \<notin> set text)
       \<and> (case result of Some (Err e) \<Rightarrow>
            (if CHR 0x00 \<notin> set (error_display location e) then reported = Some (error_display location e) else True) | _ \<Rightarrow> True)"
  by (simp add: call_cases escape_nul_free escape_nul_id split: option.split result.split)

section \<open>What decoded options promise\<close>

text \<open>The header's contract: each list holds at least as many values as its count.\<close>

definition lists_complete :: "lance_write_config \<Rightarrow> bool" where
  "lists_complete c \<longleftrightarrow>
     (case lw_column_encodings c of None \<Rightarrow> True | Some es \<Rightarrow> unat (lw_column_encoding_count c) \<le> length es)
     \<and> (case lw_blob_columns c of None \<Rightarrow> True | Some vs \<Rightarrow> unat (lw_blob_column_count c) \<le> length vs)
     \<and> (case lw_index_columns c of None \<Rightarrow> True | Some vs \<Rightarrow> unat (lw_index_column_count c) \<le> length vs)
     \<and> (case lw_index_kinds c of None \<Rightarrow> True | Some ks \<Rightarrow> unat (lw_index_column_count c) \<le> length ks)"

lemma string_list_length:
  assumes "string_list D values n = Ok names" "case values of None \<Rightarrow> True | Some vs \<Rightarrow> unat n \<le> length vs"
  shows "length names = unat n"
  using assms by (auto simp: string_list_def unat_eq_0 dest!: try_map_length split: if_splits option.splits)

lemma indexes_of_length:
  assumes "indexes_of D c = Ok indexes" "lists_complete c"
  shows "length indexes = unat (lw_index_column_count c)"
proof -
  obtain columns kinds where ok: "string_list D (lw_index_columns c) (lw_index_column_count c) = Ok columns"
    "i32_list (lw_index_kinds c) (lw_index_column_count c) = Ok kinds"
    "try_map (\<lambda>(column, kind). map_ok (Pair column) (index_kind_of kind)) (zip columns kinds) = Ok indexes"
    using assms(1) by (auto simp: indexes_of_def and_then_Ok)
  have "length columns = unat (lw_index_column_count c)"
    using assms(2) by (intro string_list_length [OF ok(1)]) (simp add: lists_complete_def)
  moreover have "length kinds = unat (lw_index_column_count c)"
    using ok(2) assms(2) by (auto simp: i32_list_def lists_complete_def unat_eq_0 split: if_splits option.splits)
  ultimately show ?thesis using try_map_length [OF ok(3)] by simp
qed

definition setting_for :: "(bytes \<Rightarrow> string) \<Rightarrow> lance_column_encoding \<Rightarrow> column_encoding \<Rightarrow> bool" where
  "setting_for D e setting \<longleftrightarrow> optional_string D (lc_compression e) = Ok (ce_compression setting)
     \<and> ce_compression_level setting = (if lc_has_compression_level e \<noteq> 0 then Some (lc_compression_level e) else None)
     \<and> structural_encoding_of (lc_structural_encoding e) = Ok (ce_structural_encoding setting)"

lemma column_setting_Ok:
  assumes "column_setting D encodings e = Ok out"
  obtains column setting where "lc_column e = Some column" "column \<noteq> []" "map_of encodings column = None"
    "out = sm_insert column setting encodings" "setting_for D e setting"
proof -
  from assms obtain column compression structural where ok: "optional_string D (lc_column e) = Ok (Some column)"
    "optional_string D (lc_compression e) = Ok compression"
    "structural_encoding_of (lc_structural_encoding e) = Ok structural" "map_of encodings column = None"
    "out = sm_insert column \<lparr>ce_compression = compression,
         ce_compression_level = (if lc_has_compression_level e \<noteq> 0 then Some (lc_compression_level e) else None),
         ce_structural_encoding = structural\<rparr> encodings"
    by (auto simp: column_setting_def and_then_Ok ok_or_Ok split: option.splits)
  from ok(1) have "lc_column e = Some column" "column \<noteq> []"
    by (auto simp: optional_string_def c_str_def map_ok_Ok split: option.splits if_splits)
  then show thesis by (rule that [OF _ _ ok(4,5)]) (simp_all add: setting_for_def ok(2,3))
qed

lemma sm_insert_new_length: "map_of m k = None \<Longrightarrow> length (sm_insert k v m) = Suc (length m)"
  by (induction k v m rule: sm_insert.induct) (auto split: if_splits)

text \<open>The settings of a list of columns: one for each entry, under its column's name.\<close>

lemma column_settings_step:
  assumes "sm_wf acc" "try_fold (column_setting D) acc es = Ok out"
  shows "sm_wf out \<and> length out = length acc + length es \<and> map_of acc \<subseteq>\<^sub>m map_of out
    \<and> (\<forall>e\<in>set es. \<exists>column setting. lc_column e = Some column \<and> column \<noteq> [] \<and> map_of acc column = None
         \<and> map_of out column = Some setting \<and> setting_for D e setting)
    \<and> distinct (map lc_column es)"
  using assms
proof (induction es arbitrary: acc)
  case (Cons e es)
  then obtain mid where mid: "column_setting D acc e = Ok mid" "try_fold (column_setting D) mid es = Ok out"
    by (auto simp: and_then_Ok)
  from mid(1) obtain column setting where col: "lc_column e = Some column" "column \<noteq> []" "map_of acc column = None"
    "mid = sm_insert column setting acc" "setting_for D e setting" by (rule column_setting_Ok)
  have wf: "sm_wf mid" using Cons.prems(1) col(4) by (simp add: sm_wf_insert)
  have get: "map_of mid = (map_of acc)(column \<mapsto> setting)" using Cons.prems(1) col(4) by (simp add: sm_get_insert)
  have len: "length mid = Suc (length acc)" using col(3,4) by (simp add: sm_insert_new_length)
  note rest = Cons.IH [OF wf mid(2)]
  have acc: "map_of acc \<subseteq>\<^sub>m map_of mid" using col(3) by (auto simp: get map_le_def)
  have here: "map_of out column = Some setting" using rest by (auto simp: map_le_def get dom_def)
  have "lc_column e \<notin> lc_column ` set es" using rest col(1) by (auto simp: get)
  moreover have "\<exists>c v. lc_column x = Some c \<and> c \<noteq> [] \<and> map_of acc c = None \<and> map_of out c = Some v \<and> setting_for D x v"
    if "x \<in> set es" for x
    using rest that by (fastforce simp: get split: if_splits)
  ultimately show ?case
    using rest len col here map_le_trans [OF acc] by auto
qed simp

text \<open>
  C15: Options that decode are usable: the policy is valid, the sizes are not zero where zero
  is refused, so that no later check of the write fails on them, every list has as many
  values as its count, and the column settings are one for each entry, under its column's
  distinct and non-empty name and with its values.
\<close>

theorem decoded_options_sound:
  assumes "write_options_of D fits c s3 opendal = Ok w" "lists_complete c"
  shows "sound_config fits (wo_opendal_config w) \<and> is_ok (blob_options_of w) \<and> wo_target_file_size w \<noteq> 0
    \<and> length (wo_blob_columns w) = unat (lw_blob_column_count c)
    \<and> length (wo_indexes w) = unat (lw_index_column_count c)
    \<and> length (wo_column_encoding w) = unat (lw_column_encoding_count c)
    \<and> (case lw_column_encodings c of None \<Rightarrow> True | Some es \<Rightarrow>
         \<forall>e\<in>set (take (unat (lw_column_encoding_count c)) es). \<exists>column setting. lc_column e = Some column \<and> column \<noteq> []
           \<and> map_of (wo_column_encoding w) column = Some setting \<and> setting_for D e setting)"
proof -
  obtain mode s3_config config inline dedicated target version encodings blobs indexes where ok:
    "parse_opendal_config fits opendal = Ok config"
    "optional_threshold (lw_blob_dedicated_size_threshold c) ''blob dedicated size threshold'' False = Ok dedicated"
    "optional_threshold (lw_target_file_size c) ''target file size'' False = Ok target"
    "column_encodings_of D c = Ok encodings"
    "string_list D (lw_blob_columns c) (lw_blob_column_count c) = Ok blobs" "indexes_of D c = Ok indexes"
    "w = \<lparr>wo_mode = mode, wo_s3_config = s3_config, wo_opendal_config = config,
         wo_blob_inline_size_threshold = inline, wo_blob_dedicated_size_threshold = dedicated,
         wo_target_file_size = (case target of Some n \<Rightarrow> n | None \<Rightarrow> wo_target_file_size write_options_default),
         wo_storage_version = (case version of Some v \<Rightarrow> v | None \<Rightarrow> wo_storage_version write_options_default),
         wo_column_encoding = encodings, wo_blob_columns = blobs, wo_indexes = indexes\<rparr>"
    using assms(1) unfolding write_options_of_def and_then_Ok by blast
  have positive: "t \<noteq> Some 0" if "optional_threshold v name False = Ok t" for v name t
    using that by (auto simp: optional_threshold_def split: if_splits)
  have target: "(case target of Some n \<Rightarrow> n | None \<Rightarrow> wo_target_file_size write_options_default) \<noteq> 0"
    using positive [OF ok(3)] by (cases target) (auto simp: write_options_default_def DEFAULT_TARGET_FILE_SIZE_def)
  have blobs: "length blobs = unat (lw_blob_column_count c)"
    using assms(2) by (intro string_list_length [OF ok(5)]) (simp add: lists_complete_def)
  have config: "sound_config fits config" using ok(1) by (auto simp: parse_opendal_config_def validate_Ok)
  have enc: "length encodings = unat (lw_column_encoding_count c) \<and> (case lw_column_encodings c of None \<Rightarrow> True | Some es \<Rightarrow>
         \<forall>e\<in>set (take (unat (lw_column_encoding_count c)) es). \<exists>column setting. lc_column e = Some column \<and> column \<noteq> []
           \<and> map_of encodings column = Some setting \<and> setting_for D e setting)"
  proof (cases "lw_column_encoding_count c = 0")
    case True
    with ok(4) show ?thesis by (auto simp: column_encodings_of_def split: option.split)
  next
    case False
    with ok(4) obtain es where es: "lw_column_encodings c = Some es"
      "try_fold (column_setting D) [] (take (unat (lw_column_encoding_count c)) es) = Ok encodings"
      by (auto simp: column_encodings_of_def split: option.splits)
    have "unat (lw_column_encoding_count c) \<le> length es" using assms(2) es(1) by (simp add: lists_complete_def)
    with column_settings_step [OF sm_wf_Nil es(2)] es(1) show ?thesis by auto
  qed
  have stored: "encodings = wo_column_encoding w" by (simp add: ok(7))
  have "sound_config fits (wo_opendal_config w) \<and> is_ok (blob_options_of w) \<and> wo_target_file_size w \<noteq> 0
      \<and> length (wo_blob_columns w) = unat (lw_blob_column_count c) \<and> length (wo_indexes w) = unat (lw_index_column_count c)"
    using config target blobs positive [OF ok(2)] indexes_of_length [OF ok(6) assms(2)]
    by (simp add: ok(7) blob_options_of_def)
  with enc [unfolded stored] show ?thesis by blast
qed

text \<open>A configuration of two column settings and one index.\<close>

definition example_config :: lance_write_config where
  "example_config = lance_write_default_config
     \<lparr>lw_column_encodings := Some [\<lparr>lc_column = Some ''body'', lc_compression = Some ''zstd'', lc_has_compression_level = 1,
          lc_compression_level = 7, lc_structural_encoding = 2\<rparr>,
        \<lparr>lc_column = Some ''id'', lc_compression = None, lc_has_compression_level = 0, lc_compression_level = 0,
          lc_structural_encoding = 0\<rparr>],
      lw_column_encoding_count := 2, lw_index_columns := Some [Some ''id''], lw_index_kinds := Some [0],
      lw_index_column_count := 1\<rparr>"

lemma default_policy_decodes: "parse_opendal_config (\<lambda>_. True) None = Ok opendal_config_default"
  by (simp add: parse_opendal_config_def validate_Ok default_config_sound)

lemma example_decodes:
  "\<exists>w. write_options_of (\<lambda>_. []) (\<lambda>_. True) example_config None None = Ok w"
proof -
  have parts: "is_ok (write_mode_of (lw_mode example_config))" "is_ok (s3_config_of (\<lambda>_. []) None)"
    "is_ok (optional_threshold (lw_blob_inline_size_threshold example_config) ''blob inline size threshold'' True)"
    "is_ok (optional_threshold (lw_blob_dedicated_size_threshold example_config) ''blob dedicated size threshold'' False)"
    "is_ok (optional_threshold (lw_target_file_size example_config) ''target file size'' False)"
    "is_ok (optional_string (\<lambda>_. []) (lw_storage_version example_config))" "is_ok (column_encodings_of (\<lambda>_. []) example_config)"
    "is_ok (string_list (\<lambda>_. []) (lw_blob_columns example_config) (lw_blob_column_count example_config))"
    "is_ok (indexes_of (\<lambda>_. []) example_config)"
    by code_simp+
  then show ?thesis
    unfolding is_ok_iff write_options_of_def default_policy_decodes by (auto simp: and_then_Ok)
qed

theorem decoded_options_sound_witness:
  "\<exists>w. write_options_of (\<lambda>_. []) (\<lambda>_. True) example_config None None = Ok w
    \<and> length (wo_column_encoding w) = 2 \<and> length (wo_indexes w) = 1 \<and> wo_target_file_size w \<noteq> 0"
proof -
  obtain w where w: "write_options_of (\<lambda>_. []) (\<lambda>_. True) example_config None None = Ok w"
    using example_decodes by blast
  have "lists_complete example_config" by code_simp
  from decoded_options_sound [OF w this] w show ?thesis by (simp add: example_config_def)
qed

lemma default_config_decodes:
  assumes "sound_config fits opendal_config_default" "opendal \<in> {None, Some lance_opendal_default_config}"
  shows "write_options_of D fits lance_write_default_config None opendal = Ok write_options_default"
proof -
  have "\<not> sint (n :: i64) < 0" if "n \<in> {DEFAULT_BLOB_INLINE_SIZE_THRESHOLD, DEFAULT_BLOB_DEDICATED_SIZE_THRESHOLD, DEFAULT_TARGET_FILE_SIZE}" for n
    using that by (auto simp: DEFAULT_BLOB_INLINE_SIZE_THRESHOLD_def DEFAULT_BLOB_DEDICATED_SIZE_THRESHOLD_def DEFAULT_TARGET_FILE_SIZE_def)
  then have thresholds: "optional_threshold (threshold_of (Some n)) name zero = Ok (Some n)"
    if "n \<in> {DEFAULT_BLOB_INLINE_SIZE_THRESHOLD, DEFAULT_BLOB_DEDICATED_SIZE_THRESHOLD, DEFAULT_TARGET_FILE_SIZE}" "n \<noteq> 0" for n name zero
    using that by (simp add: optional_threshold_def threshold_of_def)
  have nonzero: "DEFAULT_BLOB_INLINE_SIZE_THRESHOLD \<noteq> 0" "DEFAULT_BLOB_DEDICATED_SIZE_THRESHOLD \<noteq> 0" "DEFAULT_TARGET_FILE_SIZE \<noteq> 0"
    by (simp_all add: DEFAULT_BLOB_INLINE_SIZE_THRESHOLD_def DEFAULT_BLOB_DEDICATED_SIZE_THRESHOLD_def DEFAULT_TARGET_FILE_SIZE_def)
  have "parse_opendal_config fits opendal = Ok opendal_config_default"
    using assms by (auto simp: parse_opendal_config_def lance_opendal_default_config_def validate_Ok)
  then show ?thesis
    using nonzero thresholds
    by (simp add: write_options_of_def lance_write_default_config_def write_options_default_def write_mode_of_def c_enum_defs
        s3_config_of_def optional_string_def column_encodings_of_def string_list_def indexes_of_def i32_list_def)
qed

text \<open>A storage version that is null or empty gives the crate's default, whatever the other options.\<close>

lemma unset_storage_version:
  assumes "write_options_of D fits c s3 opendal = Ok w" "lw_storage_version c \<in> {None, Some []}"
  shows "wo_storage_version w = ''2.2''"
proof -
  have "optional_string D (lw_storage_version c) = Ok None"
    using assms(2) by (auto simp: optional_string_def c_str_def)
  with assms(1) show ?thesis
    unfolding write_options_of_def and_then_Ok
    by (auto simp: write_options_default_def DEFAULT_STORAGE_VERSION_def)
qed

end
