(* ===== verification/FfiDataset.thy ===== *)
theory FfiDataset
  imports LanceWriter FfiConfig
begin

text \<open>
  \<open>rust/src/ffi.rs\<close>, the destination: the handle of a dataset write and those of its fragment
  writers, each call with its null checks, and the calls on a destination's prefix. A handle
  pointer is an option; the fragment writer behind a handle is its configuration in
  \<open>DatasetSystem\<close>. What the storage and the tokio runtimes return, and arrow's import of a C
  array, are the records \<open>ffi_env\<close> and \<open>array_import\<close>.
\<close>

record ffi_env =
  fe_storage :: storage_env
  fe_display :: "bytes \<Rightarrow> string"
  fe_source_runtime :: "(unit, string) result"
  fe_build_runtime :: "(unit, io_error_kind \<times> string) result"
  fe_exists :: "operator \<Rightarrow> string \<Rightarrow> (bool, opendal_error) result"
  fe_list :: lister
  fe_delete :: "operator \<Rightarrow> string \<Rightarrow> (unit, opendal_error) result"

text \<open>The runtime the sources share is built once; \<open>fe_source_runtime\<close> is what its builder gave.\<close>

definition SOURCE_RUNTIME :: "ffi_env \<Rightarrow> (unit, string) result" where
  "SOURCE_RUNTIME X = map_err (\<lambda>e. ''failed to create source runtime: '' @ e) (fe_source_runtime X)"

definition source_runtime :: "ffi_env \<Rightarrow> unit res" where
  "source_runtime X = map_err error_message (SOURCE_RUNTIME X)"

section \<open>The prefix of a destination\<close>

definition dataset_prefix :: "opendal_storage \<Rightarrow> string res" where
  "dataset_prefix st =
     (if \<not> suffix ''.lance'' (st_object_path st)
      then Err (error_message ''dataset cleanup requires a .lance destination'')
      else Ok (st_object_path st @ ''/''))"

definition destination_prefix ::
  "ffi_env \<Rightarrow> bytes \<Rightarrow> lance_s3_config option \<Rightarrow> opendal_config option \<Rightarrow> (operator \<times> string) res" where
  "destination_prefix X path s3 opendal =
     and_then (c_str (fe_display X) path) (\<lambda>path.
     and_then (s3_config_of (fe_display X) s3) (\<lambda>s3.
     and_then (parse_opendal_config (se_fits (fe_storage X)) opendal) (\<lambda>config.
     and_then (from_path (fe_storage X) path s3 config) (\<lambda>storage.
     map_ok (Pair (st_operator storage)) (dataset_prefix storage)))))"

text \<open>\<open>lance_conversion_dataset_exists\<close>: its result, and \<open>*exists\<close> afterwards.\<close>

definition ffi_dataset_exists ::
  "ffi_env \<Rightarrow> c_string \<Rightarrow> lance_s3_config option \<Rightarrow> opendal_config option \<Rightarrow> bool option \<Rightarrow> unit res \<times> bool option" where
  "ffi_dataset_exists X path s3 opendal out = (case (path, out) of
     (Some p, Some _) \<Rightarrow>
       (case and_then (destination_prefix X p s3 opendal) (\<lambda>(op, pre).
            and_then (source_runtime X) (\<lambda>_.
            and_then (map_err opendal_into (fe_exists X op pre)) (\<lambda>there.
            if there then Ok True
            else map_ok (\<lambda>entries. entries \<noteq> []) (map_err opendal_into (fe_list X op pre))))) of
          Ok found \<Rightarrow> (Ok (), Some found)
        | Err e \<Rightarrow> (Err e, Some False))
   | _ \<Rightarrow> (Err (error_message ''null dataset existence argument''), out))"

text \<open>\<open>lance_conversion_remove_dataset\<close>: its result, and the recursive deletion it asks for.\<close>

definition ffi_remove_dataset ::
  "ffi_env \<Rightarrow> c_string \<Rightarrow> lance_s3_config option \<Rightarrow> opendal_config option \<Rightarrow> unit res \<times> (operator \<times> string) option" where
  "ffi_remove_dataset X path s3 opendal = (case path of
     None \<Rightarrow> (Err (error_message ''null dataset cleanup path''), None)
   | Some p \<Rightarrow>
       (case and_then (destination_prefix X p s3 opendal) (\<lambda>target. map_ok (\<lambda>_. target) (source_runtime X)) of
          Err e \<Rightarrow> (Err e, None)
        | Ok (op, pre) \<Rightarrow> (map_err opendal_into (fe_delete X op pre), Some (op, pre))))"

section \<open>The dataset handle\<close>

record 'd ffi_dataset =
  fd_writer :: "'d dataset_write option"
  fd_summary :: "write_summary option"

record lance_write_metrics =
  lm_bytes_read :: u64
  lm_bytes_written :: u64

definition lance_write_metrics_default :: lance_write_metrics where
  "lance_write_metrics_default = \<lparr>lm_bytes_read = 0, lm_bytes_written = 0\<rparr>"

text \<open>
  \<open>lance_conversion_open\<close>; \<open>schema\<close> is what importing the C schema gives, and the handle comes
  with the state its fragment writers share. Without a pointer for the handle it fails.
\<close>

definition ffi_open ::
  "ffi_env \<Rightarrow> ('p, 'f, 'x, 'd) lance_env \<Rightarrow> c_string \<Rightarrow> (schema, string) result option \<Rightarrow> lance_write_config option \<Rightarrow>
   lance_s3_config option \<Rightarrow> opendal_config option \<Rightarrow> bool \<Rightarrow> ('d ffi_dataset \<times> ('f, 'x) transaction shared_write) res" where
  "ffi_open X L path schema config s3 opendal has_output = (case (path, schema, config, has_output) of
     (Some p, Some s, Some c, True) \<Rightarrow>
       and_then (c_str (fe_display X) p) (\<lambda>path.
       and_then (map_err arrow_error s) (\<lambda>schema.
       and_then (write_options_of (fe_display X) (se_fits (fe_storage X)) c s3 opendal) (\<lambda>w.
       and_then (map_err (\<lambda>(kind, shown). io_error kind shown) (fe_build_runtime X)) (\<lambda>_.
       and_then (dataset_create (fe_storage X) L (Some path) schema w) (\<lambda>(W, sh).
       Ok (\<lparr>fd_writer = Some W, fd_summary = None\<rparr>, sh))))))
   | _ \<Rightarrow> Err (error_message ''null writer argument''))"

definition finished_error :: error where
  "finished_error = error_message ''Lance dataset writer is already finished''"

text \<open>\<open>lance_conversion_writer_open\<close>: a new fragment writer of the system.\<close>

definition ffi_writer_open ::
  "'d ffi_dataset option \<Rightarrow> bool \<Rightarrow> ('p, 't) dataset_system \<Rightarrow> unit res \<times> ('p, 't) dataset_system" where
  "ffi_writer_open dataset has_output sys = (case dataset of
     Some d \<Rightarrow> (if \<not> has_output then (Err (error_message ''null fragment writer argument''), sys)
       else (case fd_writer d of
           None \<Rightarrow> (Err finished_error, sys)
         | Some _ \<Rightarrow> (Ok (), sys\<lparr>ds_writers := ds_writers sys @ [spawn]\<rparr>)))
   | None \<Rightarrow> (Err (error_message ''null fragment writer argument''), sys))"

text \<open>
  \<open>lance_conversion_finish\<close>: the writer is taken before it commits; the result, the handle and
  the shared state afterwards, and what was published.
\<close>

definition ffi_finish ::
  "('p, 'f, 'x, 'd) lance_env \<Rightarrow> 'd ffi_dataset option \<Rightarrow> ('f, 'x) transaction shared_write \<Rightarrow>
   unit res \<times> 'd ffi_dataset option \<times> ('f, 'x) transaction shared_write \<times> ('f, 'x) transaction option" where
  "ffi_finish L dataset sh = (case dataset of
     None \<Rightarrow> (Err (error_message ''null writer''), None, sh, None)
   | Some d \<Rightarrow> (case fd_writer d of
       None \<Rightarrow> (Err finished_error, Some d, sh, None)
     | Some W \<Rightarrow> (case dataset_commit L W sh of
         (Ok summary, sh', published) \<Rightarrow> (Ok (), Some \<lparr>fd_writer = None, fd_summary = Some summary\<rparr>, sh', published)
       | (Err e, sh', published) \<Rightarrow> (Err e, Some (d\<lparr>fd_writer := None\<rparr>), sh', published))))"

text \<open>
  \<open>lance_conversion_destroy\<close> drops the handle, with a writer that has not committed; its owner
  is left without one.
\<close>

definition ffi_destroy :: "'d ffi_dataset option \<Rightarrow> 'd ffi_dataset option" where
  "ffi_destroy dataset = None"

text \<open>\<open>lance_conversion_get_metrics\<close>: the metrics after the call, unchanged when a pointer is null.\<close>

definition ffi_get_metrics :: "'d ffi_dataset option \<Rightarrow> lance_write_metrics option \<Rightarrow> lance_write_metrics option" where
  "ffi_get_metrics dataset out = (case (dataset, out) of
     (Some d, Some _) \<Rightarrow> Some (case fd_summary d of
         Some s \<Rightarrow> \<lparr>lm_bytes_read = ws_bytes_read s, lm_bytes_written = ws_bytes_written s\<rparr>
       | None \<Rightarrow> lance_write_metrics_default)
   | _ \<Rightarrow> out)"

section \<open>The writer handle\<close>

record ('a, 'p) array_import =
  fi_import :: "'a \<Rightarrow> field list \<Rightarrow> ('p array list, string) result"
  fi_batch :: "schema \<Rightarrow> 'p array list \<Rightarrow> ('p record_batch, string) result"

text \<open>
  \<open>lance_conversion_push\<close> on the state of a writer whose dataset has schema \<open>s\<close>: its result, the
  state, and whether it has taken the caller's array.
\<close>

definition ffi_push ::
  "('a, 'p) array_import \<Rightarrow> schema \<Rightarrow> sink_state option \<Rightarrow> 'a option \<Rightarrow> bool \<Rightarrow> 't joined \<Rightarrow> unit res \<times> sink_state option \<times> bool" where
  "ffi_push I s writer array was_sent j = (case (writer, array) of
     (Some st, Some a) \<Rightarrow>
       (case and_then (map_err arrow_error (fi_import I a (schema_fields s))) (\<lambda>columns.
             map_err arrow_error (fi_batch I s columns)) of
          Err e \<Rightarrow> (Err e, Some st, True)
        | Ok batch \<Rightarrow> (case write_batch s (rb_schema batch) was_sent j st of (r, st') \<Rightarrow> (r, Some st', True)))
   | _ \<Rightarrow> (Err (error_message ''null batch argument''), writer, False))"

definition ffi_writer_finish ::
  "sink_state option \<Rightarrow> bool \<Rightarrow> 't joined \<Rightarrow> 't shared_write \<Rightarrow> unit res \<times> sink_state option \<times> 't shared_write" where
  "ffi_writer_finish writer was_sent j sh = (case writer of
     None \<Rightarrow> (Err (error_message ''null fragment writer''), None, sh)
   | Some st \<Rightarrow> (case finish was_sent j st sh of (r, st', sh') \<Rightarrow> (r, Some st', sh')))"

text \<open>\<open>lance_conversion_writer_destroy\<close>: the state the writer is dropped in.\<close>

definition ffi_writer_destroy :: "sink_state option \<Rightarrow> 't joined \<Rightarrow> sink_state option" where
  "ffi_writer_destroy writer j = map_option (abort_writer j) writer"

section \<open>Cleaning up a destination\<close>

lemma destination_prefix_Ok:
  assumes "destination_prefix X p s3 opendal = Ok (op, pre)"
  obtains path c config st where "c_str (fe_display X) p = Ok path" "s3_config_of (fe_display X) s3 = Ok c"
    "parse_opendal_config (se_fits (fe_storage X)) opendal = Ok config" "from_path (fe_storage X) path c config = Ok st"
    "op = st_operator st" "suffix ''.lance'' (st_object_path st)" "pre = st_object_path st @ ''/''"
  using assms by (auto simp: destination_prefix_def and_then_Ok map_ok_Ok dataset_prefix_def split: if_splits)

text \<open>
  C14: Removing a dataset asks storage to delete at most one prefix, in the storage and under the
  policy that the caller's path, S3 configuration and policy decode to, and that prefix is the
  path of the object the path names there, which ends in \<open>.lance\<close>, followed by a slash: no
  sibling whose name merely starts like the dataset's is under it, and it is never the root.
\<close>

theorem remove_deletes_only_dataset:
  assumes "ffi_remove_dataset X path s3 opendal = (r, Some (op, pre))"
  shows "\<exists>bytes p c config object. path = Some bytes \<and> c_str (fe_display X) bytes = Ok p
    \<and> s3_config_of (fe_display X) s3 = Ok c
    \<and> parse_opendal_config (se_fits (fe_storage X)) opendal = Ok config
    \<and> stored_in (fe_storage X) p c config op object \<and> suffix ''.lance'' object
    \<and> (\<forall>key. prefix pre key = (\<exists>rest. key = object @ ''/'' @ rest))
    \<and> r = map_err opendal_into (fe_delete X op pre)"
proof -
  obtain b where b: "path = Some b" "destination_prefix X b s3 opendal = Ok (op, pre)" "r = map_err opendal_into (fe_delete X op pre)"
    using assms by (auto simp: ffi_remove_dataset_def and_then_Ok map_ok_Ok split: option.splits result.splits)
  from b(2) obtain p c config st where st: "c_str (fe_display X) b = Ok p" "s3_config_of (fe_display X) s3 = Ok c"
    "parse_opendal_config (se_fits (fe_storage X)) opendal = Ok config" "from_path (fe_storage X) p c config = Ok st"
    "op = st_operator st" "suffix ''.lance'' (st_object_path st)" "pre = st_object_path st @ ''/''" by (rule destination_prefix_Ok)
  have "stored_in (fe_storage X) p c config op (st_object_path st)" using from_path_Ok [OF st(4)] st(5) by simp
  moreover have "\<forall>key. prefix pre key = (\<exists>rest. key = st_object_path st @ ''/'' @ rest)"
    by (simp add: st(7) prefix_def)
  ultimately show ?thesis using b(1,3) st(1-3,6) by blast
qed

definition local_env :: ffi_env where
  "local_env = \<lparr>fe_storage = storage_ref [], fe_display = (\<lambda>_. []), fe_source_runtime = Ok (), fe_build_runtime = Ok (),
     fe_exists = (\<lambda>_ _. Ok False), fe_list = (\<lambda>_ _. Ok []), fe_delete = (\<lambda>_ _. Ok ())\<rparr>"

lemma local_env_sel: "fe_storage local_env = storage_ref []" "fe_display local_env = (\<lambda>_. [])" "source_runtime local_env = Ok ()"
  "se_fits (storage_ref []) = (\<lambda>_. True)"
  by (simp_all add: local_env_def storage_ref_def source_runtime_def SOURCE_RUNTIME_def)

lemma local_destination:
  "destination_prefix local_env ''trial.lance'' None None = Ok (\<lparr>op_service = FsRoot ''/'', op_layers = []\<rparr>, ''work/trial.lance/'')"
proof -
  have "\<not> is_s3_uri ''trial.lance''" by code_simp
  moreover have "opendal_config_validate (\<lambda>_. True) opendal_config_default = Ok opendal_config_default"
    by (simp add: validate_Ok default_config_sound)
  moreover have "c_str (\<lambda>_. []) ''trial.lance'' = Ok ''trial.lance''" by code_simp
  moreover have "suffix ''.lance'' ''work/trial.lance''" by (simp add: suffix_def)
  ultimately show ?thesis
    by (simp add: destination_prefix_def local_env_def s3_config_of_def default_policy_decodes from_path_def from_local_path_def
        path_is_absolute_def path_push_def operator_new_def trim_start_slashes_def context_of_def dataset_prefix_def)
      (simp add: storage_ref_def)
qed

lemma local_decoded: "c_str (\<lambda>_. []) ''trial.lance'' = Ok ''trial.lance''" "s3_config_of (\<lambda>_. []) None = Ok None"
  by (code_simp, simp add: s3_config_of_def)

theorem remove_deletes_only_dataset_witness:
  "ffi_remove_dataset local_env (Some ''trial.lance'') None None
      = (Ok (), Some (\<lparr>op_service = FsRoot ''/'', op_layers = []\<rparr>, ''work/trial.lance/''))
    \<and> (\<exists>config. parse_opendal_config (\<lambda>_. True) None = Ok config
        \<and> stored_in (storage_ref []) ''trial.lance'' None config \<lparr>op_service = FsRoot ''/'', op_layers = []\<rparr> ''work/trial.lance'')"
proof -
  have run: "ffi_remove_dataset local_env (Some ''trial.lance'') None None
      = (Ok (), Some (\<lparr>op_service = FsRoot ''/'', op_layers = []\<rparr>, ''work/trial.lance/''))"
    by (simp add: ffi_remove_dataset_def local_destination source_runtime_def SOURCE_RUNTIME_def) (simp add: local_env_def)
  from remove_deletes_only_dataset [OF run] obtain config object where
    "parse_opendal_config (\<lambda>_. True) None = Ok config" and object: "\<forall>key. prefix ''work/trial.lance/'' key = (\<exists>rest. key = object @ ''/'' @ rest)"
    "stored_in (storage_ref []) ''trial.lance'' None config \<lparr>op_service = FsRoot ''/'', op_layers = []\<rparr> object"
    by (auto simp: local_env_sel local_decoded)
  moreover from object(2) have "object = ''work/trial.lance''"
    by (auto simp: stored_in_def path_push_def path_is_absolute_def trim_start_slashes_def)
  ultimately show ?thesis using run by blast
qed

text \<open>
  Against the header, which says that \<open>exists\<close> is set only on success: a call that passes its
  null checks and fails has cleared it.
\<close>

lemma exists_cleared_on_error:
  assumes "ffi_dataset_exists X (Some p) s3 opendal (Some before) = (Err e, out)"
  shows "out = Some False"
  using assms by (auto simp: ffi_dataset_exists_def split: result.splits)

section \<open>The life of a dataset handle\<close>

text \<open>
  What the callers do to one handle, in any order and interleaving: open a writer, run one of
  the fragment writers or its task, finish, or destroy, again and again if they like. Each
  transaction published is recorded with the fragment writers as the call of \<open>finish\<close> found them.
\<close>

record ('p, 't, 'd) ffi_session =
  fs_dataset :: "'d ffi_dataset option"
  fs_system :: "('p, 't) dataset_system"
  fs_published :: "(('p, 't) dataset_system \<times> 't) list"

inductive ffi_step ::
  "('p, 'f, 'x, 'd) lance_env \<Rightarrow> 'd dataset_write \<Rightarrow> ('p, ('f, 'x) transaction, 'd) ffi_session \<Rightarrow>
   ('p, ('f, 'x) transaction, 'd) ffi_session \<Rightarrow> bool"
  for L W where
  opens_writer: "ffi_writer_open (fs_dataset s) True (fs_system s) = (r, sys) \<Longrightarrow>
    ffi_step L W s (s\<lparr>fs_system := sys\<rparr>)"
| runs_writer: "i < length (ds_writers (fs_system s)) \<Longrightarrow>
    fragment_step L W (ds_writers (fs_system s) ! i, ds_shared (fs_system s)) (g, sh) \<Longrightarrow>
    ffi_step L W s (s\<lparr>fs_system := \<lparr>ds_writers = (ds_writers (fs_system s))[i := g], ds_shared = sh\<rparr>\<rparr>)"
| finishes: "ffi_finish L (fs_dataset s) (ds_shared (fs_system s)) = (r, d, sh, published) \<Longrightarrow>
    ffi_step L W s \<lparr>fs_dataset = d, fs_system = (fs_system s)\<lparr>ds_shared := sh\<rparr>,
      fs_published = fs_published s @ (case published of None \<Rightarrow> [] | Some t \<Rightarrow> [(fs_system s, t)])\<rparr>"
| destroys: "ffi_step L W s (s\<lparr>fs_dataset := ffi_destroy (fs_dataset s)\<rparr>)"

definition session_start :: "'d ffi_dataset \<Rightarrow> 't shared_write \<Rightarrow> ('p, 't, 'd) ffi_session" where
  "session_start d sh = \<lparr>fs_dataset = Some d, fs_system = \<lparr>ds_writers = [], ds_shared = sh\<rparr>, fs_published = []\<rparr>"

lemma ffi_open_Ok:
  assumes "ffi_open X L path schema config s3 opendal out = Ok (d, sh)"
  obtains p s c w W where "schema = Some (Ok s)" "config = Some c"
    "write_options_of (fe_display X) (se_fits (fe_storage X)) c s3 opendal = Ok w"
    "dataset_create (fe_storage X) L (Some p) s w = Ok (W, sh)" "d = \<lparr>fd_writer = Some W, fd_summary = None\<rparr>"
  using assms by (cases out) (auto simp: ffi_open_def and_then_Ok map_err_Ok split: option.splits)

text \<open>
  What a published transaction holds: the rows of the writers that were finished when the call
  found them, in the order they had finished.
\<close>

definition holds_finished_rows ::
  "('f \<Rightarrow> 'r list) \<Rightarrow> ('p record_batch \<Rightarrow> 'r list) \<Rightarrow> ('p, 'f, 'x, 'd) lance_env \<Rightarrow> 'd dataset_write \<Rightarrow>
   ('p, ('f, 'x) transaction) dataset_system \<times> ('f, 'x) transaction \<Rightarrow> bool" where
  "holds_finished_rows F B L W publication \<longleftrightarrow> (case publication of (sys, t) \<Rightarrow>
     (\<exists>order. finish_order L W sys order) \<and> (\<forall>order. finish_order L W sys order \<longrightarrow> holds_finished F B L W sys t order))"

text \<open>A handle that can still commit has published nothing; one that cannot has published at most once.\<close>

definition session_inv ::
  "('f \<Rightarrow> 'r list) \<Rightarrow> ('p record_batch \<Rightarrow> 'r list) \<Rightarrow> ('p, 'f, 'x, 'd) lance_env \<Rightarrow> 'd dataset_write \<Rightarrow>
   ('p, ('f, 'x) transaction, 'd) ffi_session \<Rightarrow> bool" where
  "session_inv F B L W s \<longleftrightarrow> insert_documented F B L
     \<and> length (fs_published s) \<le> 1 \<and> list_all (holds_finished_rows F B L W) (fs_published s)
     \<and> (case fs_dataset s of None \<Rightarrow> True | Some d \<Rightarrow> (case fd_writer d of
          Some W' \<Rightarrow> W' = W \<and> fd_summary d = None \<and> fs_published s = [] \<and> (system_step L W)\<^sup>*\<^sup>* created (fs_system s)
        | None \<Rightarrow> fd_summary d = None \<or> fs_published s \<noteq> []))"

lemma live_session:
  assumes "session_inv F B L W s" "fs_dataset s = Some d" "fd_writer d = Some W'"
  shows "W' = W" "fd_summary d = None" "fs_published s = []" "insert_documented F B L"
    "(system_step L W)\<^sup>*\<^sup>* created (fs_system s)"
  using assms by (simp_all add: session_inv_def)

lemma session_system:
  assumes "session_inv F B L W s" "system_step L W (fs_system s) sys"
  shows "session_inv F B L W (s\<lparr>fs_system := sys\<rparr>)"
  using assms by (auto simp: session_inv_def intro: rtranclp.rtrancl_into_rtrancl split: option.splits)

lemma finish_session:
  assumes "session_inv F B L W s" "fs_dataset s = Some d" "fd_writer d = Some W'"
    "ffi_finish L (fs_dataset s) (ds_shared (fs_system s)) = (r, d', sh, published)"
  obtains d1 where "d' = Some d1" "fd_writer d1 = None" "fd_summary d1 = None \<or> published \<noteq> None"
    "\<And>t. published = Some t \<Longrightarrow> holds_finished_rows F B L W (fs_system s, t)"
proof -
  note pre = live_session [OF assms(1-3)]
  obtain cr sh' where commit: "dataset_commit L W (ds_shared (fs_system s)) = (cr, sh', published)"
    using assms(2-4) pre(1) by (cases "dataset_commit L W (ds_shared (fs_system s))") (auto simp: ffi_finish_def split: result.splits)
  have "\<exists>d1. d' = Some d1 \<and> fd_writer d1 = None \<and> fd_summary d1 = (case cr of Ok summary \<Rightarrow> Some summary | Err _ \<Rightarrow> None)"
    using commit assms(2-4) pre(1,2) by (cases cr) (auto simp: ffi_finish_def)
  then obtain d1 where d: "d' = Some d1" "fd_writer d1 = None"
    "fd_summary d1 = (case cr of Ok summary \<Rightarrow> Some summary | Err _ \<Rightarrow> None)" by blast
  have order: "\<exists>order. finish_order L W (fs_system s) order" by (rule reachable_order [OF pre(5)])
  have "holds_finished_rows F B L W (fs_system s, t)" if "published = Some t" for t
    using order commit_finished(1) [OF pre(4) _ commit] that by (auto simp: holds_finished_rows_def)
  moreover have "published \<noteq> None" if "cr = Ok x" for x
    using order commit_finished(1) [OF pre(4) _ commit] that by (cases published) auto
  ultimately show thesis using d that [OF d(1,2)] by (cases cr) auto
qed

lemma session_step_inv:
  assumes "ffi_step L W s s'" "session_inv F B L W s"
  shows "session_inv F B L W s'"
  using assms
proof (cases rule: ffi_step.cases)
  case (opens_writer r sys)
  then have "sys = fs_system s \<or> system_step L W (fs_system s) sys"
    by (auto simp: ffi_writer_open_def intro: system_step.fragment_writer split: option.splits)
  with opens_writer assms(2) session_system show ?thesis by auto
next
  case (runs_writer i g sh)
  with assms(2) show ?thesis by (auto intro: session_system system_step.runs)
next
  case (finishes r d sh published)
  show ?thesis
  proof (cases "\<exists>d0 W'. fs_dataset s = Some d0 \<and> fd_writer d0 = Some W'")
    case True
    then obtain d0 W' where live: "fs_dataset s = Some d0" "fd_writer d0 = Some W'" by blast
    note pre = live_session [OF assms(2) live]
    obtain d1 where "d = Some d1" "fd_writer d1 = None" "fd_summary d1 = None \<or> published \<noteq> None"
      "\<And>t. published = Some t \<Longrightarrow> holds_finished_rows F B L W (fs_system s, t)"
      using finish_session [OF assms(2) live finishes(2)] by blast
    with finishes(1) pre(3,4) show ?thesis by (cases published) (simp_all add: session_inv_def)
  next
    case False
    with finishes(2) have "d = fs_dataset s" "sh = ds_shared (fs_system s)" "published = None"
      by (auto simp: ffi_finish_def split: option.splits)
    with finishes(1) assms(2) False show ?thesis by (auto simp: session_inv_def split: option.splits)
  qed
next
  case destroys
  with assms(2) show ?thesis by (simp add: session_inv_def ffi_destroy_def)
qed

interpretation session: step_invariant "ffi_step L W" "session_inv F B L W" for F B L W
  by unfold_locales (rule session_step_inv)

text \<open>
  C13: A handle that opens writes the imported schema with the decoded options, and whatever its
  callers do with it from then on, in any interleaving, at most one transaction is published; its
  rows are those of every batch accepted by a fragment writer of the handle that was finished
  when the publishing call of \<open>finish\<close> came, writer after writer in the order they had finished.
  Until a call of \<open>finish\<close> nothing is published and the metrics are zero; a summary, and so
  non-zero metrics, exist only when a transaction has been published.
\<close>

theorem dataset_handle_commits_once:
  assumes "insert_documented F B L" "ffi_open X L path schema config s3 opendal out = Ok (d, sh)" "fd_writer d = Some W"
    "(ffi_step L W)\<^sup>*\<^sup>* (session_start d sh) s"
  shows "schema = Some (Ok (dw_schema W))
    \<and> (\<exists>c. config = Some c \<and> write_options_of (fe_display X) (se_fits (fe_storage X)) c s3 opendal = Ok (dw_options W))
    \<and> length (fs_published s) \<le> 1 \<and> list_all (holds_finished_rows F B L W) (fs_published s)
    \<and> (case fs_dataset s of None \<Rightarrow> True | Some d \<Rightarrow> (case fd_writer d of
         Some _ \<Rightarrow> fs_published s = [] \<and> ffi_get_metrics (Some d) (Some m) = Some lance_write_metrics_default
       | None \<Rightarrow> fs_published s \<noteq> [] \<or> ffi_get_metrics (Some d) (Some m) = Some lance_write_metrics_default))"
proof -
  obtain p t c w where made: "schema = Some (Ok t)" "config = Some c"
    "write_options_of (fe_display X) (se_fits (fe_storage X)) c s3 opendal = Ok w"
    "dataset_create (fe_storage X) L (Some p) t w = Ok (W, sh)" "d = \<lparr>fd_writer = Some W, fd_summary = None\<rparr>"
    using ffi_open_Ok [OF assms(2)] assms(3) by (metis ffi_dataset.select_convs(1) option.inject)
  have W: "dw_schema W = t" "dw_options W = w" "sh = \<lparr>sw_rows_written = 0, sw_transactions = []\<rparr>"
    using created_write [OF made(4)] by blast+
  have "session_inv F B L W (session_start d sh)"
    using assms(1) made(5) W(3) by (simp add: session_inv_def session_start_def created_def)
  with session.inv_run [OF assms(4)] have "session_inv F B L W s" by blast
  with made(1-3) W(1,2) show ?thesis
    by (auto simp: session_inv_def ffi_get_metrics_def split: option.splits)
qed

text \<open>
  A dataset opened with the default configuration; two writers are opened, the second writes two
  rows and finishes, the first three, and the handle publishes them.
\<close>

lemma notes_opens: "ffi_open local_env lance_ref (Some ''out.lance'') (Some (Ok notes_schema)) (Some lance_write_default_config) None None True
    = Ok (\<lparr>fd_writer = Some notes_write, fd_summary = None\<rparr>, \<lparr>sw_rows_written = 0, sw_transactions = []\<rparr>)"
proof -
  have env: "fe_storage local_env = storage_ref []" "fe_display local_env = (\<lambda>_. [])" "fe_build_runtime local_env = Ok ()"
    "se_fits (storage_ref []) = (\<lambda>_. True)" by (simp_all add: local_env_def storage_ref_def)
  have path: "c_str (\<lambda>_. []) ''out.lance'' = Ok ''out.lance''" by code_simp
  have "write_options_of (\<lambda>_. []) (\<lambda>_. True) lance_write_default_config None None = Ok write_options_default"
    by (rule default_config_decodes) (simp_all add: default_config_sound)
  then show ?thesis by (simp add: ffi_open_def env path notes_created)
qed

lemma writer_opens:
  assumes "fs_dataset s = Some d" "fd_writer d = Some W'"
  shows "ffi_step L W s (s\<lparr>fs_system := (fs_system s)\<lparr>ds_writers := ds_writers (fs_system s) @ [spawn]\<rparr>\<rparr>)"
  by (rule ffi_step.opens_writer [of s "Ok ()"]) (simp add: ffi_writer_open_def assms)

lemma writer_runs:
  assumes "(fragment_step L W)\<^sup>*\<^sup>* (ds_writers (fs_system s) ! i, ds_shared (fs_system s)) (g, sh)" "i < length (ds_writers (fs_system s))"
  shows "(ffi_step L W)\<^sup>*\<^sup>* s (s\<lparr>fs_system := \<lparr>ds_writers = (ds_writers (fs_system s))[i := g], ds_shared = sh\<rparr>\<rparr>)"
  using assms(1)
proof (induction rule: rtranclp_induct2)
  case refl
  have "s\<lparr>fs_system := \<lparr>ds_writers = (ds_writers (fs_system s))[i := ds_writers (fs_system s) ! i], ds_shared = ds_shared (fs_system s)\<rparr>\<rparr> = s"
    by (cases s; cases "fs_system s") simp
  then show ?case by (simp only: rtranclp.rtrancl_refl)
next
  case (step g1 sh1 g2 sh2)
  let ?s1 = "s\<lparr>fs_system := \<lparr>ds_writers = (ds_writers (fs_system s))[i := g1], ds_shared = sh1\<rparr>\<rparr>"
  have "ffi_step L W ?s1 (s\<lparr>fs_system := \<lparr>ds_writers = (ds_writers (fs_system s))[i := g2], ds_shared = sh2\<rparr>\<rparr>)"
    using ffi_step.runs_writer [of i ?s1 L W g2 sh2] step.hyps(2) assms(2) by simp
  with step.IH show ?case by (rule rtranclp.rtrancl_into_rtrancl)
qed

lemma two_notes_session:
  "(ffi_step lance_ref notes_write)\<^sup>*\<^sup>*
     (session_start \<lparr>fd_writer = Some notes_write, fd_summary = None\<rparr> \<lparr>sw_rows_written = 0, sw_transactions = []\<rparr>)
     \<lparr>fs_dataset = Some \<lparr>fd_writer = Some notes_write, fd_summary = None\<rparr>, fs_system = two_notes, fs_published = []\<rparr>"
proof -
  let ?at = "\<lambda>ws sh. \<lparr>fs_dataset = Some \<lparr>fd_writer = Some notes_write, fd_summary = None\<rparr>,
    fs_system = \<lparr>ds_writers = ws, ds_shared = sh\<rparr>, fs_published = []\<rparr>
    :: (unit, (unit record_batch list, unit) transaction, unit) ffi_session"
  let ?sh = "\<lparr>sw_rows_written = 0, sw_transactions = []\<rparr> :: (unit record_batch list, unit) transaction shared_write"
  let ?sh1 = "\<lparr>sw_rows_written = 2, sw_transactions = [notes_transaction 2]\<rparr>"
  have "(ffi_step lance_ref notes_write)\<^sup>*\<^sup>* (?at [] ?sh) (?at [spawn] ?sh)"
    using writer_opens [of "?at [] ?sh" _ _ lance_ref notes_write] by auto
  also have "(ffi_step lance_ref notes_write)\<^sup>*\<^sup>* (?at [spawn] ?sh) (?at [spawn, spawn] ?sh)"
    using writer_opens [of "?at [spawn] ?sh" _ _ lance_ref notes_write] by auto
  also have "(ffi_step lance_ref notes_write)\<^sup>*\<^sup>* (?at [spawn, spawn] ?sh) (?at [spawn, notes_finished 2] ?sh1)"
    using writer_runs [of lance_ref notes_write "?at [spawn, spawn] ?sh" 1 "notes_finished 2" ?sh1] notes_life [of ?sh 2]
    by (simp add: add_transaction_def)
  also have "(ffi_step lance_ref notes_write)\<^sup>*\<^sup>* (?at [spawn, notes_finished 2] ?sh1)
      (?at [notes_finished 3, notes_finished 2] (ds_shared two_notes))"
    using writer_runs [of lance_ref notes_write "?at [spawn, notes_finished 2] ?sh1" 0 "notes_finished 3" "ds_shared two_notes"]
      notes_life [of ?sh1 3] by (simp add: two_notes_def add_transaction_def)
  finally show ?thesis by (simp add: session_start_def two_notes_def)
qed

theorem dataset_handle_commits_once_witness:
  "\<exists>s t. ffi_open local_env lance_ref (Some ''out.lance'') (Some (Ok notes_schema)) (Some lance_write_default_config) None None True
      = Ok (\<lparr>fd_writer = Some notes_write, fd_summary = None\<rparr>, \<lparr>sw_rows_written = 0, sw_transactions = []\<rparr>)
    \<and> (ffi_step lance_ref notes_write)\<^sup>*\<^sup>*
        (session_start \<lparr>fd_writer = Some notes_write, fd_summary = None\<rparr> \<lparr>sw_rows_written = 0, sw_transactions = []\<rparr>) s
    \<and> fs_published s = [(two_notes, t)] \<and> finish_order lance_ref notes_write two_notes [1, 0]
    \<and> concat (tx_fragments t) = stored_rows (\<lambda>b. [b]) lance_ref notes_write [note_batch 2]
        @ stored_rows (\<lambda>b. [b]) lance_ref notes_write [note_batch 3]"
proof -
  let ?live = "\<lparr>fs_dataset = Some \<lparr>fd_writer = Some notes_write, fd_summary = None\<rparr>, fs_system = two_notes, fs_published = []\<rparr>
    :: (unit, (unit record_batch list, unit) transaction, unit) ffi_session"
  obtain summary sh' t where out: "dataset_commit lance_ref notes_write (ds_shared two_notes) = (Ok summary, sh', Some t)"
    using two_notes_commit by blast
  then have "ffi_finish lance_ref (fs_dataset ?live) (ds_shared (fs_system ?live))
      = (Ok (), Some \<lparr>fd_writer = None, fd_summary = Some summary\<rparr>, sh', Some t)" by (simp add: ffi_finish_def)
  from ffi_step.finishes [OF this, of notes_write] obtain s where
    s: "ffi_step lance_ref notes_write ?live s" "fs_published s = [(two_notes, t)]" by auto
  note run = rtranclp.rtrancl_into_rtrancl [OF two_notes_session s(1)]
  have "list_all (holds_finished_rows id (\<lambda>b. [b]) lance_ref notes_write) (fs_published s)"
    using dataset_handle_commits_once [OF lance_ref_documented notes_opens _ run] by simp
  then have "holds_finished id (\<lambda>b. [b]) lance_ref notes_write two_notes t [1, 0]"
    using s(2) two_notes_order by (simp add: holds_finished_rows_def)
  then have "concat (tx_fragments t) = stored_rows (\<lambda>b. [b]) lance_ref notes_write [note_batch 2]
      @ stored_rows (\<lambda>b. [b]) lance_ref notes_write [note_batch 3]"
    by (simp add: holds_finished_def rows_of_writer_def two_notes_def)
  then show ?thesis
    by (intro exI [of _ s] exI [of _ t] conjI) (rule notes_opens, rule run, rule s(2), rule two_notes_order)
qed

end
