(* ===== verification/FfiSource.thy ===== *)
theory FfiSource
  imports WarcOpen AtifSource FfiDataset
begin

text \<open>
  \<open>rust/src/ffi.rs\<close>, the sources: a factory with a fixed schema that each scan reopens with the
  columns it names, and the calls that make one for each source. Opening a source with a
  projection is the argument \<open>mk\<close>, on the counters of the factory; a reader is a schema and its
  stream. The mutex around the bound reader makes taking it one step. A Hugging Face split that
  fails to open leaves the counters as they were: the bytes of the footers it had read by then
  are not counted in the model.
\<close>

type_synonym 's reader_result = "((schema \<times> 's) res \<times> read_metrics) option"
type_synonym 's make_reader = "nat list \<Rightarrow> read_metrics \<Rightarrow> 's reader_result"

record 's source_factory =
  sf_schema :: schema
  sf_metrics :: read_metrics
  sf_bound :: "(schema \<times> 's) option"

definition factory_new :: "schema \<Rightarrow> 's source_factory" where
  "factory_new s = \<lparr>sf_schema = s, sf_metrics = read_metrics_default, sf_bound = None\<rparr>"

text \<open>\<open>open_batch_reader\<close>: on the shared runtime, if it could be created.\<close>

definition open_batch_reader :: "ffi_env \<Rightarrow> 's make_reader \<Rightarrow> 's make_reader" where
  "open_batch_reader X open_source p m = (case source_runtime X of
     Err e \<Rightarrow> Some (Err e, m) | Ok _ \<Rightarrow> open_source p m)"

definition reads_every_column :: "schema \<Rightarrow> nat list \<Rightarrow> bool" where
  "reads_every_column s p \<longleftrightarrow> p = [] \<or> p = [0..<length (schema_fields s)]"

definition open_reader ::
  "'s make_reader \<Rightarrow> nat list \<Rightarrow> 's source_factory \<Rightarrow> ((schema \<times> 's) res \<times> 's source_factory) option" where
  "open_reader mk p F = (case (if reads_every_column (sf_schema F) p then sf_bound F else None) of
     Some reader \<Rightarrow> Some (Ok reader, F\<lparr>sf_bound := None\<rparr>)
   | None \<Rightarrow> map_option (\<lambda>(r, m). (r, F\<lparr>sf_metrics := m\<rparr>)) (mk p (sf_metrics F)))"

text \<open>\<open>bind\<close>: \<open>None\<close> is a panic of the source.\<close>

definition factory_bind :: "'s make_reader \<Rightarrow> 's source_factory \<Rightarrow> 's source_factory res option" where
  "factory_bind mk F = map_option (\<lambda>(r, F').
     map_ok (\<lambda>reader. F'\<lparr>sf_schema := fst reader, sf_bound := Some reader\<rparr>) r) (open_reader mk [] F)"

text \<open>\<open>Iterator::next\<close> of the reader; the error goes through arrow's as it is.\<close>

fun reader_next :: "'b res list \<Rightarrow> 'b res option \<times> 'b res list" where
  "reader_next [] = (None, [])"
| "reader_next (item # rest) = (Some item, rest)"

section \<open>The calls on a factory\<close>

definition source_index :: "arrow_api \<Rightarrow> schema \<Rightarrow> string \<Rightarrow> nat res" where
  "source_index A s name = map_err (\<lambda>_. error_message (''unknown source column: '' @ name)) (aa_index_of A s name)"

text \<open>\<open>lance_source_get_stream\<close> behind its null checks, and the whole call.\<close>

definition scan_columns ::
  "'s make_reader \<Rightarrow> arrow_api \<Rightarrow> (bytes \<Rightarrow> string) \<Rightarrow> c_string list option \<Rightarrow> usize \<Rightarrow> 's source_factory \<Rightarrow>
   ((schema \<times> 's) res \<times> 's source_factory) option" where
  "scan_columns mk A D columns n F =
     (case and_then (string_list D columns n) (try_map (source_index A (sf_schema F))) of
        Err e \<Rightarrow> Some (Err e, F)
      | Ok projection \<Rightarrow> open_reader mk projection F)"

definition ffi_get_stream ::
  "'s make_reader \<Rightarrow> arrow_api \<Rightarrow> (bytes \<Rightarrow> string) \<Rightarrow> c_string list option \<Rightarrow> usize \<Rightarrow> 's source_factory option \<Rightarrow> bool \<Rightarrow>
   ((schema \<times> 's) res \<times> 's source_factory option) option" where
  "ffi_get_stream mk A D columns n factory has_output = (case (factory, has_output) of
     (Some F, True) \<Rightarrow> map_option (\<lambda>(r, F'). (r, Some F')) (scan_columns mk A D columns n F)
   | _ \<Rightarrow> Some (Err (error_message ''null source stream argument''), factory))"

lemma ffi_get_stream_Some: "ffi_get_stream mk A D names n (Some F) True = Some (r, F')
    \<longleftrightarrow> (\<exists>F1. scan_columns mk A D names n F = Some (r, F1) \<and> F' = Some F1)"
  by (auto simp: ffi_get_stream_def)

text \<open>Null pointers of a call on a factory: the schema (exported by \<open>ex\<close>) and the metrics.\<close>

definition ffi_get_schema :: "(schema \<Rightarrow> ('c, string) result) \<Rightarrow> 's source_factory option \<Rightarrow> 'c option \<Rightarrow> unit res \<times> 'c option" where
  "ffi_get_schema ex factory out = (case (factory, out) of
     (Some F, Some _) \<Rightarrow> (case map_err arrow_error (ex (sf_schema F)) of
         Ok c \<Rightarrow> (Ok (), Some c) | Err e \<Rightarrow> (Err e, out))
   | _ \<Rightarrow> (Err (error_message ''null source schema argument''), out))"

record lance_read_metrics =
  lr_bytes_read :: u64
  lr_total_bytes :: u64

definition ffi_source_metrics :: "'s source_factory option \<Rightarrow> lance_read_metrics option \<Rightarrow> lance_read_metrics option" where
  "ffi_source_metrics factory out = (case (factory, out) of
     (Some F, Some _) \<Rightarrow> Some (let s = snapshot (sf_metrics F)
        in \<lparr>lr_bytes_read = snap_bytes_read s, lr_total_bytes = snap_total_bytes s\<rparr>)
   | _ \<Rightarrow> out)"

section \<open>Hugging Face\<close>

definition huggingface_factory_source ::
  "string \<Rightarrow> string \<Rightarrow> string \<Rightarrow> string option \<Rightarrow> opendal_config \<Rightarrow> i32 \<Rightarrow> usize \<Rightarrow> usize \<Rightarrow> nat list \<Rightarrow> huggingface_source" where
  "huggingface_factory_source dataset config split token opendal in_order parallelism read_ahead projection =
     (let h = hf_with_opendal_config opendal (hf_with_read_ahead_bytes read_ahead (hf_with_max_read_parallelism parallelism
          (hf_with_projection projection (hf_with_preserve_insertion_order (in_order \<noteq> 0)
          (hf_with_split split (hf_with_config config (huggingface_source_new dataset)))))))
      in case token of None \<Rightarrow> h | Some t \<Rightarrow> hf_with_token t h)"

definition huggingface_make ::
  "ffi_env \<Rightarrow> arrow_api \<Rightarrow> 'b parquet_io \<Rightarrow> (nat list \<Rightarrow> huggingface_source) \<Rightarrow> 'b res list make_reader" where
  "huggingface_make X A IO source = open_batch_reader X (\<lambda>p m.
     map_option (\<lambda>r. case r of Err e \<Rightarrow> (Err e, m) | Ok (s, batches, m') \<Rightarrow> (Ok (s, batches), m'))
       (huggingface_source_open (fe_storage X) A IO (fe_list X) (source p) m))"

definition ffi_huggingface_open ::
  "ffi_env \<Rightarrow> arrow_api \<Rightarrow> 'b parquet_io \<Rightarrow> c_string \<Rightarrow> c_string \<Rightarrow> c_string \<Rightarrow> c_string \<Rightarrow> opendal_config option \<Rightarrow> i32 \<Rightarrow> u64 \<Rightarrow> u64 \<Rightarrow>
   bool \<Rightarrow> ((nat list \<Rightarrow> huggingface_source) \<times> 'b res list source_factory) res option" where
  "ffi_huggingface_open X A IO dataset config split token opendal in_order parallelism read_ahead has_output =
     (case (dataset, config, split, has_output) of
        (Some d, Some c, Some s, True) \<Rightarrow>
          (case and_then (c_str (fe_display X) d) (\<lambda>d.
                and_then (c_str (fe_display X) c) (\<lambda>c.
                and_then (c_str (fe_display X) s) (\<lambda>s.
                and_then (optional_string (fe_display X) token) (\<lambda>t.
                map_ok (\<lambda>policy. huggingface_factory_source d c s t policy in_order parallelism read_ahead)
                  (parse_opendal_config (se_fits (fe_storage X)) opendal))))) of
             Err e \<Rightarrow> Some (Err e)
           | Ok source \<Rightarrow> map_option (map_ok (Pair source))
               (factory_bind (huggingface_make X A IO source) (factory_new \<lparr>schema_fields = [], schema_metadata = []\<rparr>)))
      | _ \<Rightarrow> Some (Err (error_message ''null Hugging Face reader argument'')))"

section \<open>WARC\<close>

definition warc_factory_source ::
  "string \<Rightarrow> string option \<Rightarrow> s3_config option \<Rightarrow> opendal_config \<Rightarrow> usize \<Rightarrow> nat list \<Rightarrow> warc_source" where
  "warc_factory_source path index s3 opendal parallelism projection =
     (let w = with_opendal_config opendal (with_max_read_parallelism parallelism (with_projection projection (warc_source_new path)));
          w1 = (case index of None \<Rightarrow> w | Some i \<Rightarrow> with_index_path i w)
      in case s3 of None \<Rightarrow> w1 | Some c \<Rightarrow> with_s3_config c w1)"

definition warc_make ::
  "ffi_env \<Rightarrow> 'j warc_io \<Rightarrow> (usize \<Rightarrow> warc_item list list \<Rightarrow> warc_item list) \<Rightarrow> (nat list \<Rightarrow> warc_source) \<Rightarrow> warc_item list make_reader" where
  "warc_make X IO flatten source = open_batch_reader X (\<lambda>p m.
     map_option (\<lambda>(r, m'). (map_ok (\<lambda>(fs, items). (\<lparr>schema_fields = fs, schema_metadata = []\<rparr>, items)) r, m'))
       (warc_source_open (fe_storage X) IO flatten (source p) m))"

definition ffi_warc_open ::
  "ffi_env \<Rightarrow> c_string \<Rightarrow> c_string \<Rightarrow> lance_s3_config option \<Rightarrow> opendal_config option \<Rightarrow> u64 \<Rightarrow> bool \<Rightarrow>
   ((nat list \<Rightarrow> warc_source) \<times> warc_item list source_factory) res" where
  "ffi_warc_open X path index s3 opendal parallelism has_output = (case (path, has_output) of
     (Some p, True) \<Rightarrow>
       and_then (c_str (fe_display X) p) (\<lambda>path.
       and_then (optional_string (fe_display X) index) (\<lambda>index.
       if parallelism = 0 then Err (error_message ''max_read_parallelism must be positive'')
       else and_then (s3_config_of (fe_display X) s3) (\<lambda>s3.
       and_then (parse_opendal_config (se_fits (fe_storage X)) opendal) (\<lambda>policy.
       Ok (warc_factory_source path index s3 policy parallelism, factory_new warc_schema)))))
   | _ \<Rightarrow> Err (error_message ''null WARC reader argument''))"

section \<open>ATIF\<close>

definition atif_factory_source ::
  "string \<Rightarrow> string option \<Rightarrow> s3_config option \<Rightarrow> opendal_config \<Rightarrow> nat list \<Rightarrow> atif_source" where
  "atif_factory_source path fmt s3 opendal projection =
     (let a = atif_with_opendal_config opendal (atif_with_projection projection (atif_source_new path));
          a1 = (case fmt of None \<Rightarrow> a | Some f \<Rightarrow> atif_with_format f a)
      in case s3 of None \<Rightarrow> a1 | Some c \<Rightarrow> atif_with_s3_config c a1)"

definition atif_make ::
  "ffi_env \<Rightarrow> url_api \<Rightarrow> arrow_api \<Rightarrow> 'p atif_io \<Rightarrow> (nat list \<Rightarrow> atif_source) \<Rightarrow> 'p batch res list make_reader" where
  "atif_make X U A IO source = open_batch_reader X (\<lambda>p. atif_source_open (fe_storage X) U A IO (source p))"

definition ffi_atif_open ::
  "ffi_env \<Rightarrow> 'p atif_io \<Rightarrow> c_string \<Rightarrow> c_string \<Rightarrow> lance_s3_config option \<Rightarrow> opendal_config option \<Rightarrow> bool \<Rightarrow>
   ((nat list \<Rightarrow> atif_source) \<times> 'p batch res list source_factory) res" where
  "ffi_atif_open X IO path fmt s3 opendal has_output = (case (path, has_output) of
     (Some p, True) \<Rightarrow>
       and_then (c_str (fe_display X) p) (\<lambda>path.
       and_then (optional_string (fe_display X) fmt) (\<lambda>fmt.
       and_then (s3_config_of (fe_display X) s3) (\<lambda>s3.
       and_then (parse_opendal_config (se_fits (fe_storage X)) opendal) (\<lambda>policy.
       Ok (atif_factory_source path fmt s3 policy, factory_new (atif_schema IO))))))
   | _ \<Rightarrow> Err (error_message ''null ATIF reader argument''))"

section \<open>Sources that scans reopen\<close>

text \<open>
  The contract of a source behind a factory: opened with the columns \<open>p\<close> it has those columns
  of its full schema, in that order, and all of them when \<open>p\<close> is empty. Its clients: a scan that
  names columns gets exactly those, whichever scans came before and whether or not the reader
  opened at bind time is reused.
\<close>

definition selected_fields :: "schema \<Rightarrow> nat list \<Rightarrow> field list" where
  "selected_fields full p = (if p = [] then schema_fields full else map (nth (schema_fields full)) p)"

definition factory_for :: "arrow_api \<Rightarrow> schema \<Rightarrow> 's source_factory \<Rightarrow> bool" where
  "factory_for A full F \<longleftrightarrow> arrow_ok A \<and> schema_fields (sf_schema F) = schema_fields full
     \<and> (case sf_bound F of None \<Rightarrow> True | Some reader \<Rightarrow> schema_fields (fst reader) = schema_fields full)"

definition factory_step :: "'s make_reader \<Rightarrow> arrow_api \<Rightarrow> (bytes \<Rightarrow> string) \<Rightarrow> 's source_factory \<Rightarrow> 's source_factory \<Rightarrow> bool" where
  "factory_step mk A D F F' \<longleftrightarrow> (\<exists>columns n r. scan_columns mk A D columns n F = Some (r, F'))"

lemma selected_identity: "selected_fields full [0..<length (schema_fields full)] = schema_fields full"
  by (simp add: selected_fields_def map_nth)

locale scan_source =
  fixes mk :: "'s make_reader"
    and A :: arrow_api
    and full :: schema
  assumes columns: "arrow_ok A \<Longrightarrow> mk p m = Some (Ok (s, st), m') \<Longrightarrow> schema_fields s = selected_fields full p"
begin

lemma open_reader_columns:
  assumes "factory_for A full F" "open_reader mk p F = Some (r, F')"
  shows "factory_for A full F' \<and> (case r of Ok reader \<Rightarrow> schema_fields (fst reader) = selected_fields full p | Err _ \<Rightarrow> True)"
proof (cases "if reads_every_column (sf_schema F) p then sf_bound F else None")
  case (Some reader)
  then have bound: "sf_bound F = Some reader" "reads_every_column (sf_schema F) p" by (auto split: if_splits)
  have "selected_fields full p = schema_fields full"
    using bound(2) assms(1) selected_identity [of full] by (auto simp: reads_every_column_def factory_for_def selected_fields_def)
  with Some bound(1) assms show ?thesis by (auto simp: open_reader_def factory_for_def)
next
  case None
  with assms(2) obtain m' where "mk p (sf_metrics F) = Some (r, m')" "F' = F\<lparr>sf_metrics := m'\<rparr>"
    by (auto simp: open_reader_def)
  with assms(1) columns show ?thesis by (auto simp: factory_for_def split: result.splits)
qed

lemma get_stream_columns:
  assumes "factory_for A full F" "scan_columns mk A D names n F = Some (r, F')"
  shows "factory_for A full F' \<and> (case r of Err _ \<Rightarrow> True
    | Ok reader \<Rightarrow> \<exists>ns. string_list D names n = Ok ns
        \<and> (if ns = [] then schema_fields (fst reader) = schema_fields full
           else map field_name (schema_fields (fst reader)) = ns \<and> set (schema_fields (fst reader)) \<subseteq> set (schema_fields full)))"
proof (cases "and_then (string_list D names n) (try_map (source_index A (sf_schema F)))")
  case (Err e)
  with assms show ?thesis by (auto simp: scan_columns_def)
next
  case (Ok p)
  then obtain ns where ns: "string_list D names n = Ok ns" "try_map (source_index A (sf_schema F)) ns = Ok p"
    by (auto simp: and_then_Ok)
  from Ok assms(2) have opened: "open_reader mk p F = Some (r, F')" by (simp add: scan_columns_def)
  note reader = open_reader_columns [OF assms(1) opened]
  have same: "schema_fields (sf_schema F) = schema_fields full" "arrow_ok A" using assms(1) by (simp_all add: factory_for_def)
  have at: "p ! i < length (schema_fields full) \<and> field_name (schema_fields full ! (p ! i)) = ns ! i" if "i < length ns" for i
  proof -
    have "aa_index_of A (sf_schema F) (ns ! i) = Ok (p ! i)"
      using try_map_nth [OF ns(2) that] by (simp add: source_index_def map_err_Ok)
    from index_of_Ok [OF same(2) this] show ?thesis unfolding same(1) .
  qed
  have len: "length p = length ns" using try_map_length [OF ns(2)] .
  have named: "map field_name (map (nth (schema_fields full)) p) = ns"
    by (rule nth_equalityI) (simp_all add: len at)
  have "\<forall>i\<in>set p. i < length (schema_fields full)" using at len by (metis in_set_conv_nth)
  then have "set (map (nth (schema_fields full)) p) \<subseteq> set (schema_fields full)" by auto
  with named have "map field_name (selected_fields full p) = ns \<and> set (selected_fields full p) \<subseteq> set (schema_fields full)" if "ns \<noteq> []"
    using that len by (auto simp: selected_fields_def)
  moreover have "selected_fields full p = schema_fields full" if "ns = []" using that len by (simp add: selected_fields_def)
  ultimately show ?thesis using reader ns(1) by (cases r) auto
qed

end

sublocale scan_source \<subseteq> scans: step_invariant "factory_step mk A D" "factory_for A full" for D
  by unfold_locales (auto simp: factory_step_def dest: get_stream_columns)

section \<open>The three sources\<close>

lemma open_batch_reader_Ok: "open_batch_reader X mk p m = Some (Ok reader, m') \<Longrightarrow> mk p m = Some (Ok reader, m')"
  by (auto simp: open_batch_reader_def split: result.splits)

lemma requested_selected: "map (nth (schema_fields warc_schema)) (requested_columns (Some p)) = selected_fields warc_schema p"
  by (simp add: requested_columns_def selected_fields_def) (metis length_warc_schema map_nth)

lemma warc_open_fields:
  assumes "warc_source_open E IO flatten s m = Some (Ok (fs, items), m')"
  shows "fs = map (nth (schema_fields warc_schema)) (requested_columns (ws_projection s))"
proof -
  have "\<exists>p. projected_schema (ws_projection s) = Ok (p, fs)"
    using assms by (auto simp: warc_source_open_def and_then_Ok map_ok_Ok split: if_splits result.splits option.splits)
  then show ?thesis by (auto simp: projected_schema_Ok)
qed

interpretation warc: scan_source "warc_make X IO flatten (warc_factory_source path index s3 opendal parallelism)" A warc_schema
  for X IO flatten path index s3 opendal parallelism A
proof unfold_locales
  fix p m s st m'
  assume "warc_make X IO flatten (warc_factory_source path index s3 opendal parallelism) p m = Some (Ok (s, st), m')"
  then obtain fs where fs: "warc_source_open (fe_storage X) IO flatten (warc_factory_source path index s3 opendal parallelism p) m = Some (Ok (fs, st), m')"
    "s = \<lparr>schema_fields = fs, schema_metadata = []\<rparr>"
    unfolding warc_make_def by (auto dest!: open_batch_reader_Ok simp: map_ok_Ok)
  have "ws_projection (warc_factory_source path index s3 opendal parallelism p) = Some p"
    by (cases index; cases s3) (simp_all add: warc_factory_source_def with_opendal_config_def with_max_read_parallelism_def
        with_projection_def with_index_path_def with_s3_config_def Let_def)
  with warc_open_fields [OF fs(1)] fs(2) show "schema_fields s = selected_fields warc_schema p"
    by (simp add: requested_selected)
qed

interpretation atif: scan_source "atif_make X U A IO (atif_factory_source path fmt s3 opendal)" A "atif_schema IO"
  for X U A IO path fmt s3 opendal
proof unfold_locales
  fix p m s st m'
  assume A: "arrow_ok A" and run: "atif_make X U A IO (atif_factory_source path fmt s3 opendal) p m = Some (Ok (s, st), m')"
  let ?a = "atif_factory_source path fmt s3 opendal p"
  have "atif_source_open (fe_storage X) U A IO ?a m = Some (Ok (s, st), m')"
    using run unfolding atif_make_def by (auto dest!: open_batch_reader_Ok)
  then have opened: "case atif_projection ?a of Some p \<Rightarrow> aa_project A (atif_schema IO) p = Ok s | None \<Rightarrow> s = atif_schema IO"
    by (rule atif_open_cases)
  have "atif_projection ?a = (if p = [] then None else Some p)"
    by (cases p; cases fmt; cases s3) (simp_all add: atif_projection_def atif_factory_source_def atif_with_opendal_config_def
        atif_with_projection_def atif_with_format_def atif_with_s3_config_def Let_def)
  with opened project_Ok [OF A] show "schema_fields s = selected_fields (atif_schema IO) p"
    by (auto simp: selected_fields_def split: if_splits)
qed

text \<open>The full schema of a Hugging Face source is the one it opens with.\<close>

definition huggingface_schema :: "ffi_env \<Rightarrow> arrow_api \<Rightarrow> 'b parquet_io \<Rightarrow> (nat list \<Rightarrow> huggingface_source) \<Rightarrow> schema" where
  "huggingface_schema X A IO source =
     (case huggingface_source_open (fe_storage X) A IO (fe_list X) (source []) read_metrics_default of
        Some (Ok (s, _, _)) \<Rightarrow> s | _ \<Rightarrow> \<lparr>schema_fields = [], schema_metadata = []\<rparr>)"

lemma load_metadata_metrics:
  assumes "load_parquet_metadata IO op paths m = Ok (s, fls, m1)"
  shows "\<exists>m2. load_parquet_metadata IO op paths m' = Ok (s, fls, m2)"
  using assms by (auto simp: load_parquet_metadata_def and_then_Ok Let_def split: list.splits)

lemma open_parquet_every_column:
  assumes "arrow_ok A" "open_parquet_paths A IO op paths n in_order k ahead (Some p) m = Some (Ok (s, batches, m1))"
  shows "\<exists>s0 batches' m2. open_parquet_paths A IO op paths n in_order k ahead (Some []) m' = Some (Ok (s0, batches', m2))
    \<and> schema_fields s = selected_fields s0 p"
proof -
  let ?projection = "column_projection_new p"
  have pos: "n \<noteq> 0" "k \<noteq> 0" using assms(2) by (auto simp: open_parquet_paths_def split: if_splits)
  then obtain s0 fls m3 where load: "load_parquet_metadata IO op paths m = Ok (s0, fls, m3)" "project_schema A ?projection s0 = Ok s"
    using assms(2) by (auto simp: open_parquet_paths_def Let_def split: result.splits option.splits)
  obtain m4 where again: "load_parquet_metadata IO op paths m' = Ok (s0, fls, m4)"
    using load_metadata_metrics [OF load(1)] by blast
  have "those (map (\<lambda>file. map_option (Pair file) (file_mask IO None (fm_metadata file))) fls) = Some (map (\<lambda>file. (file, None)) fls)"
    by (induction fls) (simp_all add: file_mask_def)
  then have "\<exists>batches' m2. open_parquet_paths A IO op paths n in_order k ahead (Some []) m' = Some (Ok (s0, batches', m2))"
    using pos again by (simp add: open_parquet_paths_def column_projection_new_def project_schema_def Let_def)
  moreover have "schema_fields s = selected_fields s0 p"
    using project_schema_Ok [OF assms(1), of "Some p" s0 s] load(2)
    by (cases p) (auto simp: selected_fields_def)
  ultimately show ?thesis by blast
qed

lemma huggingface_every_column:
  assumes "arrow_ok A" "hs_projection h = Some p"
    "huggingface_source_open S A IO list h m = Some (Ok (s, batches, m1))"
  shows "\<exists>s0 batches' m2. huggingface_source_open S A IO list (hf_with_projection [] h) m' = Some (Ok (s0, batches', m2))
    \<and> schema_fields s = selected_fields s0 p"
proof -
  obtain opts op paths where plan: "and_then (huggingface_validate h) (\<lambda>_.
      and_then (opendal_config_validate (se_fits S) (hs_opendal_config h)) (\<lambda>_.
      and_then (source_read_options_validate (hs_read_options h)) (\<lambda>read_options.
      and_then (huggingface_operator S (hs_dataset h) PARQUET_REVISION (hs_token h) (hs_opendal_config h)) (\<lambda>op.
      map_ok (\<lambda>paths. (read_options, op, paths))
        (context_of (huggingface_context h) (parquet_files list op h) (\<lambda>e. e)))))) = Ok (opts, op, paths)"
    "open_parquet_paths A IO op paths HF_DEFAULT_BATCH_SIZE (hs_preserve_insertion_order h)
       (max_read_parallelism opts) (hs_read_ahead_bytes h) (Some p) m = Some (Ok (s, batches, m1))"
    using assms(2,3) by (auto simp: huggingface_source_open_def context_of_Ok split: result.splits prod.splits)
  from open_parquet_every_column [OF assms(1) plan(2)] obtain s0 batches' m2 where
    every: "open_parquet_paths A IO op paths HF_DEFAULT_BATCH_SIZE (hs_preserve_insertion_order h)
       (max_read_parallelism opts) (hs_read_ahead_bytes h) (Some []) m' = Some (Ok (s0, batches', m2))"
    "schema_fields s = selected_fields s0 p" by blast
  have sel: "hs_projection (hf_with_projection [] h) = Some []" "huggingface_validate (hf_with_projection [] h) = huggingface_validate h"
    "huggingface_context (hf_with_projection [] h) = huggingface_context h"
    "parquet_files list op (hf_with_projection [] h) = parquet_files list op h" for op
    by (simp_all add: hf_with_projection_def huggingface_validate_def huggingface_context_def parquet_files_def split_directories_def)
  have "huggingface_source_open S A IO list (hf_with_projection [] h) m' = Some (Ok (s0, batches', m2))"
    using plan(1) every(1) unfolding huggingface_source_open_def sel
    by (simp add: hf_with_projection_def context_of_def)
  with every(2) show ?thesis by blast
qed

interpretation huggingface: scan_source
  "huggingface_make X A IO (huggingface_factory_source dataset config split token opendal in_order parallelism read_ahead)" A
  "huggingface_schema X A IO (huggingface_factory_source dataset config split token opendal in_order parallelism read_ahead)"
  for X A IO dataset config split token opendal in_order parallelism read_ahead
proof unfold_locales
  fix p m s st m'
  let ?source = "huggingface_factory_source dataset config split token opendal in_order parallelism read_ahead"
  assume A: "arrow_ok A" and run: "huggingface_make X A IO ?source p m = Some (Ok (s, st), m')"
  from run obtain m1 where opened: "huggingface_source_open (fe_storage X) A IO (fe_list X) (?source p) m = Some (Ok (s, st, m1))"
    unfolding huggingface_make_def by (auto dest!: open_batch_reader_Ok split: result.splits)
  have at: "hs_projection (?source p) = Some p" "hf_with_projection [] (?source p) = ?source []"
    by (cases token; simp add: huggingface_factory_source_def hf_with_opendal_config_def hf_with_read_ahead_bytes_def
        hf_with_max_read_parallelism_def hf_with_projection_def hf_with_preserve_insertion_order_def hf_with_split_def
        hf_with_config_def hf_with_token_def huggingface_source_new_def Let_def)+
  from huggingface_every_column [OF A at(1) opened, of read_metrics_default, unfolded at(2)]
  obtain s0 batches m2 where "huggingface_source_open (fe_storage X) A IO (fe_list X) (?source []) read_metrics_default
      = Some (Ok (s0, batches, m2))" "schema_fields s = selected_fields s0 p" by blast
  then show "schema_fields s = selected_fields (huggingface_schema X A IO ?source) p"
    by (simp add: huggingface_schema_def)
qed

section \<open>Scans by column name\<close>

lemma factory_new_for: "arrow_ok A \<Longrightarrow> factory_for A s (factory_new s)"
  by (simp add: factory_for_def factory_new_def)

text \<open>What the stream of a scan must be for the names it was asked for.\<close>

definition answers :: "schema \<Rightarrow> string list res \<Rightarrow> (schema \<times> 's) res \<Rightarrow> bool" where
  "answers full names r \<longleftrightarrow> (case r of Err _ \<Rightarrow> True
    | Ok reader \<Rightarrow> (case names of Err _ \<Rightarrow> False | Ok ns \<Rightarrow>
        if ns = [] then schema_fields (fst reader) = schema_fields full
        else map field_name (schema_fields (fst reader)) = ns \<and> set (schema_fields (fst reader)) \<subseteq> set (schema_fields full)))"

lemma answers_fields: "schema_fields s = schema_fields s' \<Longrightarrow> answers s names r = answers s' names r"
  by (simp add: answers_def split: result.split)

context scan_source
begin

lemma scans_answer:
  assumes "factory_for A full F0" "(factory_step mk A D)\<^sup>*\<^sup>* F0 F" "scan_columns mk A D names n F = Some (r, F')"
  shows "answers full (string_list D names n) r"
  using get_stream_columns [OF scans.inv_run [OF assms(2,1)] assms(3)]
  by (auto simp: answers_def split: result.splits)

lemma bind_ok:
  assumes "arrow_ok A" "factory_bind mk (factory_new s) = Some (Ok F0)"
  shows "factory_for A full F0"
proof -
  have "open_reader mk [] (factory_new s) = map_option (\<lambda>(r, m). (r, (factory_new s)\<lparr>sf_metrics := m\<rparr>)) (mk [] read_metrics_default)"
    by (simp add: open_reader_def factory_new_def reads_every_column_def)
  then obtain reader m' where reader: "mk [] read_metrics_default = Some (Ok reader, m')" "sf_schema F0 = fst reader" "sf_bound F0 = Some reader"
    using assms(2) by (auto simp: factory_bind_def map_ok_Ok)
  obtain s0 st where "reader = (s0, st)" by fastforce
  with columns [OF assms(1)] reader show ?thesis
    using assms(1) by (auto simp: factory_for_def selected_fields_def)
qed

end

lemma warc_scans_by_name:
  assumes "arrow_ok A" "ffi_warc_open X path index s3 opendal parallelism True = Ok (source, F0)"
    "(factory_step (warc_make X IO flatten source) A D)\<^sup>*\<^sup>* F0 F"
    "ffi_get_stream (warc_make X IO flatten source) A D names n (Some F) True = Some (r, F')"
  shows "answers warc_schema (string_list D names n) r"
proof -
  obtain p i c policy where made: "source = warc_factory_source p i c policy parallelism" "F0 = factory_new warc_schema"
    using assms(2) by (auto simp: ffi_warc_open_def and_then_Ok split: option.splits if_splits)
  show ?thesis
    using assms(4) warc.scans_answer [OF factory_new_for [OF assms(1)] assms(3) [unfolded made]]
    by (auto simp: made ffi_get_stream_Some)
qed

lemma atif_scans_by_name:
  assumes "arrow_ok A" "ffi_atif_open X IO path fmt s3 opendal True = Ok (source, F0)"
    "(factory_step (atif_make X U A IO source) A D)\<^sup>*\<^sup>* F0 F"
    "ffi_get_stream (atif_make X U A IO source) A D names n (Some F) True = Some (r, F')"
  shows "answers (atif_schema IO) (string_list D names n) r"
proof -
  obtain p f c policy where made: "source = atif_factory_source p f c policy" "F0 = factory_new (atif_schema IO)"
    using assms(2) by (auto simp: ffi_atif_open_def and_then_Ok split: option.splits)
  show ?thesis
    using assms(4) atif.scans_answer [OF factory_new_for [OF assms(1)] assms(3) [unfolded made]]
    by (auto simp: made ffi_get_stream_Some)
qed

text \<open>
  C12: After any sequence of scans of one Hugging Face handle, a scan that opens has exactly the
  columns it names, in that order, with the fields of the handle's schema, and every column of
  it when it names none, whether the reader opened to learn the schema is reused or the split
  is opened again; a name the schema does not have opens nothing.
\<close>

theorem huggingface_scans_by_name:
  assumes "arrow_ok A"
    "ffi_huggingface_open X A IO dataset config split token opendal in_order parallelism read_ahead True = Some (Ok (source, F0))"
    "(factory_step (huggingface_make X A IO source) A D)\<^sup>*\<^sup>* F0 F"
    "ffi_get_stream (huggingface_make X A IO source) A D names n (Some F) True = Some (r, F')"
  shows "answers (sf_schema F0) (string_list D names n) r"
proof -
  obtain d c s t policy where made: "source = huggingface_factory_source d c s t policy in_order parallelism read_ahead"
    "factory_bind (huggingface_make X A IO source) (factory_new \<lparr>schema_fields = [], schema_metadata = []\<rparr>) = Some (Ok F0)"
    using assms(2) by (auto simp: ffi_huggingface_open_def and_then_Ok map_ok_Ok split: option.splits result.splits)
  note for_F0 = huggingface.bind_ok [OF assms(1) made(2) [unfolded made(1)]]
  obtain F1 where "scan_columns (huggingface_make X A IO source) A D names n F = Some (r, F1)"
    using assms(4) by (auto simp: ffi_get_stream_Some)
  from huggingface.scans_answer [OF for_F0 assms(3) [unfolded made(1)] this [unfolded made(1)]] answers_fields show ?thesis
    using for_F0 unfolding factory_for_def by metis
qed

text \<open>The split of the earlier example, scanned once over every column.\<close>

abbreviation hub_env :: ffi_env where
  "hub_env \<equiv> local_env\<lparr>fe_list := hub_listing\<rparr>"

lemma hub_source:
  "huggingface_factory_source ''org/set'' ''default'' ''train'' None opendal_config_default 1 8 DEFAULT_READ_AHEAD_BYTES []
    = (huggingface_source_new ''org/set'')\<lparr>hs_projection := Some []\<rparr>"
  by (simp add: huggingface_factory_source_def hf_with_opendal_config_def hf_with_read_ahead_bytes_def
      hf_with_max_read_parallelism_def hf_with_projection_def hf_with_preserve_insertion_order_def hf_with_split_def
      hf_with_config_def huggingface_source_new_def source_read_options_default_def DEFAULT_MAX_READ_PARALLELISM_def Let_def)

lemma open_no_columns: "huggingface_source_open S A IO list (h\<lparr>hs_projection := Some []\<rparr>) m
    = huggingface_source_open S A IO list (h\<lparr>hs_projection := None\<rparr>) m"
proof -
  have paths: "open_parquet_paths A IO op paths n in_order k ahead (Some []) m = open_parquet_paths A IO op paths n in_order k ahead None m"
    for op paths n in_order k ahead by (simp add: open_parquet_paths_def column_projection_new_def)
  have sel: "hs_projection (h\<lparr>hs_projection := x\<rparr>) = x" "huggingface_validate (h\<lparr>hs_projection := x\<rparr>) = huggingface_validate h"
    "huggingface_context (h\<lparr>hs_projection := x\<rparr>) = huggingface_context h"
    "parquet_files list op (h\<lparr>hs_projection := x\<rparr>) = parquet_files list op h"
    "hs_opendal_config (h\<lparr>hs_projection := x\<rparr>) = hs_opendal_config h" "hs_read_options (h\<lparr>hs_projection := x\<rparr>) = hs_read_options h"
    "hs_dataset (h\<lparr>hs_projection := x\<rparr>) = hs_dataset h" "hs_token (h\<lparr>hs_projection := x\<rparr>) = hs_token h"
    "hs_preserve_insertion_order (h\<lparr>hs_projection := x\<rparr>) = hs_preserve_insertion_order h"
    "hs_read_ahead_bytes (h\<lparr>hs_projection := x\<rparr>) = hs_read_ahead_bytes h" for x op
    by (simp_all add: huggingface_validate_def huggingface_context_def parquet_files_def split_directories_def)
  show ?thesis unfolding huggingface_source_open_def sel paths ..
qed

lemma hub_handle_opens:
  "\<exists>F0 s batches. ffi_huggingface_open hub_env arrow_ref parquet_ref (Some ''org/set'') (Some ''default'') (Some ''train'')
      None None 1 8 DEFAULT_READ_AHEAD_BYTES True
      = Some (Ok (huggingface_factory_source ''org/set'' ''default'' ''train'' None opendal_config_default 1 8 DEFAULT_READ_AHEAD_BYTES, F0))
    \<and> sf_schema F0 = s \<and> sf_bound F0 = Some (s, batches)"
proof -
  let ?source = "huggingface_factory_source ''org/set'' ''default'' ''train'' None opendal_config_default 1 8 DEFAULT_READ_AHEAD_BYTES"
  let ?mk = "huggingface_make hub_env arrow_ref parquet_ref ?source"
  have env: "fe_storage hub_env = storage_ref []" "fe_list hub_env = hub_listing" "source_runtime hub_env = Ok ()" "fe_display hub_env = (\<lambda>_. [])"
    by (simp_all add: local_env_def source_runtime_def SOURCE_RUNTIME_def)
  have same: "(huggingface_source_new ''org/set'')\<lparr>hs_projection := None\<rparr> = huggingface_source_new ''org/set''"
    by (simp add: huggingface_source_new_def)
  obtain s batches m' where "huggingface_source_open (storage_ref []) arrow_ref parquet_ref hub_listing
      (huggingface_source_new ''org/set'') read_metrics_default = Some (Ok (s, batches, m'))" using hub_opens by blast
  then have made: "?mk [] read_metrics_default = Some (Ok (s, batches), m')"
    by (simp add: huggingface_make_def open_batch_reader_def env hub_source open_no_columns same)
  define F0 where "F0 = \<lparr>sf_schema = s, sf_metrics = m', sf_bound = Some (s, batches)\<rparr>"
  have bind: "factory_bind ?mk (factory_new \<lparr>schema_fields = [], schema_metadata = []\<rparr>) = Some (Ok F0)"
    by (simp add: factory_bind_def open_reader_def factory_new_def reads_every_column_def made F0_def)
  have texts: "c_str (\<lambda>_. []) ''org/set'' = Ok ''org/set''" "c_str (\<lambda>_. []) ''default'' = Ok ''default''"
    "c_str (\<lambda>_. []) ''train'' = Ok ''train''" "optional_string (\<lambda>_. []) None = Ok None" by code_simp+
  have opened: "ffi_huggingface_open hub_env arrow_ref parquet_ref (Some ''org/set'') (Some ''default'') (Some ''train'')
      None None 1 8 DEFAULT_READ_AHEAD_BYTES True = Some (Ok (?source, F0))"
    by (simp add: ffi_huggingface_open_def env texts default_policy_decodes bind)
  show ?thesis using opened by (intro exI conjI) (auto simp: F0_def)
qed

theorem huggingface_scans_by_name_witness:
  "\<exists>source F0 reader F'. ffi_huggingface_open hub_env arrow_ref parquet_ref (Some ''org/set'') (Some ''default'') (Some ''train'')
        None None 1 8 DEFAULT_READ_AHEAD_BYTES True = Some (Ok (source, F0))
    \<and> ffi_get_stream (huggingface_make hub_env arrow_ref parquet_ref source) arrow_ref (\<lambda>_. []) None 0 (Some F0) True = Some (Ok reader, Some F')
    \<and> schema_fields (fst reader) = schema_fields (sf_schema F0) \<and> sf_bound F' = None"
proof -
  let ?source = "huggingface_factory_source ''org/set'' ''default'' ''train'' None opendal_config_default 1 8 DEFAULT_READ_AHEAD_BYTES"
  let ?mk = "huggingface_make hub_env arrow_ref parquet_ref ?source"
  obtain F0 s batches where opened: "ffi_huggingface_open hub_env arrow_ref parquet_ref (Some ''org/set'') (Some ''default'') (Some ''train'')
      None None 1 8 DEFAULT_READ_AHEAD_BYTES True = Some (Ok (?source, F0))" "sf_bound F0 = Some (s, batches)" using hub_handle_opens by blast
  have scan: "ffi_get_stream ?mk arrow_ref (\<lambda>_. []) None 0 (Some F0) True = Some (Ok (s, batches), Some (F0\<lparr>sf_bound := None\<rparr>))"
    by (simp add: ffi_get_stream_def scan_columns_def string_list_def open_reader_def reads_every_column_def opened(2))
  from huggingface_scans_by_name [OF arrow_ref_ok opened(1) _ scan] have "answers (sf_schema F0) (string_list (\<lambda>_. []) None 0) (Ok (s, batches))"
    by blast
  then have "schema_fields s = schema_fields (sf_schema F0)" by (simp add: answers_def string_list_def)
  with opened(1) scan show ?thesis by fastforce
qed

end
