(* ===== verification/FfiSession.thy ===== *)
theory FfiSession
  imports FfiSource
begin

text \<open>
  Sessions of a source of \<open>rust/src/ffi.rs\<close>: any calls on its handle and on the readers its scans
  have opened, in any interleaving. A reader owns its stream, so it outlives the handle. A released
  reader and a destroyed handle are \<open>None\<close>. Then where the reader of a scan comes from: an opening
  with the columns asked for, or the one made when the handle was opened.
\<close>

section \<open>The handle and its readers\<close>

text \<open>A reader with its history: the columns it was asked for and the items it has yielded.\<close>

record 'b scan_reader =
  sr_names :: "string list"
  sr_schema :: schema
  sr_yielded :: "'b res list"
  sr_left :: "'b res list"

record 'b source_session =
  ss_factory :: "'b res list source_factory option"
  ss_readers :: "'b scan_reader option list"

definition source_session_start :: "'b res list source_factory \<Rightarrow> 'b source_session" where
  "source_session_start F = \<lparr>ss_factory = Some F, ss_readers = []\<rparr>"

text \<open>\<open>lance_source_destroy\<close>, and the reader a scan hands out.\<close>

definition ffi_source_destroy :: "'s source_factory option \<Rightarrow> 's source_factory option" where
  "ffi_source_destroy factory = None"

definition scan_reader_new :: "string list \<Rightarrow> schema \<times> 'b res list \<Rightarrow> 'b scan_reader" where
  "scan_reader_new names reader = \<lparr>sr_names = names, sr_schema = fst reader, sr_yielded = [], sr_left = snd reader\<rparr>"

definition scan_reader_next :: "'b scan_reader \<Rightarrow> 'b scan_reader" where
  "scan_reader_next rd = (case reader_next (sr_left rd) of
     (None, _) \<Rightarrow> rd | (Some item, rest) \<Rightarrow> rd\<lparr>sr_yielded := sr_yielded rd @ [item], sr_left := rest\<rparr>)"

text \<open>A scan that panics is reported as an error; it may have counted bytes before.\<close>

inductive source_step ::
  "'b res list make_reader \<Rightarrow> arrow_api \<Rightarrow> (bytes \<Rightarrow> string) \<Rightarrow> 'b source_session \<Rightarrow> 'b source_session \<Rightarrow> bool"
  for mk A D where
  scans: "ffi_get_stream mk A D columns n (ss_factory s) has_output = Some (Ok reader, F) \<Longrightarrow> string_list D columns n = Ok names \<Longrightarrow>
    source_step mk A D s (s\<lparr>ss_factory := F, ss_readers := ss_readers s @ [Some (scan_reader_new names reader)]\<rparr>)"
| fails: "ffi_get_stream mk A D columns n (ss_factory s) has_output = Some (Err e, F) \<Longrightarrow>
    source_step mk A D s (s\<lparr>ss_factory := F\<rparr>)"
| panics: "ffi_get_stream mk A D columns n (ss_factory s) has_output = None \<Longrightarrow>
    source_step mk A D s (s\<lparr>ss_factory := map_option (sf_metrics_update (\<lambda>_. m)) (ss_factory s)\<rparr>)"
| polls: "i < length (ss_readers s) \<Longrightarrow> ss_readers s ! i = Some rd \<Longrightarrow>
    source_step mk A D s (s\<lparr>ss_readers := (ss_readers s)[i := Some (scan_reader_next rd)]\<rparr>)"
| releases: "i < length (ss_readers s) \<Longrightarrow>
    source_step mk A D s (s\<lparr>ss_readers := (ss_readers s)[i := None]\<rparr>)"
| destroys: "source_step mk A D s (s\<lparr>ss_factory := ffi_source_destroy (ss_factory s)\<rparr>)"

lemma scan_reader_next_whole [simp]:
  "sr_yielded (scan_reader_next rd) @ sr_left (scan_reader_next rd) = sr_yielded rd @ sr_left rd"
  "sr_names (scan_reader_next rd) = sr_names rd" "sr_schema (scan_reader_next rd) = sr_schema rd"
  by (cases "sr_left rd"; simp add: scan_reader_next_def)+

section \<open>What every reader of a session is\<close>

text \<open>
  The contract of a factory: each scan keeps it, and hands out a reader that is good for the names
  it was asked for. Its clients: whatever is called in between, what a reader of a session has
  yielded and has left is good for its names.
\<close>

definition session_ok ::
  "('b res list source_factory \<Rightarrow> bool) \<Rightarrow> (string list \<Rightarrow> schema \<times> 'b res list \<Rightarrow> bool) \<Rightarrow> 'b source_session \<Rightarrow> bool" where
  "session_ok keep good s \<longleftrightarrow> (case ss_factory s of None \<Rightarrow> True | Some F \<Rightarrow> keep F)
     \<and> (\<forall>rd. Some rd \<in> set (ss_readers s) \<longrightarrow> good (sr_names rd) (sr_schema rd, sr_yielded rd @ sr_left rd))"

locale scan_contract =
  fixes mk :: "'b res list make_reader"
    and A :: arrow_api
    and D :: "bytes \<Rightarrow> string"
    and keep :: "'b res list source_factory \<Rightarrow> bool"
    and good :: "string list \<Rightarrow> schema \<times> 'b res list \<Rightarrow> bool"
  assumes scan_keeps: "keep F \<Longrightarrow> scan_columns mk A D columns n F = Some (r, F') \<Longrightarrow> keep F'"
    and scan_good: "keep F \<Longrightarrow> scan_columns mk A D columns n F = Some (Ok reader, F') \<Longrightarrow> string_list D columns n = Ok names \<Longrightarrow>
      good names reader"
    and counters_keep: "keep F \<Longrightarrow> keep (F\<lparr>sf_metrics := m\<rparr>)"
begin

lemma call_keeps:
  assumes "ffi_get_stream mk A D columns n factory has_output = Some (r, F)" "case factory of None \<Rightarrow> True | Some F \<Rightarrow> keep F"
  shows "case F of None \<Rightarrow> True | Some F \<Rightarrow> keep F"
  using assms by (auto simp: ffi_get_stream_def split: option.splits bool.splits dest: scan_keeps)

lemma call_good:
  assumes "ffi_get_stream mk A D columns n factory has_output = Some (Ok reader, F)" "case factory of None \<Rightarrow> True | Some F \<Rightarrow> keep F"
    "string_list D columns n = Ok names"
  shows "good names reader"
  using assms by (auto simp: ffi_get_stream_def split: option.splits bool.splits dest: scan_good)

lemma session_step_ok:
  assumes "source_step mk A D s s'" "session_ok keep good s"
  shows "session_ok keep good s'"
  using assms
proof (cases rule: source_step.cases)
  case (scans columns n has_output reader F names)
  with assms(2) call_keeps [OF scans(2)] call_good [OF scans(2) _ scans(3)] show ?thesis
    by (auto simp: session_ok_def scan_reader_new_def)
next
  case (polls i rd)
  with assms(2) show ?thesis by (auto simp: session_ok_def in_set_conv_nth nth_list_update split: if_splits)
qed (use assms(2) call_keeps in \<open>auto simp: session_ok_def ffi_source_destroy_def counters_keep
      dest!: set_update_subset_insert [THEN subsetD] split: option.splits\<close>)

end

sublocale scan_contract \<subseteq> sessions: step_invariant "source_step mk A D" "session_ok keep good"
  by unfold_locales (rule session_step_ok)

context scan_contract
begin

text \<open>What has been yielded of a reader, with what is left of it, whatever was called since it was opened.\<close>

lemma reader_good:
  assumes "keep F" "(source_step mk A D)\<^sup>*\<^sup>* (source_session_start F) t" "Some rd \<in> set (ss_readers t)"
  shows "good (sr_names rd) (sr_schema rd, sr_yielded rd @ sr_left rd)"
proof -
  have "session_ok keep good (source_session_start F)" using assms(1) by (simp add: session_ok_def source_session_start_def)
  from sessions.inv_run [OF assms(2) this] assms(3) show ?thesis by (auto simp: session_ok_def)
qed

end

section \<open>Where a reader comes from\<close>

definition reader_of :: "'s make_reader \<Rightarrow> nat list \<Rightarrow> schema \<times> 's \<Rightarrow> bool" where
  "reader_of mk p reader \<longleftrightarrow> (\<exists>m m'. mk p m = Some (Ok reader, m'))"

definition keeps :: "'s make_reader \<Rightarrow> schema \<Rightarrow> 's source_factory \<Rightarrow> bool" where
  "keeps mk s F \<longleftrightarrow> sf_schema F = s \<and> (case sf_bound F of None \<Rightarrow> True | Some reader \<Rightarrow> reader_of mk [] reader)"

lemma open_reader_from:
  assumes "keeps mk s F" "open_reader mk p F = Some (r, F')"
  shows "keeps mk s F' \<and> (case r of Err _ \<Rightarrow> True
    | Ok reader \<Rightarrow> reader_of mk p reader \<or> reads_every_column s p \<and> reader_of mk [] reader)"
proof (cases "if reads_every_column (sf_schema F) p then sf_bound F else None")
  case None
  with assms obtain m where m: "mk p (sf_metrics F) = Some (r, m)" "F' = F\<lparr>sf_metrics := m\<rparr>"
    by (auto simp: open_reader_def)
  with assms(1) show ?thesis by (auto simp: keeps_def reader_of_def split: result.splits)
next
  case (Some reader)
  then have "reads_every_column s p" "sf_bound F = Some reader" using assms(1) by (auto simp: keeps_def split: if_splits)
  with assms Some show ?thesis by (auto simp: open_reader_def keeps_def)
qed

lemma scan_from:
  assumes "keeps mk s F" "scan_columns mk A D names n F = Some (r, F')"
  shows "keeps mk s F' \<and> (case r of Err _ \<Rightarrow> True
    | Ok reader \<Rightarrow> \<exists>ns p. string_list D names n = Ok ns \<and> try_map (source_index A s) ns = Ok p
        \<and> (reader_of mk p reader \<or> reads_every_column s p \<and> reader_of mk [] reader))"
proof (cases "and_then (string_list D names n) (try_map (source_index A (sf_schema F)))")
  case (Ok p)
  with assms(2) have "open_reader mk p F = Some (r, F')" by (simp add: scan_columns_def)
  moreover obtain ns where "string_list D names n = Ok ns" "try_map (source_index A s) ns = Ok p"
    using Ok assms(1) by (auto simp: and_then_Ok keeps_def)
  ultimately show ?thesis using open_reader_from [OF assms(1)] by (cases r) fastforce+
next
  case (Err e)
  with assms show ?thesis by (auto simp: scan_columns_def)
qed

text \<open>The reader a scan by the columns \<open>names\<close> gets, in a session of a handle of schema \<open>s\<close>.\<close>

definition comes_from :: "'s make_reader \<Rightarrow> arrow_api \<Rightarrow> schema \<Rightarrow> string list \<Rightarrow> schema \<times> 's \<Rightarrow> bool" where
  "comes_from mk A s names reader \<longleftrightarrow> (\<exists>p. try_map (source_index A s) names = Ok p
     \<and> (reader_of mk p reader \<or> reads_every_column s p \<and> reader_of mk [] reader))"

interpretation kept: scan_contract mk A D "keeps mk s" "comes_from mk A s" for mk A D s
proof
  show "keeps mk s F'" if "keeps mk s F" "scan_columns mk A D columns n F = Some (r, F')" for F columns n r F'
    using scan_from [OF that] by blast
  show "comes_from mk A s names reader"
    if "keeps mk s F" "scan_columns mk A D columns n F = Some (Ok reader, F')" "string_list D columns n = Ok names"
    for F columns n reader F' names
    using scan_from [OF that(1,2)] that(3) by (auto simp: comes_from_def)
qed (simp add: keeps_def)

lemma bind_keeps:
  assumes "factory_bind mk (factory_new e) = Some (Ok F0)"
  shows "keeps mk (sf_schema F0) F0 \<and> (\<exists>st. reader_of mk [] (sf_schema F0, st))"
proof -
  have "open_reader mk [] (factory_new e) = map_option (\<lambda>(r, m). (r, (factory_new e)\<lparr>sf_metrics := m\<rparr>)) (mk [] read_metrics_default)"
    by (simp add: open_reader_def factory_new_def)
  with assms obtain reader m where reader: "mk [] read_metrics_default = Some (Ok reader, m)" "sf_schema F0 = fst reader" "sf_bound F0 = Some reader"
    by (auto simp: factory_bind_def map_ok_Ok)
  then show ?thesis unfolding keeps_def reader_of_def by (cases reader) fastforce
qed

text \<open>A WARC or ATIF handle never keeps a reader: every scan opens the file again.\<close>

definition reopens :: "schema \<Rightarrow> 's source_factory \<Rightarrow> bool" where
  "reopens s F \<longleftrightarrow> sf_bound F = None \<and> sf_schema F = s"

lemma scan_reopens:
  assumes "reopens s F" "scan_columns mk A D columns n F = Some (r, F')"
  shows "reopens s F'"
proof (cases "and_then (string_list D columns n) (try_map (source_index A (sf_schema F)))")
  case (Ok p)
  have none: "(if reads_every_column (sf_schema F) p then sf_bound F else None) = None"
    using assms(1) by (simp add: reopens_def)
  from assms(2) Ok have "open_reader mk p F = Some (r, F')" by (simp add: scan_columns_def)
  then obtain m where "F' = F\<lparr>sf_metrics := m\<rparr>" unfolding open_reader_def none by auto
  with assms(1) show ?thesis by (simp add: reopens_def)
next
  case (Err e)
  with assms show ?thesis by (simp add: scan_columns_def)
qed

interpretation reopened: step_invariant "factory_step mk A D" "reopens s" for mk A D s
  by unfold_locales (auto simp: factory_step_def intro: scan_reopens)

definition made_for :: "'s make_reader \<Rightarrow> arrow_api \<Rightarrow> schema \<Rightarrow> string list \<Rightarrow> schema \<times> 's \<Rightarrow> bool" where
  "made_for mk A s names reader \<longleftrightarrow> (\<exists>p. try_map (source_index A s) names = Ok p \<and> reader_of mk p reader)"

lemma scan_made:
  assumes "reopens s F" "scan_columns mk A D columns n F = Some (Ok reader, F')" "string_list D columns n = Ok names"
  shows "made_for mk A s names reader"
proof -
  have F: "sf_bound F = None" "sf_schema F = s" using assms(1) by (simp_all add: reopens_def)
  with assms(2,3) obtain p where p: "try_map (source_index A s) names = Ok p" "open_reader mk p F = Some (Ok reader, F')"
    by (auto simp: scan_columns_def split: result.splits)
  then have "reader_of mk p reader" by (auto simp: open_reader_def reader_of_def F(1) split: if_splits)
  with p(1) show ?thesis by (auto simp: made_for_def)
qed

interpretation fresh: scan_contract mk A D "reopens s" "made_for mk A s" for mk A D s
proof
  show "reopens s F'" if "reopens s F" "scan_columns mk A D columns n F = Some (r, F')" for F columns n r F'
    using that by (rule scan_reopens)
  show "made_for mk A s names reader"
    if "reopens s F" "scan_columns mk A D columns n F = Some (Ok reader, F')" "string_list D columns n = Ok names"
    for F columns n reader F' names
    using that by (rule scan_made)
qed (simp add: reopens_def)

end
