(* ===== verification/FfiScan.thy ===== *)
theory FfiScan
  imports FfiSession
begin

text \<open>
  The calls of \<open>rust/src/ffi.rs\<close> on one WARC file from end to end: the handle that
  \<open>lance_warc_open\<close> makes, any scans of it, and what the next scan delivers of the file. The
  counters are those once the scan's stream has been read to the end.
\<close>

section \<open>One file\<close>

lemma warc_factory_source_sel:
  "ws_projection (warc_factory_source path index s3 policy parallelism cols) = Some cols"
  "ws_index_path (warc_factory_source path index s3 policy parallelism cols) = index"
  "ws_batch_size (warc_factory_source path index s3 policy parallelism cols) = 8192"
  "max_read_parallelism (ws_read_options (warc_factory_source path index s3 policy parallelism cols)) = parallelism"
  "warc_location E (warc_factory_source path index s3 policy parallelism cols)
     = warc_location E (warc_factory_source path index s3 policy parallelism [])"
  by (cases index; cases s3; simp add: warc_factory_source_def warc_source_new_def with_opendal_config_def
      with_max_read_parallelism_def with_projection_def with_index_path_def with_s3_config_def DEFAULT_BATCH_SIZE_def
      warc_location_def Let_def)+

lemma warc_file_make:
  assumes "source_runtime X = Ok ()" "parallelism \<noteq> 0" "try_new_documented (io_batch_check IO)"
    "warc_location (fe_storage X) (warc_factory_source path None s3 policy parallelism []) = Ok (op, file)"
    "segment_parse file = None" "projected_schema (Some cols) = Ok (p, fs)" "file_decodes IO op p file recs sz"
  shows "\<exists>chunks. warc_make X IO flatten (warc_factory_source path None s3 policy parallelism) cols m
      = Some (Ok (\<lparr>schema_fields = fs, schema_metadata = []\<rparr>, map (\<lambda>c. Ok (fs, map (\<lambda>i. column_of i c) p)) chunks),
          add_bytes_read sz (set_total_bytes sz m))
    \<and> concat chunks = recs \<and> list_all (chunk_fits 8192 p) chunks"
proof -
  let ?w = "warc_factory_source path None s3 policy parallelism cols"
  obtain rd where rd: "io_stat IO op file = Ok sz" "io_object IO op file sz = Ok rd" "length (fst rd) = unat sz"
    "reads_records IO rd (is_gzipped file) recs" "list_all (readable p) recs"
    using assms(7) unfolding file_decodes_def by blast
  have batch: "0 < unat (8192 :: usize)" "unat (8192 :: usize) = 8192" by simp_all
  obtain chunks where chunks: "records_stream IO rd (is_gzipped file) 8192 p fs = map (\<lambda>c. Ok (fs, map (\<lambda>i. column_of i c) p)) chunks"
    "concat chunks = recs" "list_all (chunk_fits 8192 p) chunks"
    using records_stream_delivers [OF assms(6) batch(1) assms(3) rd(4,5)] unfolding batch(2) map_batch_of by blast
  have opts: "source_read_options_validate (ws_read_options ?w) = Ok (ws_read_options ?w)"
    using assms(2) by (simp add: source_read_options_validate_def warc_factory_source_sel)
  have loc: "warc_location (fe_storage X) ?w = Ok (op, file)" using assms(4) by (subst warc_factory_source_sel(5))
  have size: "(of_nat (length (fst rd)) :: u64) = sz" by (simp add: rd(3))
  have whole: "open_whole_file IO op file 8192 p fs m
      = (Ok (map (\<lambda>c. Ok (fs, map (\<lambda>i. column_of i c) p)) chunks), add_bytes_read sz (set_total_bytes sz m))"
    by (simp add: open_whole_file_def rd(1,2) chunks(1) size Let_def)
  have "warc_source_open (fe_storage X) IO flatten ?w m
      = Some (Ok (fs, map (\<lambda>c. Ok (fs, map (\<lambda>i. column_of i c) p)) chunks), add_bytes_read sz (set_total_bytes sz m))"
    unfolding warc_source_open_def warc_factory_source_sel(1-3) opts loc assms(6)
    by (simp add: assms(5) whole)
  with chunks show ?thesis
    by (intro exI [of _ chunks]) (simp add: warc_make_def open_batch_reader_def assms(1))
qed

section \<open>One handle\<close>

lemma named_columns:
  assumes "arrow_ok A" "try_map (source_index A warc_schema) ns = Ok cols" "distinct ns"
  shows "distinct cols \<and> list_all (\<lambda>i. i < 20) cols \<and> map field_name (map (nth (schema_fields warc_schema)) cols) = ns"
proof -
  note len = try_map_length [OF assms(2)]
  have at: "cols ! i < 20 \<and> field_name (schema_fields warc_schema ! (cols ! i)) = ns ! i" if "i < length ns" for i
  proof -
    have "aa_index_of A warc_schema (ns ! i) = Ok (cols ! i)"
      using try_map_nth [OF assms(2) that] by (simp add: source_index_def map_err_Ok)
    from index_of_Ok [OF assms(1) this] show ?thesis by simp
  qed
  have "distinct cols"
    using assms(3) at len by (metis distinct_conv_nth)
  moreover have "list_all (\<lambda>i. i < 20) cols"
    using at len by (simp add: list_all_length)
  moreover have "map field_name (map (nth (schema_fields warc_schema)) cols) = ns"
    by (rule nth_equalityI) (simp_all add: at len)
  ultimately show ?thesis by blast
qed

lemma warc_scan_delivers:
  assumes "arrow_ok A" "try_new_documented (io_batch_check IO)" "source_runtime X = Ok ()"
    "ffi_warc_open X path None s3 opendal parallelism True = Ok (source, F0)"
    "warc_location (fe_storage X) (source []) = Ok (op, file)" "segment_parse file = None"
    "(factory_step (warc_make X IO flatten source) A D)\<^sup>*\<^sup>* F0 F"
    "string_list D names n = Ok ns" "distinct ns" "try_map (source_index A warc_schema) ns = Ok cols"
    "file_decodes IO op (requested_columns (Some cols)) file recs sz"
  shows "\<exists>s chunks F'. ffi_get_stream (warc_make X IO flatten source) A D names n (Some F) True
        = Some (Ok (s, map (\<lambda>c. Ok (schema_fields s, map (\<lambda>i. column_of i c) (requested_columns (Some cols)))) chunks), Some F')
    \<and> map field_name (schema_fields s) = (if ns = [] then map field_name (schema_fields warc_schema) else ns)
    \<and> concat chunks = recs \<and> list_all (chunk_fits 8192 (requested_columns (Some cols))) chunks
    \<and> sf_metrics F' = add_bytes_read sz (set_total_bytes sz (sf_metrics F))"
proof -
  obtain p c policy where made: "source = warc_factory_source p None c policy parallelism" "F0 = factory_new warc_schema" "parallelism \<noteq> 0"
    using assms(4) by (auto simp: ffi_warc_open_def and_then_Ok optional_string_def split: option.splits if_splits)
  let ?p = "requested_columns (Some cols)" and ?fs = "selected_fields warc_schema cols"
  note cols = named_columns [OF assms(1,10,9)]
  have proj: "projected_schema (Some cols) = Ok (?p, ?fs)"
    unfolding projected_schema_Ok requested_selected
    using cols by (auto simp: well_projected_def requested_columns_def list_all_iff)
  have fields: "map field_name ?fs = (if ns = [] then map field_name (schema_fields warc_schema) else ns)"
    using cols try_map_length [OF assms(10)] by (auto simp: selected_fields_def)
  have "reopens warc_schema F0" by (simp add: reopens_def made(2) factory_new_def)
  then have F: "sf_bound F = None" "sf_schema F = warc_schema"
    using reopened.inv_run [OF assms(7)] by (simp_all add: reopens_def)
  obtain chunks where scan: "warc_make X IO flatten source cols (sf_metrics F)
      = Some (Ok (\<lparr>schema_fields = ?fs, schema_metadata = []\<rparr>, map (\<lambda>c. Ok (?fs, map (\<lambda>i. column_of i c) ?p)) chunks),
          add_bytes_read sz (set_total_bytes sz (sf_metrics F)))" "concat chunks = recs" "list_all (chunk_fits 8192 ?p) chunks"
    using warc_file_make [OF assms(3) made(3) assms(2) assms(5) [unfolded made(1)] assms(6) proj assms(11)] unfolding made(1) by blast
  have "ffi_get_stream (warc_make X IO flatten source) A D names n (Some F) True
      = Some (Ok (\<lparr>schema_fields = ?fs, schema_metadata = []\<rparr>, map (\<lambda>c. Ok (?fs, map (\<lambda>i. column_of i c) ?p)) chunks),
          Some (F\<lparr>sf_metrics := add_bytes_read sz (set_total_bytes sz (sf_metrics F))\<rparr>))"
    by (simp add: ffi_get_stream_def scan_columns_def assms(8,10) F open_reader_def scan(1))
  with scan(2,3) fields show ?thesis by fastforce
qed

text \<open>
  C3: A scan of one WARC file, through a handle of the C interface that may have been scanned
  before with any columns, delivers every record of the file once and in order, in batches
  within the limits, with exactly the columns it names, in that order, each cell as
  specified. The bytes read grow by the file's size and the total is the file's size.
\<close>

theorem warc_call_delivers_records:
  assumes "arrow_ok A" "try_new_documented (io_batch_check IO)" "source_runtime X = Ok ()"
    "ffi_warc_open X path None s3 opendal parallelism True = Ok (source, F0)"
    "warc_location (fe_storage X) (source []) = Ok (op, file)" "segment_parse file = None"
    "(factory_step (warc_make X IO flatten source) A D)\<^sup>*\<^sup>* F0 F"
    "string_list D names n = Ok ns" "distinct ns" "try_map (source_index A warc_schema) ns = Ok cols"
    "file_decodes IO op (requested_columns (Some cols)) file recs sz"
  shows "\<exists>s chunks F'. ffi_get_stream (warc_make X IO flatten source) A D names n (Some F) True
        = Some (Ok (s, map (\<lambda>c. Ok (schema_fields s, map (\<lambda>i. column_of i c) (requested_columns (Some cols)))) chunks), Some F')
    \<and> map field_name (schema_fields s) = (if ns = [] then map field_name (schema_fields warc_schema) else ns)
    \<and> concat chunks = recs \<and> list_all (chunk_fits 8192 (requested_columns (Some cols))) chunks
    \<and> sf_metrics F' = add_bytes_read sz (set_total_bytes sz (sf_metrics F))"
  by (rule warc_scan_delivers [OF assms])

text \<open>A file of four one-byte records, read by its identifiers and dates.\<close>

theorem warc_call_delivers_records_witness:
  "\<exists>source F0 s chunks F'. ffi_warc_open local_env (Some ''a.warc'') None None None 1 True = Ok (source, F0)
    \<and> ffi_get_stream (warc_make local_env example_io (\<lambda>_. concat) source) arrow_ref (\<lambda>_. []) (Some [Some ''date'', Some ''id'']) 2 (Some F0) True
        = Some (Ok (s, map (\<lambda>c. Ok (schema_fields s, map (\<lambda>i. column_of i c) [2, 0])) chunks), Some F')
    \<and> map field_name (schema_fields s) = [''date'', ''id''] \<and> concat chunks = byte_records ''abcd''
    \<and> rm_bytes_read (sf_metrics F') = 4 \<and> rm_total_bytes (sf_metrics F') = 4"
proof -
  let ?source = "warc_factory_source ''a.warc'' None None opendal_config_default 1" and ?F = "factory_new warc_schema :: warc_item list source_factory"
  note env = local_env_sel
  have path: "c_str (\<lambda>_. []) ''a.warc'' = Ok ''a.warc''" "\<not> is_s3_uri ''a.warc''" "segment_parse ''work/a.warc'' = None"
    "\<not> is_gzipped ''work/a.warc''" by code_simp+
  have opened: "ffi_warc_open local_env (Some ''a.warc'') None None None 1 True = Ok (?source, ?F)"
    by (simp add: ffi_warc_open_def env path(1) optional_string_def s3_config_of_def default_policy_decodes)
  have "\<exists>st. from_path (storage_ref []) ''a.warc'' None opendal_config_default = Ok st \<and> st_object_path st = ''work/a.warc''"
    using path(2) by (simp add: from_path_def from_local_path_def path_is_absolute_def path_push_def operator_new_def
        trim_start_slashes_def context_of_def validate_Ok default_config_sound result_simps)
      (simp add: storage_ref_def)
  then obtain st where "from_path (storage_ref []) ''a.warc'' None opendal_config_default = Ok st" "st_object_path st = ''work/a.warc''"
    by blast
  moreover have "se_url_parse (storage_ref []) ''a.warc'' = Err ''relative URL without a base''" by (simp add: storage_ref_def)
  ultimately have "\<exists>f. input_file_open (storage_ref []) ''a.warc'' None opendal_config_default = Ok f \<and> in_opendal_path f = ''work/a.warc''"
    by (simp add: input_file_open_def open_stored_file_def)
  then obtain op where loc: "warc_location (fe_storage local_env) (?source []) = Ok (op, ''work/a.warc'')"
    by (auto simp: env warc_location_def warc_factory_source_def with_opendal_config_def with_max_read_parallelism_def
        with_projection_def warc_source_new_def)
  have names: "string_list (\<lambda>_. []) (Some [Some ''date'', Some ''id'']) 2 = Ok [''date'', ''id'']"
    "try_map (source_index arrow_ref warc_schema) [''date'', ''id''] = Ok [2, 0]" by code_simp+
  have cols: "requested_columns (Some [2, 0]) = [2, 0]" by (simp add: requested_columns_def)
  have decodes: "file_decodes example_io op (requested_columns (Some [2, 0])) ''work/a.warc'' (byte_records ''abcd'') 4"
    using path(4) by (simp add: file_decodes_def reads_records_def example_io_def decompressed_input_def readable_def list_all_iff cols)
  have docs: "arrow_ok arrow_ref" "try_new_documented (io_batch_check example_io)" "distinct [''date'', ''id'']"
    by (simp_all add: example_io_def)
  note run = warc_call_delivers_records [where flatten = "\<lambda>_. concat", OF docs(1,2) env(3) opened loc path(3)
      rtranclp.rtrancl_refl names(1) docs(3) names(2) decodes, unfolded cols]
  then obtain s chunks F' where scan: "ffi_get_stream (warc_make local_env example_io (\<lambda>_. concat) ?source) arrow_ref (\<lambda>_. [])
      (Some [Some ''date'', Some ''id'']) 2 (Some ?F) True
        = Some (Ok (s, map (\<lambda>c. Ok (schema_fields s, map (\<lambda>i. column_of i c) [2, 0])) chunks), Some F')"
    "map field_name (schema_fields s) = (if [''date'', ''id''] = [] then map field_name (schema_fields warc_schema) else [''date'', ''id''])"
    "concat chunks = byte_records ''abcd''" "list_all (chunk_fits 8192 [2, 0]) chunks"
    "sf_metrics F' = add_bytes_read 4 (set_total_bytes 4 (sf_metrics ?F))"
    by (elim exE conjE) (rule that, assumption+)
  have named: "map field_name (schema_fields s) = [''date'', ''id'']" using scan(2) by simp
  have counted: "rm_bytes_read (sf_metrics F') = 4" "rm_total_bytes (sf_metrics F') = 4"
    by (simp_all add: scan(5) add_bytes_read_def set_total_bytes_def factory_new_def read_metrics_default_def)
  show ?thesis by (intro exI conjI) (rule opened, rule scan(1), rule named, rule scan(3), rule counted(1), rule counted(2))
qed

text \<open>
  The counters of a handle accumulate, but the total is that of one scan: after a second scan the
  bytes read are twice the total, and the progress computed from them was complete before it began.
\<close>

lemma rescan_exceeds_total:
  assumes "arrow_ok A" "try_new_documented (io_batch_check IO)" "source_runtime X = Ok ()"
    "ffi_warc_open X path None s3 opendal parallelism True = Ok (source, F0)"
    "warc_location (fe_storage X) (source []) = Ok (op, file)" "segment_parse file = None"
    "string_list D names n = Ok ns" "distinct ns" "try_map (source_index A warc_schema) ns = Ok cols"
    "file_decodes IO op (requested_columns (Some cols)) file recs sz"
  shows "\<exists>r F1 r' F2. ffi_get_stream (warc_make X IO flatten source) A D names n (Some F0) True = Some (r, Some F1)
    \<and> ffi_get_stream (warc_make X IO flatten source) A D names n (Some F1) True = Some (r', Some F2)
    \<and> rm_bytes_read (sf_metrics F1) = sz \<and> rm_total_bytes (sf_metrics F1) = sz
    \<and> rm_bytes_read (sf_metrics F2) = 2 * sz \<and> rm_total_bytes (sf_metrics F2) = sz"
proof -
  note scan = warc_scan_delivers [OF assms(1-6) _ assms(7-10)]
  have start: "sf_metrics F0 = read_metrics_default"
    using assms(4) by (auto simp: ffi_warc_open_def and_then_Ok optional_string_def factory_new_def split: option.splits if_splits)
  obtain r F1 where F1: "ffi_get_stream (warc_make X IO flatten source) A D names n (Some F0) True = Some (r, Some F1)"
    "sf_metrics F1 = add_bytes_read sz (set_total_bytes sz (sf_metrics F0))"
    using scan [OF rtranclp.rtrancl_refl] by blast
  then have step: "factory_step (warc_make X IO flatten source) A D F0 F1"
    by (auto simp: factory_step_def ffi_get_stream_Some)
  obtain r' F2 where F2: "ffi_get_stream (warc_make X IO flatten source) A D names n (Some F1) True = Some (r', Some F2)"
    "sf_metrics F2 = add_bytes_read sz (set_total_bytes sz (sf_metrics F1))"
    using scan [OF r_into_rtranclp [where r = "factory_step (warc_make X IO flatten source) A D", OF step]] by blast
  have "rm_bytes_read (sf_metrics F2) = 2 * sz \<and> rm_total_bytes (sf_metrics F2) = sz
      \<and> rm_bytes_read (sf_metrics F1) = sz \<and> rm_total_bytes (sf_metrics F1) = sz"
    by (simp add: F1(2) F2(2) start add_bytes_read_def set_total_bytes_def read_metrics_default_def)
  with F1(1) F2(1) show ?thesis by blast
qed

end
