(* ===== verification/FfiSplit.thy ===== *)
theory FfiSplit
  imports FfiSession
begin

text \<open>
  The calls of \<open>rust/src/ffi.rs\<close> on one Hugging Face split from end to end: what an opening of
  the split delivers of its shards, and so the readers of a session.
\<close>

section \<open>What an opened split delivers\<close>

text \<open>
  A shard whose row groups hold \<open>groups\<close> and can be read, whatever columns of it are asked for.
\<close>

definition shard_readable :: "('b \<Rightarrow> 'c list) \<Rightarrow> 'b parquet_io \<Rightarrow> operator \<Rightarrow> string \<Rightarrow> 'c list list list \<Rightarrow> bool" where
  "shard_readable cols IO op path groups \<longleftrightarrow> (\<forall>md p. pq_footer IO op path = Ok md \<longrightarrow>
     list_all (\<lambda>i. i < length (schema_fields (pm_schema md))) p \<longrightarrow>
     file_reads cols IO op 8192 (column_projection_new p) (length (schema_fields (pm_schema md))) groups
       \<lparr>fm_path = path, fm_metadata = md\<rparr>)"

definition split_streams :: "nat list \<Rightarrow> 'c list list list list \<Rightarrow> 'c list res list list" where
  "split_streams p contents = map (map (\<lambda>full. Ok (picked (Some p) full))) (concat contents)"

lemma picked_if: "picked (Some p) full = (if p = [] then full else map (nth full) p)"
  by (cases p) (simp_all add: picked_def)

lemma opened_shards_deliver:
  assumes "arrow_ok A" "mask_documented IO" "project_documented cols IO" "\<forall>k xss. pq_flatten IO k xss \<in> merges xss"
    "open_parquet_paths A IO op paths 8192 in_order k ahead (Some p) m = Some (Ok (s, batches, m'))"
    "\<forall>path\<in>set paths. shard_readable cols IO op path (content path)"
  shows "(if in_order then map (map_ok cols) batches = concat (split_streams p (map content paths))
      else map (map_ok cols) batches \<in> merges (split_streams p (map content paths)))
    \<and> (p = [] \<longrightarrow> list_all (list_all (list_all (\<lambda>full. length full = length (schema_fields s)))) (map content paths))"
proof -
  have pos: "(8192 :: usize) \<noteq> 0" "k \<noteq> 0" using assms(5) by (auto simp: open_parquet_paths_def split: if_splits)
  then obtain s0 fls m1 where load: "load_parquet_metadata IO op paths m = Ok (s0, fls, m1)"
    "project_schema A (projection_of (Some p)) s0 = Ok s"
    using assms(5) by (auto simp: open_parquet_paths_def Let_def split: result.splits option.splits)
  note footers = load_Ok [OF load(1)] and schema = project_schema_Ok [OF assms(1) load(2)]
  have "list_all2 (\<lambda>path fm. path = fm_path fm) paths fls" using footers by (auto elim: list_all2_mono)
  then have paths: "map fm_path fls = paths" by (induction rule: list_all2_induct) simp_all
  have range: "list_all (\<lambda>i. i < length (schema_fields s0)) p" using schema by (cases p) simp_all
  have reads: "file_reads cols IO op 8192 (projection_of (Some p)) (length (schema_fields s0)) (content (fm_path fm)) fm"
    if fm: "fm \<in> set fls" for fm
  proof -
    obtain i where i: "i < length fls" "fls ! i = fm" using fm by (auto simp: in_set_conv_nth)
    have "list_all2 (\<lambda>path fm. fm_path fm = path \<and> pq_footer IO op path = Ok (fm_metadata fm)) paths fls" using footers by simp
    from list_all2_nthD2 [OF this i(1)] have "pq_footer IO op (fm_path fm) = Ok (fm_metadata fm)" by (simp add: i(2))
    moreover have "fm_path fm \<in> set paths" using fm by (auto simp: paths [symmetric])
    moreover have "pm_schema (fm_metadata fm) = s0" using footers fm by blast
    moreover have "\<lparr>fm_path = fm_path fm, fm_metadata = fm_metadata fm\<rparr> = fm" by simp
    moreover have "projection_of (Some p) = column_projection_new p" by simp
    ultimately show ?thesis using assms(6) range unfolding shard_readable_def by metis
  qed
  have contents: "map (\<lambda>fm. content (fm_path fm)) fls = map content paths" by (simp add: paths [symmetric])
  obtain batches' m2 where "open_parquet_paths A IO op paths 8192 in_order k ahead (Some p) m = Some (Ok (s, batches', m2))"
    "let streams = split_streams p (map content paths)
     in if in_order then map (map_ok cols) batches' = concat streams else map (map_ok cols) batches' \<in> merges streams"
    using scan_delivers [OF assms(1-4) pos load, where content = content and in_order = in_order and read_ahead = ahead] reads
    unfolding split_streams_def contents by blast
  moreover have "list_all (list_all (\<lambda>full. length full = length (schema_fields s0))) (content (fm_path fm))" if "fm \<in> set fls" for fm
    using reads [OF that] by (simp add: file_reads_def list_all_length)
  then have "list_all (list_all (list_all (\<lambda>full. length full = length (schema_fields s0)))) (map content paths)"
    by (simp add: paths [symmetric] list_all_iff)
  moreover have "p = [] \<Longrightarrow> schema_fields s = schema_fields s0" using schema by simp
  ultimately show ?thesis using assms(5) by (simp add: Let_def)
qed

lemma huggingface_opens_shards:
  assumes "huggingface_source_open S A IO list h m = Some (Ok (s, batches, m'))"
    "huggingface_operator S (hs_dataset h) PARQUET_REVISION (hs_token h) (hs_opendal_config h) = Ok op"
    "parquet_files list op h = Ok paths"
  shows "open_parquet_paths A IO op paths 8192 (hs_preserve_insertion_order h) (max_read_parallelism (hs_read_options h))
    (hs_read_ahead_bytes h) (hs_projection h) m = Some (Ok (s, batches, m'))"
  using assms
  by (auto simp: huggingface_source_open_def and_then_Ok map_ok_Ok context_of_Ok source_read_options_validate_def
      HF_DEFAULT_BATCH_SIZE_def split: result.splits if_splits)

lemma huggingface_factory_sel:
  "hs_projection (huggingface_factory_source d c sp t opendal in_order parallelism read_ahead p) = Some p"
  "hs_preserve_insertion_order (huggingface_factory_source d c sp t opendal in_order parallelism read_ahead p) \<longleftrightarrow> in_order \<noteq> 0"
  "hs_dataset (huggingface_factory_source d c sp t opendal in_order parallelism read_ahead p) = d"
  "hs_token (huggingface_factory_source d c sp t opendal in_order parallelism read_ahead p) = t"
  "hs_opendal_config (huggingface_factory_source d c sp t opendal in_order parallelism read_ahead p) = opendal"
  "split_directories (huggingface_factory_source d c sp t opendal in_order parallelism read_ahead p)
    = [c @ ''/'' @ sp @ ''/'', c @ ''/partial-'' @ sp @ ''/'']"
  by (cases t; simp add: huggingface_factory_source_def hf_with_opendal_config_def hf_with_read_ahead_bytes_def
      hf_with_max_read_parallelism_def hf_with_projection_def hf_with_preserve_insertion_order_def hf_with_split_def
      hf_with_config_def hf_with_token_def huggingface_source_new_def split_directories_def Let_def)+

text \<open>What a scan's stream must be, by the insertion order.\<close>

definition delivers_split :: "('b \<Rightarrow> 'c list) \<Rightarrow> i32 \<Rightarrow> nat list \<Rightarrow> 'c list list list list \<Rightarrow> 'b res list \<Rightarrow> bool" where
  "delivers_split cols in_order p contents batches \<longleftrightarrow>
     (if in_order \<noteq> 0 then map (map_ok cols) batches = concat (split_streams p contents)
      else map (map_ok cols) batches \<in> merges (split_streams p contents))"

lemma reader_delivers:
  assumes "arrow_ok A" "mask_documented IO" "project_documented cols IO" "\<forall>k xss. pq_flatten IO k xss \<in> merges xss"
    "source = huggingface_factory_source d c sp t policy in_order parallelism read_ahead"
    "reader_of (huggingface_make X A IO source) p (s, batches)"
    "huggingface_operator (fe_storage X) d PARQUET_REVISION t policy = Ok op"
    "first_with_shards (fe_list X) op [c @ ''/'' @ sp @ ''/'', c @ ''/partial-'' @ sp @ ''/''] = Ok paths"
    "\<forall>path\<in>set paths. shard_readable cols IO op path (content path)"
  shows "delivers_split cols in_order p (map content paths) batches
    \<and> (p = [] \<longrightarrow> list_all (list_all (list_all (\<lambda>full. length full = length (schema_fields s)))) (map content paths))"
proof -
  obtain m m' where "huggingface_source_open (fe_storage X) A IO (fe_list X) (source p) m = Some (Ok (s, batches, m'))"
    using assms(6) unfolding reader_of_def huggingface_make_def by (auto dest!: open_batch_reader_Ok split: result.splits)
  from huggingface_opens_shards [OF this, of op paths] assms(7,8)
  have "open_parquet_paths A IO op paths 8192 (in_order \<noteq> 0) (max_read_parallelism (hs_read_options (source p)))
      (hs_read_ahead_bytes (source p)) (Some p) m = Some (Ok (s, batches, m'))"
    by (simp add: assms(5) huggingface_factory_sel parquet_files_def)
  from opened_shards_deliver [OF assms(1-4) this assms(9)] show ?thesis by (simp add: delivers_split_def)
qed

lemma delivers_every_column:
  assumes "list_all (list_all (list_all (\<lambda>full. length full = n))) contents"
  shows "split_streams [0..<n] contents = split_streams [] contents"
proof -
  have "map (nth full) [0..<n] = full" if "group \<in> set (concat contents)" "full \<in> set group" for group full
    using assms that by (fastforce simp: list_all_iff map_nth)
  then show ?thesis by (auto simp: split_streams_def picked_if)
qed

section \<open>One session\<close>

lemma split_reader_delivers:
  assumes "arrow_ok A" "mask_documented IO" "project_documented cols IO" "\<forall>k xss. pq_flatten IO k xss \<in> merges xss"
    "ffi_huggingface_open X A IO dataset config split token opendal in_order parallelism read_ahead True = Some (Ok (source, F0))"
    "comes_from (huggingface_make X A IO source) A (sf_schema F0) names (s, batches)"
    "huggingface_operator (fe_storage X) (hs_dataset (source [])) PARQUET_REVISION (hs_token (source [])) (hs_opendal_config (source [])) = Ok op"
    "parquet_files (fe_list X) op (source []) = Ok paths"
    "\<forall>path\<in>set paths. shard_readable cols IO op path (content path)"
  shows "\<exists>p. try_map (source_index A (sf_schema F0)) names = Ok p \<and> delivers_split cols in_order p (map content paths) batches"
proof -
  obtain d c sp t policy where made: "source = huggingface_factory_source d c sp t policy in_order parallelism read_ahead"
    "factory_bind (huggingface_make X A IO source) (factory_new \<lparr>schema_fields = [], schema_metadata = []\<rparr>) = Some (Ok F0)"
    using assms(5) by (auto simp: ffi_huggingface_open_def and_then_Ok map_ok_Ok split: option.splits result.splits)
  let ?mk = "huggingface_make X A IO source" and ?contents = "map content paths"
  note hub = assms(7,8) [unfolded made(1) parquet_files_def huggingface_factory_sel]
  note reader = reader_delivers [OF assms(1-4) made(1) _ hub assms(9)]
  obtain b0 where bound: "reader_of ?mk [] (sf_schema F0, b0)" using bind_keeps [OF made(2)] by blast
  obtain p where p: "try_map (source_index A (sf_schema F0)) names = Ok p"
    "reader_of ?mk p (s, batches) \<or> reads_every_column (sf_schema F0) p \<and> reader_of ?mk [] (s, batches)"
    using assms(6) by (auto simp: comes_from_def)
  from p(2) have "delivers_split cols in_order p ?contents batches"
  proof (elim disjE conjE)
    assume "reader_of ?mk p (s, batches)"
    from reader [OF this] show ?thesis by blast
  next
    assume every: "reads_every_column (sf_schema F0) p" and "reader_of ?mk [] (s, batches)"
    from reader [OF this(2)] have "delivers_split cols in_order [] ?contents batches" by blast
    moreover have "split_streams p ?contents = split_streams [] ?contents"
      using every reader [OF bound] delivers_every_column [of "length (schema_fields (sf_schema F0))" ?contents]
      by (auto simp: reads_every_column_def)
    ultimately show ?thesis by (simp add: delivers_split_def)
  qed
  with p(1) show ?thesis by blast
qed

lemma huggingface_handle_keeps:
  assumes "ffi_huggingface_open X A IO dataset config split token opendal in_order parallelism read_ahead True = Some (Ok (source, F0))"
  shows "keeps (huggingface_make X A IO source) (sf_schema F0) F0"
  using assms bind_keeps by (fastforce simp: ffi_huggingface_open_def and_then_Ok map_ok_Ok split: option.splits result.splits)

text \<open>
  C4: In any session of a Hugging Face handle, whatever scans, polls, releases and the destruction
  of the handle are interleaved, what a reader has yielded and has left is every batch of every
  row group of every shard of the split, with the columns its scan named, in the order it named
  them: shard after shard when the insertion order is kept, and otherwise interleaved without
  reordering a row group. It is so whether the scan opened the split again or got the reader
  opened with the handle, and it is all yielded once nothing is left.
\<close>

theorem huggingface_readers_deliver_split:
  assumes "arrow_ok A" "mask_documented IO" "project_documented cols IO" "\<forall>k xss. pq_flatten IO k xss \<in> merges xss"
    "ffi_huggingface_open X A IO dataset config split token opendal in_order parallelism read_ahead True = Some (Ok (source, F0))"
    "(source_step (huggingface_make X A IO source) A D)\<^sup>*\<^sup>* (source_session_start F0) t" "Some rd \<in> set (ss_readers t)"
    "huggingface_operator (fe_storage X) (hs_dataset (source [])) PARQUET_REVISION (hs_token (source [])) (hs_opendal_config (source [])) = Ok op"
    "parquet_files (fe_list X) op (source []) = Ok paths"
    "\<forall>path\<in>set paths. shard_readable cols IO op path (content path)"
  shows "\<exists>p. try_map (source_index A (sf_schema F0)) (sr_names rd) = Ok p
    \<and> delivers_split cols in_order p (map content paths) (sr_yielded rd @ sr_left rd)"
  by (rule split_reader_delivers [OF assms(1-5) kept.reader_good [OF huggingface_handle_keeps [OF assms(5)] assms(6,7)] assms(8-10)])

text \<open>The example split: two shards of two row groups, read through the reader opened with the handle.\<close>

lemma strict_below_two: "sorted_wrt (<) xs \<Longrightarrow> set xs \<subseteq> {0, 1 :: nat} \<Longrightarrow> xs = [] \<or> xs = [0] \<or> xs = [1] \<or> xs = [0, 1]"
  by (cases xs; cases "tl xs"; cases "tl (tl xs)") auto

lemma parquet_ref_readable: "shard_readable id parquet_ref op path [[[0, 1]], [[10, 11]]]"
  unfolding shard_readable_def
proof (intro allI impI)
  fix md p
  assume md: "pq_footer parquet_ref op path = Ok md" and p: "list_all (\<lambda>i. i < length (schema_fields (pm_schema md))) p"
  then have schema: "length (schema_fields (pm_schema md)) = 2" "length (pm_row_groups md) = 2" by (auto simp: parquet_ref_def)
  consider "column_projection_new p = None"
    | r where "column_projection_new p = Some r" "cp_roots r = [0] \<or> cp_roots r = [1] \<or> cp_roots r = [0, 1]"
  proof (cases "column_projection_new p")
    case (Some r)
    note sound = column_projection_sound [OF Some]
    have "set (cp_roots r) \<subseteq> {0, 1}" using sound p schema(1) by (auto simp: list_all_iff less_2_cases_iff)
    moreover have "cp_roots r \<noteq> []" using sound Some by (auto simp: column_projection_new_def)
    ultimately show thesis using strict_below_two [of "cp_roots r"] sound Some that(2) by blast
  qed (use that(1) in blast)
  then show "file_reads id parquet_ref op 8192 (column_projection_new p) (length (schema_fields (pm_schema md)))
      [[[0, 1]], [[10, 11]]] \<lparr>fm_path = path, fm_metadata = md\<rparr>"
    by cases (auto simp: file_reads_def schema less_Suc_eq parquet_ref_def at_roots_def group_mask_def)
qed

text \<open>The handle is scanned, its reader is polled once, and the handle is destroyed.\<close>

theorem huggingface_readers_deliver_split_witness:
  "\<exists>source F0 t rd. ffi_huggingface_open hub_env arrow_ref parquet_ref (Some ''org/set'') (Some ''default'') (Some ''train'')
        None None 1 8 DEFAULT_READ_AHEAD_BYTES True = Some (Ok (source, F0))
    \<and> (source_step (huggingface_make hub_env arrow_ref parquet_ref source) arrow_ref (\<lambda>_. []))\<^sup>*\<^sup>* (source_session_start F0) t
    \<and> ss_factory t = None \<and> ss_readers t = [Some rd]
    \<and> map (map_ok id) (sr_yielded rd @ sr_left rd) = [Ok [0, 1], Ok [10, 11], Ok [0, 1], Ok [10, 11]]"
proof -
  let ?source = "huggingface_factory_source ''org/set'' ''default'' ''train'' None opendal_config_default 1 8 DEFAULT_READ_AHEAD_BYTES"
  let ?mk = "huggingface_make hub_env arrow_ref parquet_ref ?source"
  let ?paths = "[''default/partial-train/0.parquet'', ''default/partial-train/1.parquet'']"
  obtain F0 s batches where opened: "ffi_huggingface_open hub_env arrow_ref parquet_ref (Some ''org/set'') (Some ''default'') (Some ''train'')
      None None 1 8 DEFAULT_READ_AHEAD_BYTES True = Some (Ok (?source, F0))" "sf_bound F0 = Some (s, batches)" using hub_handle_opens by blast
  let ?rd = "scan_reader_new [] (s, batches)"
  let ?t1 = "\<lparr>ss_factory = Some (F0\<lparr>sf_bound := None\<rparr>), ss_readers = [Some ?rd]\<rparr>"
  let ?t2 = "\<lparr>ss_factory = Some (F0\<lparr>sf_bound := None\<rparr>), ss_readers = [Some (scan_reader_next ?rd)]\<rparr>"
  let ?t3 = "\<lparr>ss_factory = None, ss_readers = [Some (scan_reader_next ?rd)]\<rparr>"
  have names: "string_list (\<lambda>_. []) None 0 = Ok []" by (simp add: string_list_def)
  have scan: "ffi_get_stream ?mk arrow_ref (\<lambda>_. []) None 0 (ss_factory (source_session_start F0)) True
      = Some (Ok (s, batches), Some (F0\<lparr>sf_bound := None\<rparr>))"
    by (simp add: source_session_start_def ffi_get_stream_def scan_columns_def names open_reader_def reads_every_column_def opened(2))
  have "source_step ?mk arrow_ref (\<lambda>_. []) (source_session_start F0) ?t1"
    using source_step.scans [OF scan names] by (simp add: source_session_start_def)
  moreover have "source_step ?mk arrow_ref (\<lambda>_. []) ?t1 ?t2"
    using source_step.polls [of 0 ?t1 ?rd] by simp
  moreover have "source_step ?mk arrow_ref (\<lambda>_. []) ?t2 ?t3"
    using source_step.destroys [of _ _ _ ?t2] by (simp add: ffi_source_destroy_def)
  ultimately have run: "(source_step ?mk arrow_ref (\<lambda>_. []))\<^sup>*\<^sup>* (source_session_start F0) ?t3" by simp
  have env: "fe_storage hub_env = storage_ref []" "fe_list hub_env = hub_listing" by (simp_all add: local_env_def)
  obtain op where "huggingface_operator (storage_ref []) ''org/set'' PARQUET_REVISION None opendal_config_default = Ok op"
    using default_config_sound by (auto simp: huggingface_operator_def operator_new_def apply_Ok Let_def)
  then have op: "huggingface_operator (fe_storage hub_env) (hs_dataset (?source [])) PARQUET_REVISION (hs_token (?source []))
      (hs_opendal_config (?source [])) = Ok op" by (simp add: env huggingface_factory_sel)
  have "parquet_files hub_listing op (?source []) = parquet_files hub_listing op (huggingface_source_new ''org/set'')"
    by (simp add: parquet_files_def split_directories_def hub_source)
  then have paths: "parquet_files (fe_list hub_env) op (?source []) = Ok ?paths" by (simp add: env hub_shards)
  have readable: "\<forall>path\<in>set ?paths. shard_readable id parquet_ref op path ((\<lambda>_. [[[0, 1]], [[10, 11]]]) path)"
    using parquet_ref_readable by blast
  have rd: "Some (scan_reader_next ?rd) \<in> set (ss_readers ?t3)" by simp
  from huggingface_readers_deliver_split [OF arrow_ref_ok parquet_ref_documented opened(1) run rd op paths readable]
  have rows: "map (map_ok id) (sr_yielded (scan_reader_next ?rd) @ sr_left (scan_reader_next ?rd)) = [Ok [0, 1], Ok [10, 11], Ok [0, 1], Ok [10, 11]]"
    by (auto simp del: map_append scan_reader_next_whole(1)
        simp: scan_reader_new_def delivers_split_def split_streams_def picked_if)
  show ?thesis by (intro exI [of _ ?source] exI [of _ F0] exI [of _ ?t3] exI [of _ "scan_reader_next ?rd"] conjI)
      (rule opened(1), rule run, simp, simp, rule rows)
qed

end
