(* ===== verification/FfiTrajectory.thy ===== *)
theory FfiTrajectory
  imports FfiScan
begin

text \<open>
  The calls of \<open>rust/src/ffi.rs\<close> on one trajectory file from end to end: the handle that
  \<open>lance_atif_open\<close> makes, what the readers of its sessions deliver of the file with its media
  embedded, and what a scan that leaves out the steps reads.
\<close>

section \<open>One handle\<close>

lemma atif_factory_source_sel:
  "atif_projection (atif_factory_source path fmt s3 policy cols) = (if cols = [] then None else Some cols)"
  "as_path (atif_factory_source path fmt s3 policy cols) = path"
  "as_format (atif_factory_source path fmt s3 policy cols) = fmt"
  "as_s3_config (atif_factory_source path fmt s3 policy cols) = s3"
  "as_opendal_config (atif_factory_source path fmt s3 policy cols) = policy"
  by (cases cols; cases fmt; cases s3; simp add: atif_projection_def atif_factory_source_def atif_with_opendal_config_def
      atif_with_projection_def atif_with_format_def atif_with_s3_config_def atif_source_new_def Let_def)+

text \<open>What a scan of the columns \<open>cols\<close> delivers, item by item, of the file of a source.\<close>

definition delivers_trajectories ::
  "storage_env \<Rightarrow> url_api \<Rightarrow> arrow_api \<Rightarrow> 'p atif_io \<Rightarrow> atif_source \<Rightarrow> nat list \<Rightarrow> schema \<Rightarrow> 'p batch res list \<Rightarrow> bool" where
  "delivers_trajectories E U A IO a cols s batches \<longleftrightarrow> (\<exists>steps input sz content items.
     (if cols = [] then s = atif_schema IO else aa_project A (atif_schema IO) cols = Ok s)
     \<and> aa_index_of A (atif_schema IO) ''steps'' = Ok steps
     \<and> scan_reads E IO a (cols = [] \<or> steps \<in> set cols) input sz content items
     \<and> list_all2 (delivered_item E U IO \<lparr>mr_document = in_uri input, mr_s3_config = as_s3_config a, mr_opendal_config = as_opendal_config a\<rparr>
         (if cols = [] then None else Some cols) s) items batches)"

lemma atif_make_delivers:
  assumes "array_documented (ai_arrays IO)" "builder_documented (ai_media IO)"
    "source = atif_factory_source path fmt s3 policy" "atif_make X U A IO source cols m = Some (Ok (s, batches), m')"
  shows "delivers_trajectories (fe_storage X) U A IO (source cols) cols s batches"
proof -
  have "atif_source_open (fe_storage X) U A IO (source cols) m = Some (Ok (s, batches), m')"
    using assms(4) unfolding atif_make_def by (auto dest!: open_batch_reader_Ok)
  from atif_scan_delivers [OF assms(1,2) this] show ?thesis
    unfolding delivers_trajectories_def assms(3) atif_factory_source_sel(1)
    by (cases "cols = []"; simp add: needs_media_def; blast)
qed

text \<open>A scan that opens, opens the file again for the columns \<open>cols\<close> it names.\<close>

lemma trajectory_scan_opens:
  assumes "ffi_atif_open X IO path fmt s3 opendal True = Ok (source, F0)"
    "(factory_step (atif_make X U A IO source) A D)\<^sup>*\<^sup>* F0 F"
    "ffi_get_stream (atif_make X U A IO source) A D names n (Some F) True = Some (Ok (s, batches), F')"
  obtains p f c policy ns cols F1 where "source = atif_factory_source p f c policy" "F' = Some F1"
    "string_list D names n = Ok ns" "try_map (source_index A (atif_schema IO)) ns = Ok cols"
    "atif_make X U A IO source cols (sf_metrics F) = Some (Ok (s, batches), sf_metrics F1)"
proof -
  obtain p f c policy where made: "source = atif_factory_source p f c policy" "F0 = factory_new (atif_schema IO)"
    using assms(1) by (auto simp: ffi_atif_open_def and_then_Ok split: option.splits)
  have "reopens (atif_schema IO) F0" by (simp add: reopens_def made(2) factory_new_def)
  then have F: "sf_bound F = None" "sf_schema F = atif_schema IO"
    using reopened.inv_run [OF assms(2)] by (simp_all add: reopens_def)
  obtain F1 where scan: "scan_columns (atif_make X U A IO source) A D names n F = Some (Ok (s, batches), F1)" "F' = Some F1"
    using assms(3) by (auto simp: ffi_get_stream_Some)
  then obtain ns cols where names: "string_list D names n = Ok ns" "try_map (source_index A (atif_schema IO)) ns = Ok cols"
    "open_reader (atif_make X U A IO source) cols F = Some (Ok (s, batches), F1)"
    by (auto simp: scan_columns_def F(2) and_then_Ok split: result.splits)
  have "atif_make X U A IO source cols (sf_metrics F) = Some (Ok (s, batches), sf_metrics F1)"
    using names(3) by (auto simp: open_reader_def F(1) split: if_splits)
  from that [OF made(1) scan(2) names(1,2) this] show thesis .
qed

lemma trajectory_reader_delivers:
  assumes "array_documented (ai_arrays IO)" "builder_documented (ai_media IO)"
    "ffi_atif_open X IO path fmt s3 opendal True = Ok (source, F0)"
    "(source_step (atif_make X U A IO source) A D)\<^sup>*\<^sup>* (source_session_start F0) t" "Some rd \<in> set (ss_readers t)"
  shows "\<exists>cols. try_map (source_index A (atif_schema IO)) (sr_names rd) = Ok cols
    \<and> delivers_trajectories (fe_storage X) U A IO (source cols) cols (sr_schema rd) (sr_yielded rd @ sr_left rd)"
proof -
  obtain p f c policy where made: "source = atif_factory_source p f c policy" "F0 = factory_new (atif_schema IO)"
    using assms(3) by (auto simp: ffi_atif_open_def and_then_Ok split: option.splits)
  have "reopens (atif_schema IO) F0" by (simp add: reopens_def made(2) factory_new_def)
  from fresh.reader_good [OF this assms(4,5)] atif_make_delivers [OF assms(1,2) made(1)] show ?thesis
    by (auto simp: made_for_def reader_of_def)
qed

text \<open>
  C9: In any session of a handle of a trajectory file, whatever scans, polls, releases and the
  destruction of the handle are interleaved, a reader has the columns its scan named, in that
  order, and what it has yielded and has left is one item for every item the trajectory reader
  yields of the file, in order: the reader's error, the batch with those columns and their media
  embedded, or an error when some medium cannot be embedded. When the steps are read the reader
  is asked for one document a batch, one at a time.
\<close>

theorem atif_readers_deliver_trajectories:
  assumes "array_documented (ai_arrays IO)" "builder_documented (ai_media IO)"
    "ffi_atif_open X IO path fmt s3 opendal True = Ok (source, F0)"
    "(source_step (atif_make X U A IO source) A D)\<^sup>*\<^sup>* (source_session_start F0) t" "Some rd \<in> set (ss_readers t)"
  shows "\<exists>cols. try_map (source_index A (atif_schema IO)) (sr_names rd) = Ok cols
    \<and> delivers_trajectories (fe_storage X) U A IO (source cols) cols (sr_schema rd) (sr_yielded rd @ sr_left rd)"
  by (rule trajectory_reader_delivers [OF assms])

section \<open>Scans that read no media\<close>

lemma scan_without_steps:
  assumes "arrow_ok A" "reader_documented IO" "ffi_atif_open X IO path fmt s3 opendal True = Ok (source, F0)"
    "(factory_step (atif_make X U A IO source) A D)\<^sup>*\<^sup>* F0 F"
    "string_list D names n = Ok ns" "ns \<noteq> []" "''steps'' \<notin> set ns"
    "ffi_get_stream (atif_make X U A IO source) A D names n (Some F) True = Some (Ok (s, batches), Some F')"
  shows "\<exists>cols input sz content items. try_map (source_index A (atif_schema IO)) ns = Ok cols
    \<and> scan_reads (fe_storage X) IO (source cols) False input sz content items
    \<and> batches = map (plain_item IO cols s) items
    \<and> sf_metrics F' = add_bytes_read (of_nat (length content)) (set_total_bytes sz (sf_metrics F))"
proof -
  obtain p f c policy cols where opened: "source = atif_factory_source p f c policy"
    "try_map (source_index A (atif_schema IO)) ns = Ok cols"
    "atif_make X U A IO source cols (sf_metrics F) = Some (Ok (s, batches), sf_metrics F')"
    using trajectory_scan_opens [OF assms(3,4,8)] assms(5) by (metis option.inject result.inject(1))
  have run: "atif_source_open (fe_storage X) U A IO (source cols) (sf_metrics F) = Some (Ok (s, batches), sf_metrics F')"
    using opened(3) unfolding atif_make_def by (auto dest!: open_batch_reader_Ok)
  then obtain steps where steps: "aa_index_of A (atif_schema IO) ''steps'' = Ok steps" by (rule atif_open_run)
  have len: "length cols = length ns" using try_map_length [OF opened(2)] .
  have "steps \<noteq> cols ! i" if "i < length ns" for i
  proof -
    have "aa_index_of A (atif_schema IO) (ns ! i) = Ok (cols ! i)"
      using try_map_nth [OF opened(2) that] by (simp add: source_index_def map_err_Ok)
    from index_of_Ok [OF assms(1) this] index_of_Ok [OF assms(1) steps] assms(7) that show ?thesis by (metis nth_mem)
  qed
  then have "steps \<notin> set cols" by (metis in_set_conv_nth len)
  moreover have "atif_projection (source cols) = Some cols" using assms(6) len by (auto simp: opened(1) atif_factory_source_sel(1))
  ultimately show ?thesis using skips_media [OF assms(1,2) _ steps _ run] opened(2) by blast
qed

text \<open>
  C10: A scan of a trajectory file by columns other than the steps, through a handle that may
  have been scanned before, reads no media: whatever the trajectories name, the counters grow
  by the trajectory file alone, the bytes read of it and its size as the total, and every batch
  is the reader's with the columns named.
\<close>

theorem atif_call_skips_media:
  assumes "arrow_ok A" "reader_documented IO" "ffi_atif_open X IO path fmt s3 opendal True = Ok (source, F0)"
    "(factory_step (atif_make X U A IO source) A D)\<^sup>*\<^sup>* F0 F"
    "string_list D names n = Ok ns" "ns \<noteq> []" "''steps'' \<notin> set ns"
    "ffi_get_stream (atif_make X U A IO source) A D names n (Some F) True = Some (Ok (s, batches), Some F')"
  shows "\<exists>cols input sz content items. try_map (source_index A (atif_schema IO)) ns = Ok cols
    \<and> scan_reads (fe_storage X) IO (source cols) False input sz content items
    \<and> batches = map (plain_item IO cols s) items
    \<and> sf_metrics F' = add_bytes_read (of_nat (length content)) (set_total_bytes sz (sf_metrics F))"
  by (rule scan_without_steps [OF assms])

section \<open>Examples\<close>

lemma delivered_Ok: "delivered_item E U IO R projection s (Ok batch) (Ok columns) \<Longrightarrow>
    \<exists>selected. embeds_batch E U (ai_media IO) (ai_arrays IO) R selected s columns"
  by (simp add: delivered_item_def) blast

text \<open>A handle of the example trajectory, and a scan of one of its columns.\<close>

abbreviation runs_maker :: "nat list \<Rightarrow> atif_source" where
  "runs_maker \<equiv> atif_factory_source ''a.warc'' (Some ''json'') None opendal_config_default"

abbreviation runs_factory :: "string list batch res list source_factory" where
  "runs_factory \<equiv> factory_new (atif_schema atif_ref)"

lemma runs_handle: "ffi_atif_open local_env atif_ref (Some ''a.warc'') (Some ''json'') None None True = Ok (runs_maker, runs_factory)"
proof -
  have texts: "c_str (\<lambda>_. []) ''a.warc'' = Ok ''a.warc''" "optional_string (\<lambda>_. []) (Some ''json'') = Ok (Some ''json'')" by code_simp+
  show ?thesis by (simp add: ffi_atif_open_def local_env_sel texts s3_config_of_def default_policy_decodes)
qed

lemma runs_scan:
  assumes "aa_project arrow_ref (atif_schema atif_ref) [k] = Ok s"
    "atif_batches (storage_ref []) no_urls arrow_ref atif_ref (runs_source\<lparr>as_projection := Some [k]\<rparr>) example_file FormatJson
      s 2 (set_total_bytes 2 read_metrics_default) = Some (Ok batches, m')"
    "string_list (\<lambda>_. []) names n = Ok ns" "try_map (source_index arrow_ref (atif_schema atif_ref)) ns = Ok [k]"
  shows "ffi_get_stream (atif_make local_env no_urls arrow_ref atif_ref runs_maker) arrow_ref (\<lambda>_. []) names n (Some runs_factory) True
    = Some (Ok (s, batches), Some (runs_factory\<lparr>sf_metrics := m'\<rparr>))"
proof -
  have same: "runs_maker [k] = runs_source\<lparr>as_projection := Some [k]\<rparr>"
    by (simp add: atif_factory_source_def atif_with_opendal_config_def atif_with_projection_def atif_with_format_def
        atif_source_new_def Let_def)
  have "atif_source_open (storage_ref []) no_urls arrow_ref atif_ref (runs_source\<lparr>as_projection := Some [k]\<rparr>) read_metrics_default
      = Some (Ok (s, batches), m')"
    by (rule runs_open [OF _ _ assms(2)]) (simp_all add: assms(1) atif_projection_def)
  then have "atif_make local_env no_urls arrow_ref atif_ref runs_maker [k] read_metrics_default = Some (Ok (s, batches), m')"
    by (simp add: atif_make_def open_batch_reader_def local_env_sel same)
  then show ?thesis by (simp add: ffi_get_stream_def scan_columns_def assms(3,4) open_reader_def factory_new_def)
qed

lemma runs_names:
  "string_list (\<lambda>_. []) (Some [Some ''steps'']) 1 = Ok [''steps'']" "try_map (source_index arrow_ref (atif_schema atif_ref)) [''steps''] = Ok [1]"
  "string_list (\<lambda>_. []) (Some [Some ''session_id'']) 1 = Ok [''session_id'']"
  "try_map (source_index arrow_ref (atif_schema atif_ref)) [''session_id''] = Ok [0]"
  by code_simp+

text \<open>By its steps: a text part and an inline image.\<close>

lemma steps_batches:
  "\<exists>s steps m'. aa_project arrow_ref (atif_schema atif_ref) [1] = Ok s
    \<and> atif_batches (storage_ref []) no_urls arrow_ref atif_ref (runs_source\<lparr>as_projection := Some [1]\<rparr>) example_file FormatJson
      s 2 (set_total_bytes 2 read_metrics_default) = Some (Ok [Ok [steps]], m')
    \<and> arr_buffers (arr_children (arr_children (arr_children steps ! 0) ! 2) ! 0) = [[], ''png'']"
proof -
  have "(case aa_project arrow_ref (atif_schema atif_ref) [1] of Err _ \<Rightarrow> False
    | Ok s \<Rightarrow> (case atif_batches (storage_ref []) no_urls arrow_ref atif_ref (runs_source\<lparr>as_projection := Some [1]\<rparr>) example_file FormatJson
      s 2 (set_total_bytes 2 read_metrics_default) of
        Some r \<Rightarrow> map_ok (map (map_ok (map (\<lambda>steps. arr_buffers (arr_children (arr_children (arr_children steps ! 0) ! 2) ! 0))))) (fst r)
          = Ok [Ok [[[], ''png'']]]
      | None \<Rightarrow> False))"
    by code_simp
  then show ?thesis by (auto simp: map_ok_Ok map_eq_Cons_conv simp del: One_nat_def dest!: sym [of "Ok [[[], ''png'']]"]
      split: option.split_asm result.split_asm)
qed

theorem atif_readers_deliver_trajectories_witness:
  "\<exists>source F0 t rd steps. ffi_atif_open local_env atif_ref (Some ''a.warc'') (Some ''json'') None None True = Ok (source, F0)
    \<and> (source_step (atif_make local_env no_urls arrow_ref atif_ref source) arrow_ref (\<lambda>_. []))\<^sup>*\<^sup>* (source_session_start F0) t
    \<and> ss_readers t = [Some rd] \<and> sr_names rd = [''steps''] \<and> sr_left rd = [Ok [steps]]
    \<and> arr_type steps = field_type (schema_fields (sr_schema rd) ! 0)
    \<and> arr_buffers (arr_children (arr_children (arr_children steps ! 0) ! 2) ! 0) = [[], ''png'']"
proof -
  let ?mk = "atif_make local_env no_urls arrow_ref atif_ref runs_maker"
  obtain m' s steps where batches: "aa_project arrow_ref (atif_schema atif_ref) [1] = Ok s"
    "atif_batches (storage_ref []) no_urls arrow_ref atif_ref (runs_source\<lparr>as_projection := Some [1]\<rparr>) example_file FormatJson
      s 2 (set_total_bytes 2 read_metrics_default) = Some (Ok [Ok [steps]], m')"
    "arr_buffers (arr_children (arr_children (arr_children steps ! 0) ! 2) ! 0) = [[], ''png'']"
    using steps_batches by (elim exE conjE) (rule that)
  let ?rd = "scan_reader_new [''steps''] (s, [Ok [steps]])"
  let ?t = "\<lparr>ss_factory = Some (runs_factory\<lparr>sf_metrics := m'\<rparr>), ss_readers = [Some ?rd]\<rparr>"
  have "source_step ?mk arrow_ref (\<lambda>_. []) (source_session_start runs_factory) ?t"
    using source_step.scans [of ?mk arrow_ref "\<lambda>_. []" "Some [Some ''steps'']" 1 "source_session_start runs_factory" True]
      runs_scan [OF batches(1,2) runs_names(1,2)] runs_names(1) by (simp add: source_session_start_def)
  then have run: "(source_step ?mk arrow_ref (\<lambda>_. []))\<^sup>*\<^sup>* (source_session_start runs_factory) ?t" by (rule r_into_rtranclp)
  have rd: "Some ?rd \<in> set (ss_readers ?t)" "sr_names ?rd = [''steps'']" "sr_schema ?rd = s" "sr_yielded ?rd = []"
    "sr_left ?rd = [Ok [steps]]" by (simp_all add: scan_reader_new_def)
  from atif_readers_deliver_trajectories [OF atif_ref_documented(1,2) runs_handle run rd(1)]
  have trajectories: "delivers_trajectories (storage_ref []) no_urls arrow_ref atif_ref (runs_maker [1]) [1] s [Ok [steps]]"
    unfolding rd runs_names(2) local_env_sel by simp
  then obtain R batch where "embeds_batch (storage_ref []) no_urls (ai_media atif_ref) (ai_arrays atif_ref) R batch s [steps]"
    by (auto simp: delivers_trajectories_def dest!: runs_items delivered_Ok)
  moreover have "length (schema_fields s) = 1" using project_Ok [OF arrow_ref_ok batches(1)] by simp
  ultimately have typed: "arr_type steps = field_type (schema_fields (sr_schema ?rd) ! 0)"
    by (cases batch; cases "schema_fields s") (auto simp: embeds_batch_def rd(3))
  show ?thesis by (intro exI [of _ runs_maker] exI [of _ runs_factory] exI [of _ ?t] exI [of _ ?rd] exI [of _ steps] conjI)
      (rule runs_handle, rule run, simp, rule rd, rule rd, rule typed, rule batches(3))
qed

text \<open>By its identifier: two bytes read, of a file of two.\<close>

theorem atif_call_skips_media_witness:
  "\<exists>source F0 s batches F'. ffi_atif_open local_env atif_ref (Some ''a.warc'') (Some ''json'') None None True = Ok (source, F0)
    \<and> ffi_get_stream (atif_make local_env no_urls arrow_ref atif_ref source) arrow_ref (\<lambda>_. []) (Some [Some ''session_id'']) 1 (Some F0) True
        = Some (Ok (s, batches), Some F')
    \<and> batches = [plain_item atif_ref [0] s (Ok runs_batch)]
    \<and> sf_metrics F' = add_bytes_read 2 (set_total_bytes 2 (sf_metrics F0))"
proof -
  obtain batches m' s where run: "aa_project arrow_ref (atif_schema atif_ref) [0] = Ok s"
    "atif_batches (storage_ref []) no_urls arrow_ref atif_ref (runs_source\<lparr>as_projection := Some [0]\<rparr>) example_file FormatJson
      s 2 (set_total_bytes 2 read_metrics_default) = Some (Ok batches, m')" using ids_batches by (elim exE conjE) (rule that)
  note scan = runs_scan [OF run runs_names(3,4)]
  have names: "[''session_id''] \<noteq> []" "''steps'' \<notin> set [''session_id'']" by simp_all
  from atif_call_skips_media [OF arrow_ref_ok atif_ref_documented(3) runs_handle rtranclp.rtrancl_refl runs_names(3) names scan]
  obtain input sz content items where reads: "scan_reads (storage_ref []) atif_ref (runs_maker [0]) False input sz content items"
    "batches = map (plain_item atif_ref [0] s) items"
    "sf_metrics (runs_factory\<lparr>sf_metrics := m'\<rparr>) = add_bytes_read (of_nat (length content)) (set_total_bytes sz (sf_metrics runs_factory))"
    unfolding runs_names(4) local_env_sel by blast
  have plain: "batches = [plain_item atif_ref [0] s (Ok runs_batch)]" using reads(2) by (simp add: runs_items [OF reads(1)])
  have counted: "sf_metrics (runs_factory\<lparr>sf_metrics := m'\<rparr>) = add_bytes_read 2 (set_total_bytes 2 (sf_metrics runs_factory))"
    using reads(3) runs_counted [OF reads(1)] by simp
  show ?thesis by (intro exI conjI) (rule runs_handle, rule scan, rule plain, rule counted)
qed

end
