(* ===== verification/Spec2Isabelle.thy ===== *)
theory Spec2Isabelle
  imports SchemaCheck Metrics WarcSegment WarcIndex WarcStream Storage WarcOpen
    FfiScan FfiSplit FfiTrajectory
begin

text \<open>
  A verification library for the Rust crate under \<open>rust/src\<close>: sources that read WARC files, ATIF
  trajectories and Hugging Face Parquet splits as streams of Arrow batches, a sink that writes
  batches to a Lance dataset, and the C interface through which the DuckDB extension drives both.

  \<^bold>\<open>How the parts interact.\<close> A scan is opened by the C interface: a source is made from the
  decoded configuration, its input is opened in an operator of \<open>storage.rs\<close>, and each scan reopens
  it with the columns it names. The sources deliver batches over channels fed by tasks, and count
  what they read in shared counters. A write opens a dataset: its schema is checked, the stored
  schema (blob columns, trajectory storage policies, encodings) and the plan of its indexes are
  derived, then any number of fragment writers, one task each, write data files. A commit merges
  the transactions of the finished writers, publishes one version and builds the indexes.

  \<^bold>\<open>Shared theories.\<close>
  \<^item> \<open>Prelude\<close>: \<open>Result\<close> and its combinators, checked and saturating arithmetic, the collection
    \<open>result_simps\<close>. \<open>Simulation\<close>: the locales of an invariant of a step relation and of a forward
    simulation. \<open>Merge\<close>: interleavings of lists.
  \<^item> \<open>RustStr\<close>: Rust's \<open>str\<close>, \<open>Path\<close> and number parsing on UTF-8 bytes. \<open>StrMap\<close>: \<open>BTreeMap\<close> as a
    sorted association list, with its laws. \<open>Arrow\<close>: data types, fields, schemas and arrays.
  \<^item> \<open>Errors\<close> (\<open>error.rs\<close>): an error with its message, status and source, the conversions into it,
    and the context it is given.

  \<^bold>\<open>Sources.\<close>
  \<^item> \<open>Source\<close> (\<open>source.rs\<close>), \<open>Metrics\<close> (\<open>source/metrics.rs\<close>): read options, decompression, and the
    counters as words updated one atomic operation at a time; the expected total is exact once
    all objects are open.
  \<^item> \<open>WarcSegment\<close> (\<open>source/warc_segment.rs\<close>): parsing a crawl or segment directory and selecting the
    files of its manifest. \<open>WarcIndex\<close> (\<open>source/warc_index.rs\<close>): reading an index and merging its
    entries into range reads, as a refinement of a partition into runs of adjacent entries.
  \<^item> \<open>WarcRecords\<close>, \<open>WarcStream\<close>, \<open>WarcOpen\<close> (\<open>source/warc.rs\<close>): the schema and its projections, the
    batch builder against a cell-by-cell specification, the record loop over a bounded channel,
    and \<open>open\<close> for one file, an indexed file and a segment.
  \<^item> \<open>RowGroup\<close>, \<open>Parquet\<close> (\<open>source/parquet.rs\<close>, \<open>source/parquet_metadata.rs\<close>): the read-ahead of a row
    group as a step relation of its task and its consumer, and the scan of many files.
    \<open>HuggingFace\<close> (\<open>source/huggingface.rs\<close>): the shards of a split.
  \<^item> \<open>MediaUri\<close>, \<open>AtifMedia\<close> (\<open>source/atif/media.rs\<close>, \<open>atif.rs\<close>), \<open>AtifSource\<close> (\<open>source/atif.rs\<close>): what a
    media reference of a trajectory resolves to and opens, the replacement of media paths by
    their bytes at any depth of a batch, which gives exactly the batches that embed them, and the
    stream of trajectories.

  \<^bold>\<open>Storage.\<close> \<open>OpendalConfig\<close> and \<open>Storage\<close> (\<open>storage.rs\<close>): the policy and its layers, operators for local,
  S3, HTTP and Hugging Face locations, input files, and the cache of object stores handed to Lance
  (an interpretation of the locale of caches by key).

  \<^bold>\<open>Sink.\<close>
  \<^item> \<open>SchemaCheck\<close> (\<open>schema.rs\<close>), \<open>WriteOptions\<close>, \<open>LanceWriter\<close> (\<open>sink/lance.rs\<close>), \<open>IndexPlan\<close>
    (\<open>sink/lance/index.rs\<close>), \<open>ColumnEncoding\<close> and \<open>ColumnStorage\<close> (the files of these names): what a
    write accepts, the schema it stores, and the rewriting of arrays into that schema.
  \<^item> \<open>DatasetWrite\<close> (\<open>sink/lance/dataset.rs\<close>): creation, writing of data files, merging, commit.
  \<^item> \<open>Fragment\<close>, \<open>DatasetSystem\<close> (\<open>sink/lance/fragment.rs\<close>): the handlers of a fragment writer, whose
    life is an order it only moves forward in, its task and its channel of one slot as step
    relations, any number of them sharing one write, and the specification they refine: writers
    that are writing, sealed or lost, and a log of the sealed.

  \<^bold>\<open>C interface\<close> (\<open>ffi.rs\<close>). \<open>FfiConfig\<close>: strings, lists, configurations and the error of a call.
  \<open>FfiDataset\<close>: existence and removal of a destination, the handles of a write as sessions of
  arbitrary calls. \<open>FfiSource\<close>: factories of sources, with the locale of sources that scans reopen
  by column and its interpretations for the three sources. \<open>FfiSession\<close>: a handle and the readers
  its scans have opened, called in any interleaving up to their release, with the locale of what
  every reader of a session is. \<open>FfiScan\<close>, \<open>FfiSplit\<close> and \<open>FfiTrajectory\<close>: the calls on one WARC
  file, on one Hugging Face split and on one trajectory file from end to end.

  \<^bold>\<open>Conventions.\<close> A struct is a record or, with one use, its fields; an enum a datatype; \<open>usize\<close> and
  the fixed-width integers are words, an \<open>f64\<close> of the policy a rational; a row or byte count that a
  stated bound keeps below the width is a \<open>nat\<close>. A \<open>Result\<close> is a value of \<open>result\<close>; a panic is
  \<open>None\<close> where the code can panic, and the theorems on panics show when it cannot. Loops are
  structural recursions, so that they end; the runs of tasks are step relations, with theorems
  that bound their steps (\<open>row_group_delivers\<close>, \<open>pending_operation_returns\<close>), so no fuel is used.

  \<^bold>\<open>Parameters.\<close> Crates that are not part of the repository are arguments: the records
  \<open>storage_env\<close> (opendal, url, object_store, the working directory), \<open>warc_io\<close>, \<open>parquet_io\<close>,
  \<open>media_io\<close>, \<open>atif_io\<close>, \<open>arrow_api\<close>, \<open>array_api\<close>, \<open>url_api\<close>, \<open>lance_env\<close>, \<open>ffi_env\<close>. What a theorem
  uses of them is a predicate named \<open>documented\<close> or \<open>ok\<close>, shown to hold of a concrete instance in
  the example that applies the theorem. Storage is a function within one scan or call: an object
  is assumed not to change while it is read.

  \<^bold>\<open>What is proved.\<close> For the sources: what a scan delivers, in which order and batches, on inputs that
  can be read, where the first error or a panic of the parser's task ends it, that opening one does
  not panic, and which files, origins and ranges it reads. For the sink: the schemas and plans accepted, the typing of the
  arrays rewritten, the refinement of the specification by concurrent writers, that a commit
  publishes exactly the rows of the finished writers, in the order they finished
  (\<open>DatasetSystem.finish_order\<close>, which the states of the writers alone determine), and that waiting
  operations return. For the C interface: that decoded options are usable and defaults round-trip,
  that a handle commits at most once and what, that removal stays inside the dataset its arguments
  name, that scans have the columns they name, and that
  they deliver all the records of a WARC file, all the trajectories of a file or all the shards of
  a split, for the last two through any session, also one whose handle is gone.

  \<^bold>\<open>Not modelled.\<close> \<open>lib.rs\<close> only re-exports. The C++ extension under \<open>src\<close> binds DuckDB's callbacks to
  the C interface, and \<open>rust/include\<close> only declares it. Tests, test helpers and build scripts are
  not part of the program. Within the modelled files: the memory of handles and of error
  strings, spawning on a runtime beyond the choice of steps, \<open>Debug\<close> output, the timing of
  retries, and the bytes counted by a Parquet scan that fails while it opens. A trajectory's media
  are resolved when the scan opens instead of batch by batch, so that a panic of the resolver is
  a panic of the opening in the model and of a later poll in the code. The capacities
  given to builders, which are assumed to be allocatable, and the channel's wake-ups have no effect
  on results.
\<close>

end
